(* ===== verification/Prelude.thy ===== *)
theory Prelude
  imports Main "HOL-Library.Word"
begin

text \<open>
  Shared vocabulary of the development: the C integer types as words, the state
  and error monad in which kernel code is written, its weakest-precondition
  calculus, little-endian byte encodings and a few facts on words, lists and
  division that the components share.
\<close>

unbundle bit_operations_syntax

section \<open>C types\<close>

type_synonym u8 = "8 word"
type_synonym u16 = "16 word"
type_synonym u32 = "32 word"
type_synonym u64 = "64 word"

text \<open>A C string or buffer: the bytes from the pointer to the end of the object.\<close>

type_synonym bytes = "u8 list"

section \<open>Kernel code: state, result, panic\<close>

text \<open>
  A kernel function takes the state of the components it touches and returns
  either its result with the new state, or the reason it did not return:
  a \<open>panic\<close> with the message of the source, \<open>Blocked\<close> when the code would
  call \<open>sleep\<close> on a channel and wait for another thread, or \<open>Undef\<close> when it does
  something C leaves undefined, such as a store beyond the end of an array.
\<close>

datatype kerr = Panic string | Blocked string | Undef string

type_synonym ('s, 'a) km = "'s \<Rightarrow> kerr + ('a \<times> 's)"

definition returnK :: "'a \<Rightarrow> ('s, 'a) km" where
  "returnK x s = Inr (x, s)"

definition bindK :: "('s, 'a) km \<Rightarrow> ('a \<Rightarrow> ('s, 'b) km) \<Rightarrow> ('s, 'b) km" where
  "bindK m f s = (case m s of Inl e \<Rightarrow> Inl e | Inr (x, s') \<Rightarrow> f x s')"

definition thenK :: "('s, 'a) km \<Rightarrow> ('s, 'b) km \<Rightarrow> ('s, 'b) km" where
  "thenK m k = bindK m (\<lambda>_. k)"

definition panicK :: "string \<Rightarrow> ('s, 'a) km" where
  "panicK msg s = Inl (Panic msg)"

definition blockK :: "string \<Rightarrow> ('s, 'a) km" where
  "blockK chan s = Inl (Blocked chan)"

definition undefK :: "string \<Rightarrow> ('s, 'a) km" where
  "undefK msg s = Inl (Undef msg)"

definition getK :: "('s \<Rightarrow> 'a) \<Rightarrow> ('s, 'a) km" where
  "getK f s = Inr (f s, s)"

definition modifyK :: "('s \<Rightarrow> 's) \<Rightarrow> ('s, unit) km" where
  "modifyK f s = Inr ((), f s)"

text \<open>A \<open>for\<close> loop over a fixed list of iterations, without an early exit.\<close>

fun forK :: "'i list \<Rightarrow> ('i \<Rightarrow> ('s, unit) km) \<Rightarrow> ('s, unit) km" where
  "forK [] body = returnK ()"
| "forK (i # is) body = thenK (body i) (forK is body)"

lemma bindK_cong [fundef_cong]:
  assumes "m s = m' s'" and "\<And>x t. m' s' = Inr (x, t) \<Longrightarrow> f x t = f' x t"
  shows "bindK m f s = bindK m' f' s'"
  using assms by (auto simp: bindK_def split: sum.splits)

lemma thenK_cong [fundef_cong]:
  assumes "m s = m' s'" and "\<And>x t. m' s' = Inr (x, t) \<Longrightarrow> k t = k' t"
  shows "thenK m k s = thenK m' k' s'"
  using assms by (auto simp: thenK_def bindK_def split: sum.splits)

lemma if_app_cong [fundef_cong]:
  assumes "b = b'" and "b' \<Longrightarrow> m s = m' s'" and "\<not> b' \<Longrightarrow> n s = n' s'"
  shows "(if b then m else n) s = (if b' then m' else n') s'"
  using assms by auto

named_theorems kdefs \<open>definitions of the kernel monad, for evaluation\<close>

declare returnK_def [kdefs] bindK_def [kdefs] thenK_def [kdefs] panicK_def [kdefs]
  blockK_def [kdefs] undefK_def [kdefs] getK_def [kdefs] modifyK_def [kdefs]

subsection \<open>Weakest preconditions\<close>

text \<open>
  \<open>wpK m Q s\<close>: from \<open>s\<close> the code \<open>m\<close> returns (it neither panics nor blocks) and its
  result and final state satisfy \<open>Q\<close>. \<open>wlpK m Q s\<close>: if it returns, they do.
\<close>

definition wpK :: "('s, 'a) km \<Rightarrow> ('a \<Rightarrow> 's \<Rightarrow> bool) \<Rightarrow> 's \<Rightarrow> bool" where
  "wpK m Q s \<longleftrightarrow> (case m s of Inl _ \<Rightarrow> False | Inr (x, s') \<Rightarrow> Q x s')"

definition wlpK :: "('s, 'a) km \<Rightarrow> ('a \<Rightarrow> 's \<Rightarrow> bool) \<Rightarrow> 's \<Rightarrow> bool" where
  "wlpK m Q s \<longleftrightarrow> (case m s of Inl _ \<Rightarrow> True | Inr (x, s') \<Rightarrow> Q x s')"

named_theorems wp \<open>weakest preconditions of the kernel combinators\<close>

lemma wpK_returnK [wp]: "wpK (returnK x) Q = Q x"
  by (simp add: fun_eq_iff wpK_def returnK_def)

lemma wpK_bindK [wp]: "wpK (bindK m f) Q = wpK m (\<lambda>x. wpK (f x) Q)"
  by (auto simp: fun_eq_iff wpK_def bindK_def split: sum.splits)

lemma wpK_thenK [wp]: "wpK (thenK m k) Q = wpK m (\<lambda>_. wpK k Q)"
  by (simp add: thenK_def wpK_bindK)

lemma wpK_panicK [wp]: "wpK (panicK e) Q = (\<lambda>_. False)"
  by (simp add: fun_eq_iff wpK_def panicK_def)

lemma wpK_blockK [wp]: "wpK (blockK e) Q = (\<lambda>_. False)"
  by (simp add: fun_eq_iff wpK_def blockK_def)

lemma wpK_undefK [wp]: "wpK (undefK e) Q = (\<lambda>_. False)"
  by (simp add: fun_eq_iff wpK_def undefK_def)

lemma wpK_getK [wp]: "wpK (getK f) Q = (\<lambda>s. Q (f s) s)"
  by (simp add: fun_eq_iff wpK_def getK_def)

lemma wpK_modifyK [wp]: "wpK (modifyK f) Q = (\<lambda>s. Q () (f s))"
  by (simp add: fun_eq_iff wpK_def modifyK_def)

lemma wpK_if [wp]: "wpK (if b then m else n) Q = (\<lambda>s. if b then wpK m Q s else wpK n Q s)"
  by (simp add: fun_eq_iff)

lemma wlpK_returnK [wp]: "wlpK (returnK x) Q = Q x"
  by (simp add: fun_eq_iff wlpK_def returnK_def)

lemma wlpK_bindK [wp]: "wlpK (bindK m f) Q = wlpK m (\<lambda>x. wlpK (f x) Q)"
  by (auto simp: fun_eq_iff wlpK_def bindK_def split: sum.splits)

lemma wlpK_thenK [wp]: "wlpK (thenK m k) Q = wlpK m (\<lambda>_. wlpK k Q)"
  by (simp add: thenK_def wlpK_bindK)

lemma wlpK_panicK [wp]: "wlpK (panicK e) Q = (\<lambda>_. True)"
  by (simp add: fun_eq_iff wlpK_def panicK_def)

lemma wlpK_blockK [wp]: "wlpK (blockK e) Q = (\<lambda>_. True)"
  by (simp add: fun_eq_iff wlpK_def blockK_def)

lemma wlpK_undefK [wp]: "wlpK (undefK e) Q = (\<lambda>_. True)"
  by (simp add: fun_eq_iff wlpK_def undefK_def)

lemma wlpK_getK [wp]: "wlpK (getK f) Q = (\<lambda>s. Q (f s) s)"
  by (simp add: fun_eq_iff wlpK_def getK_def)

lemma wlpK_modifyK [wp]: "wlpK (modifyK f) Q = (\<lambda>s. Q () (f s))"
  by (simp add: fun_eq_iff wlpK_def modifyK_def)

lemma wlpK_if [wp]: "wlpK (if b then m else n) Q = (\<lambda>s. if b then wlpK m Q s else wlpK n Q s)"
  by (simp add: fun_eq_iff)

lemma wpK_mono: "wpK m P s \<Longrightarrow> (\<And>x t. P x t \<Longrightarrow> Q x t) \<Longrightarrow> wpK m Q s"
  by (auto simp: wpK_def split: sum.splits)

lemma wlpK_mono: "wlpK m P s \<Longrightarrow> (\<And>x t. P x t \<Longrightarrow> Q x t) \<Longrightarrow> wlpK m Q s"
  by (auto simp: wlpK_def split: sum.splits)

lemma wpK_conj: "wpK m P s \<Longrightarrow> wlpK m Q s \<Longrightarrow> wpK m (\<lambda>x t. P x t \<and> Q x t) s"
  by (auto simp: wpK_def wlpK_def split: sum.splits)

lemma wpK_obtain:
  assumes "wpK m Q s"
  obtains x t where "m s = Inr (x, t)" and "Q x t"
  using assms by (auto simp: wpK_def split: sum.splits)

lemma wpK_unit_ex:
  fixes m :: "('s, unit) km"
  assumes "wpK m (\<lambda>_. Q) s"
  shows "\<exists>t. m s = Inr ((), t) \<and> Q t"
  using assms by (auto simp: wpK_def split: sum.splits)

lemma wpK_I: "m s = Inr (x, t) \<Longrightarrow> Q x t \<Longrightarrow> wpK m Q s"
  by (simp add: wpK_def)

lemma wlpK_D: "wlpK m Q s \<Longrightarrow> m s = Inr (x, t) \<Longrightarrow> Q x t"
  by (simp add: wlpK_def)

lemma wpK_wlpK: "wpK m Q s \<Longrightarrow> wlpK m Q s"
  by (auto simp: wpK_def wlpK_def split: sum.splits)

text \<open>The invariant rule of \<open>for\<close> loops.\<close>

lemma wpK_forK:
  assumes "I 0 s"
    and "\<And>k t. k < length is \<Longrightarrow> I k t \<Longrightarrow> wpK (body (is ! k)) (\<lambda>_. I (Suc k)) t"
    and "\<And>t. I (length is) t \<Longrightarrow> Q () t"
  shows "wpK (forK is body) Q s"
  using assms
proof (induction "is" arbitrary: I s)
  case Nil
  then show ?case by (simp add: wp)
next
  case (Cons i "is")
  have "wpK (body i) (\<lambda>_. I (Suc 0)) s"
    using Cons.prems(1) Cons.prems(2) [of 0 s] by simp
  then have "wpK (body i) (\<lambda>_. wpK (forK is body) Q) s"
  proof (rule wpK_mono)
    fix x t
    assume "I (Suc 0) t"
    then show "wpK (forK is body) Q t"
      using Cons.prems(2) [of "Suc k" for k] Cons.prems(3)
      by (intro Cons.IH [of "\<lambda>k. I (Suc k)"]) auto
  qed
  then show ?case by (simp add: wp)
qed

section \<open>Little-endian encodings\<close>

text \<open>How RISC-V lays an \<open>n\<close>-byte unsigned integer out in memory.\<close>

fun le_nat :: "bytes \<Rightarrow> nat" where
  "le_nat [] = 0"
| "le_nat (b # bs) = unat b + 256 * le_nat bs"

fun le_bytes :: "nat \<Rightarrow> nat \<Rightarrow> bytes" where
  "le_bytes 0 v = []"
| "le_bytes (Suc n) v = word_of_nat v # le_bytes n (v div 256)"

lemma length_le_bytes [simp]: "length (le_bytes n v) = n"
  by (induction n arbitrary: v) auto

lemma unat_byte: "unat (word_of_nat v :: u8) = v mod 256"
  by (simp add: unat_of_nat)

lemma le_nat_le_bytes: "le_nat (le_bytes n v) = v mod 256 ^ n"
proof (induction n arbitrary: v)
  case 0
  then show ?case by simp
next
  case (Suc n)
  have "v mod (256 * 256 ^ n) = v mod 256 + 256 * (v div 256 mod 256 ^ n)"
    by (simp add: mod_mult2_eq)
  with Suc show ?case by (simp add: unat_byte)
qed

lemma le_nat_bound: "le_nat bs < 256 ^ length bs"
proof (induction bs)
  case (Cons b bs)
  have "unat b < 256" using unsigned_less [of b] by simp
  moreover have "Suc (le_nat bs) \<le> 256 ^ length bs" using Cons by simp
  then have "256 * Suc (le_nat bs) \<le> 256 * 256 ^ length bs"
    by (rule mult_le_mono2)
  ultimately show ?case by simp
qed simp

lemma le_bytes_le_nat: "le_bytes (length bs) (le_nat bs) = bs"
proof (induction bs)
  case (Cons b bs)
  have "unat b < 256" using unsigned_less [of b] by simp
  then have "(unat b + 256 * le_nat bs) div 256 = le_nat bs"
    by simp
  moreover have "(word_of_nat (unat b + 256 * le_nat bs) :: u8) = b"
    using \<open>unat b < 256\<close> by (simp only: word_unat_eq_iff unat_byte) simp
  ultimately show ?case using Cons by simp
qed simp

lemma le_nat_replicate_0 [simp]: "le_nat (replicate n 0) = 0"
  by (induction n) auto

section \<open>Lists\<close>

text \<open>Overwriting the bytes of a buffer from an offset, as \<open>memmove\<close> into it does.\<close>

definition overwrite :: "'a list \<Rightarrow> nat \<Rightarrow> 'a list \<Rightarrow> 'a list" where
  "overwrite xs off ys = take off xs @ ys @ drop (off + length ys) xs"

lemma length_overwrite [simp]: "off + length ys \<le> length xs \<Longrightarrow> length (overwrite xs off ys) = length xs"
  by (simp add: overwrite_def)

lemma overwrite_same: "off + length ys \<le> length xs \<Longrightarrow>
    take (length ys) (drop off (overwrite xs off ys)) = ys"
  by (simp add: overwrite_def)

lemma nth_overwrite:
  assumes "off + length ys \<le> length xs" "i < length xs"
  shows "overwrite xs off ys ! i = (if off \<le> i \<and> i < off + length ys then ys ! (i - off) else xs ! i)"
proof -
  consider "i < off" | "off \<le> i" "i < off + length ys" | "off + length ys \<le> i" by linarith
  then show ?thesis
  proof cases
    case 1
    then show ?thesis using assms by (simp add: overwrite_def nth_append)
  next
    case 2
    then show ?thesis using assms by (auto simp: overwrite_def nth_append min_def)
  next
    case 3
    then have "i - off - length ys + (off + length ys) = i" by simp
    with 3 show ?thesis using assms by (auto simp: overwrite_def nth_append min_def)
  qed
qed

lemma overwrite_other:
  assumes "off + length ys \<le> length xs" "n + off' \<le> length xs"
    and "off' + n \<le> off \<or> off + length ys \<le> off'"
  shows "take n (drop off' (overwrite xs off ys)) = take n (drop off' xs)"
  using assms by (intro nth_equalityI) (auto simp: nth_overwrite)

section \<open>Integers inside a block of bytes\<close>

text \<open>The \<open>n\<close>-byte integer at an offset, as the code reads and writes a field of a structure that
  it overlays on a block.\<close>

definition get_le :: "nat \<Rightarrow> bytes \<Rightarrow> nat \<Rightarrow> nat" where
  "get_le n d off = le_nat (take n (drop off d))"

definition put_le :: "nat \<Rightarrow> bytes \<Rightarrow> nat \<Rightarrow> nat \<Rightarrow> bytes" where
  "put_le n d off v = overwrite d off (le_bytes n v)"

lemma length_put_le [simp]: "off + n \<le> length d \<Longrightarrow> length (put_le n d off v) = length d"
  by (simp add: put_le_def)

lemma get_put_le: "off + n \<le> length d \<Longrightarrow> get_le n (put_le n d off v) off = v mod 256 ^ n"
  using overwrite_same [of off "le_bytes n v" d] by (simp add: get_le_def put_le_def le_nat_le_bytes)

lemma get_put_le_other:
  assumes "off + n \<le> length d" "off' + m \<le> length d" "off' + m \<le> off \<or> off + n \<le> off'"
  shows "get_le m (put_le n d off v) off' = get_le m d off'"
  using overwrite_other [of off "le_bytes n v" d m off'] assms by (simp add: get_le_def put_le_def add.commute)

end
