(* ===== verification/Kstring.thy ===== *)
theory Kstring
  imports Prelude
begin

text \<open>
  The byte and string routines of \<open>kernel/string.c\<close> and of the user library
  (\<open>user/ulib.c\<close>, \<open>user/string.c\<close>). Routines whose meaning depends on aliasing
  (\<open>memset\<close>, \<open>memmove\<close>) work on a byte-addressed memory; routines that only
  read C strings take the bytes from the pointer to the end of the object and
  return \<open>None\<close> where the C code would read beyond it.
\<close>

section \<open>Memory\<close>

type_synonym memory = "u64 \<Rightarrow> u8"

definition read_mem :: "memory \<Rightarrow> u64 \<Rightarrow> nat \<Rightarrow> bytes" where
  "read_mem m a n = map (\<lambda>i. m (a + word_of_nat i)) [0..<n]"

definition write_mem :: "memory \<Rightarrow> u64 \<Rightarrow> bytes \<Rightarrow> memory" where
  "write_mem m a bs = (\<lambda>x. if unat (x - a) < length bs then bs ! unat (x - a) else m x)"

lemma length_read_mem [simp]: "length (read_mem m a n) = n"
  by (simp add: read_mem_def)

lemma nth_read_mem: "i < n \<Longrightarrow> read_mem m a n ! i = m (a + word_of_nat i)"
  by (simp add: read_mem_def)

lemma unat_of_nat_u64: "n < 2 ^ 64 \<Longrightarrow> unat (word_of_nat n :: u64) = n"
  by (simp add: unat_of_nat)

lemma unat_u64_less: "unat (x :: u64) < 2 ^ 64"
  using unsigned_less [of x] by simp

lemma addr_offset:
  fixes x a :: u64
  assumes "k < 2 ^ 64"
  shows "x = a + word_of_nat k \<longleftrightarrow> unat (x - a) = k"
proof
  assume "x = a + word_of_nat k"
  with assms show "unat (x - a) = k" by (simp add: unat_of_nat_u64)
next
  assume "unat (x - a) = k"
  then have "word_of_nat k = x - a" by auto
  then show "x = a + word_of_nat k" by simp
qed

lemma addr_at_offset [simp]: "a + word_of_nat (unat (x - a)) = x" for x a :: u64
  by simp

lemma offset_add: "k < 2 ^ 64 \<Longrightarrow> unat (a + word_of_nat k - a) = k" for a :: u64
  by (simp add: unat_of_nat_u64)

lemma unat_add_offset: "unat a + k < 2 ^ 64 \<Longrightarrow> unat (a + word_of_nat k) = unat a + k" for a :: u64
  by (simp add: unat_word_ariths unat_of_nat_u64)

lemma read_write_mem [simp]:
  assumes "length bs \<le> 2 ^ 64"
  shows "read_mem (write_mem m a bs) a (length bs) = bs"
  using assms by (intro nth_equalityI) (auto simp: nth_read_mem write_mem_def unat_of_nat_u64)

lemma write_mem_Nil [simp]: "write_mem m a [] = m"
  by (simp add: write_mem_def)


lemma write_mem_outside:
  "length bs \<le> unat (x - a) \<Longrightarrow> write_mem m a bs x = m x"
  by (simp add: write_mem_def)

section \<open>memset and memmove (kernel/string.c)\<close>

text \<open>\<open>for(i = 0; i < n; i++) cdst[i] = c;\<close>\<close>

function memset_loop :: "memory \<Rightarrow> u64 \<Rightarrow> u8 \<Rightarrow> nat \<Rightarrow> nat \<Rightarrow> memory" where
  "memset_loop m dst c i n =
     (if i < n then memset_loop (m(dst + word_of_nat i := c)) dst c (Suc i) n else m)"
  by pat_completeness auto
termination
  by (relation "measure (\<lambda>(m, dst, c, i, n). n - i)") auto

declare memset_loop.simps [simp del]

definition memset :: "memory \<Rightarrow> u64 \<Rightarrow> u8 \<Rightarrow> nat \<Rightarrow> memory" where
  "memset m dst c n = memset_loop m dst c 0 n"

lemma memset_loop_eq:
  assumes "n \<le> 2 ^ 64"
  shows "memset_loop m dst c i n =
    (\<lambda>x. if i \<le> unat (x - dst) \<and> unat (x - dst) < n then c else m x)"
  using assms
proof (induction m dst c i n rule: memset_loop.induct)
  case (1 m dst c i n)
  show ?case
  proof (cases "i < n")
    case True
    then have "i < 2 ^ 64" using "1.prems" by simp
    then have eq: "x = dst + word_of_nat i \<longleftrightarrow> unat (x - dst) = i" for x
      by (rule addr_offset)
    have "memset_loop m dst c i n =
        (\<lambda>x. if Suc i \<le> unat (x - dst) \<and> unat (x - dst) < n then c
             else (m(dst + word_of_nat i := c)) x)"
      by (subst memset_loop.simps) (simp only: True if_True "1.IH" [OF True "1.prems"])
    also have "\<dots> = (\<lambda>x. if i \<le> unat (x - dst) \<and> unat (x - dst) < n then c else m x)"
      using True by (intro ext) (auto simp: eq fun_upd_def)
    finally show ?thesis .
  next
    case False
    then show ?thesis by (auto simp: memset_loop.simps [of m] fun_eq_iff)
  qed
qed

lemma memset_eq: "n \<le> 2 ^ 64 \<Longrightarrow> memset m dst c n = write_mem m dst (replicate n c)"
  by (auto simp: memset_def memset_loop_eq write_mem_def)

text \<open>
  The two copy loops of \<open>memmove\<close>. The forward loop walks \<open>*d++ = *s++\<close>; the
  backward loop gets the end pointers and walks \<open>*--d = *--s\<close>.
\<close>

fun copy_forward :: "memory \<Rightarrow> u64 \<Rightarrow> u64 \<Rightarrow> nat \<Rightarrow> memory" where
  "copy_forward m d s 0 = m"
| "copy_forward m d s (Suc n) = copy_forward (m(d := m s)) (d + 1) (s + 1) n"

fun copy_backward :: "memory \<Rightarrow> u64 \<Rightarrow> u64 \<Rightarrow> nat \<Rightarrow> memory" where
  "copy_backward m d s 0 = m"
| "copy_backward m d s (Suc n) = copy_backward (m(d - 1 := m (s - 1))) (d - 1) (s - 1) n"

definition memmove :: "memory \<Rightarrow> u64 \<Rightarrow> u64 \<Rightarrow> nat \<Rightarrow> memory" where
  "memmove m dst src n =
     (if n = 0 then m
      else if src < dst \<and> src + word_of_nat n > dst
      then copy_backward m (dst + word_of_nat n) (src + word_of_nat n) n
      else copy_forward m dst src n)"

definition memcpy :: "memory \<Rightarrow> u64 \<Rightarrow> u64 \<Rightarrow> nat \<Rightarrow> memory" where
  "memcpy m dst src n = memmove m dst src n"

lemma unat_offset_Suc:
  fixes x d :: u64
  assumes "x \<noteq> d"
  shows "Suc (unat (x - (d + 1))) = unat (x - d)"
proof -
  have "x - d = (x - (d + 1)) + 1" by simp
  moreover have "(x - (d + 1)) + 1 \<noteq> 0" using assms by (simp add: algebra_simps)
  ultimately show ?thesis
    using unatSuc [of "x - (d + 1)"] by (simp add: add.commute)
qed

lemma copy_forward_eq:
  assumes "unat s + n < 2 ^ 64" and "unat d + n < 2 ^ 64"
    and "unat d \<le> unat s \<or> unat s + n \<le> unat d"
  shows "copy_forward m d s n = (\<lambda>x. if unat (x - d) < n then m (s + (x - d)) else m x)"
  using assms
proof (induction n arbitrary: m d s)
  case 0
  then show ?case by simp
next
  case (Suc n)
  have s1: "unat (s + 1) = unat s + 1" and d1: "unat (d + 1) = unat d + 1"
    using Suc.prems unat_add_offset [of s 1] unat_add_offset [of d 1] by simp_all
  have IH: "copy_forward (m(d := m s)) (d + 1) (s + 1) n =
      (\<lambda>x. if unat (x - (d + 1)) < n then (m(d := m s)) (s + 1 + (x - (d + 1)))
           else (m(d := m s)) x)"
    by (rule Suc.IH) (use Suc.prems s1 d1 in auto)
  show ?case
  proof
    fix x
    show "copy_forward m d s (Suc n) x = (if unat (x - d) < Suc n then m (s + (x - d)) else m x)"
    proof (cases "x = d")
      case True
      have "unat (d - (d + 1)) = 2 ^ 64 - 1"
        by (simp add: unsigned_minus_1_eq_mask mask_eq_exp_minus_1)
      moreover have "n < 2 ^ 64 - 1" using Suc.prems(2) by simp
      ultimately show ?thesis using True by (simp add: IH)
    next
      case False
      let ?k = "unat (x - d)"
      have k: "Suc (unat (x - (d + 1))) = ?k" using False by (rule unat_offset_Suc)
      have a: "s + 1 + (x - (d + 1)) = s + (x - d)" by simp
      have "s + (x - d) \<noteq> d" if "?k < Suc n"
      proof
        assume "s + (x - d) = d"
        moreover have "unat (s + word_of_nat ?k) = unat s + ?k"
          using that Suc.prems(1) by (intro unat_add_offset) simp
        ultimately have "unat d = unat s + ?k" by (metis addr_at_offset add_diff_cancel_left')
        with Suc.prems(3) k that show False by linarith
      qed
      then show ?thesis using False k by (auto simp: IH a)
    qed
  qed
qed

lemma copy_backward_eq:
  assumes "unat s + n < 2 ^ 64" and "unat d + n < 2 ^ 64"
    and "unat s \<le> unat d \<or> unat d + n \<le> unat s"
  shows "copy_backward m (d + word_of_nat n) (s + word_of_nat n) n =
    (\<lambda>x. if unat (x - d) < n then m (s + (x - d)) else m x)"
  using assms
proof (induction n arbitrary: m)
  case 0
  then show ?case by simp
next
  case (Suc n)
  define m' where "m' = m(d + word_of_nat n := m (s + word_of_nat n))"
  have pred: "d + word_of_nat (Suc n) - 1 = d + word_of_nat n"
    "s + word_of_nat (Suc n) - 1 = s + word_of_nat n" by simp_all
  have IH: "copy_backward m' (d + word_of_nat n) (s + word_of_nat n) n =
      (\<lambda>x. if unat (x - d) < n then m' (s + (x - d)) else m' x)"
    by (rule Suc.IH) (use Suc.prems in auto)
  have n64: "n < 2 ^ 64" using Suc.prems by simp
  show ?case
  proof
    fix x
    let ?k = "unat (x - d)"
    have last: "x = d + word_of_nat n \<longleftrightarrow> ?k = n" using n64 by (rule addr_offset)
    have "m' (s + (x - d)) = m (s + (x - d))" if "?k < n"
    proof -
      have "unat (s + word_of_nat ?k) = unat s + ?k"
        using that Suc.prems(1) by (intro unat_add_offset) simp
      moreover have "unat (d + word_of_nat n) = unat d + n"
        using Suc.prems(2) by (intro unat_add_offset) simp
      ultimately have "unat (s + (x - d)) \<noteq> unat (d + word_of_nat n)"
        using that Suc.prems(3) by auto
      then have "s + (x - d) \<noteq> d + word_of_nat n" by metis
      then show ?thesis by (simp add: m'_def)
    qed
    moreover have "m' x = (if ?k = n then m (s + (x - d)) else m x)"
      using last by (auto simp: m'_def)
    ultimately show "copy_backward m (d + word_of_nat (Suc n)) (s + word_of_nat (Suc n)) (Suc n) x =
        (if ?k < Suc n then m (s + (x - d)) else m x)"
      by (auto simp: pred IH [unfolded m'_def] m'_def simp del: of_nat_Suc)
  qed
qed

lemma write_read_mem_eq:
  "write_mem m dst (read_mem m src n) = (\<lambda>x. if unat (x - dst) < n then m (src + (x - dst)) else m x)"
  by (auto simp: write_mem_def nth_read_mem)

lemma memmove_eq:
  assumes "unat src + n < 2 ^ 64" and "unat dst + n < 2 ^ 64"
  shows "memmove m dst src n = write_mem m dst (read_mem m src n)"
proof -
  have "src + word_of_nat n > dst \<longleftrightarrow> unat dst < unat src + n"
    using assms(1) by (simp add: word_less_nat_alt unat_add_offset)
  then show ?thesis
    using assms
    by (auto simp: memmove_def write_read_mem_eq copy_forward_eq copy_backward_eq word_less_nat_alt)
qed

section \<open>String routines (kernel/string.c)\<close>

definition cstr :: "bytes \<Rightarrow> bytes" where
  "cstr p = takeWhile (\<lambda>c. c \<noteq> 0) p"

fun memcmp :: "bytes \<Rightarrow> bytes \<Rightarrow> nat \<Rightarrow> int option" where
  "memcmp s1 s2 0 = Some 0"
| "memcmp (a # s1) (b # s2) (Suc n) =
     (if a \<noteq> b then Some (uint a - uint b) else memcmp s1 s2 n)"
| "memcmp _ _ (Suc n) = None"

fun strncmp :: "bytes \<Rightarrow> bytes \<Rightarrow> nat \<Rightarrow> int option" where
  "strncmp p q 0 = Some 0"
| "strncmp (a # p) (b # q) (Suc n) =
     (if a \<noteq> 0 \<and> a = b then strncmp p q n else Some (uint a - uint b))"
| "strncmp _ _ (Suc n) = None"

text \<open>
  The bytes \<open>strncpy\<close> stores: the first loop copies up to and including the
  NUL, the second pads with NULs; together exactly \<open>n\<close> bytes.
\<close>

fun strncpy_bytes :: "bytes \<Rightarrow> nat \<Rightarrow> bytes option" where
  "strncpy_bytes t 0 = Some []"
| "strncpy_bytes (c # t) (Suc n) =
     (if c = 0 then Some (c # replicate n 0) else map_option (Cons c) (strncpy_bytes t n))"
| "strncpy_bytes [] (Suc n) = None"

definition store_bytes :: "bytes \<Rightarrow> bytes option \<Rightarrow> bytes option" where
  "store_bytes s w = (case w of None \<Rightarrow> None
     | Some bs \<Rightarrow> if length bs \<le> length s then Some (bs @ drop (length bs) s) else None)"

definition strncpy :: "bytes \<Rightarrow> bytes \<Rightarrow> int \<Rightarrow> bytes option" where
  "strncpy s t n = store_bytes s (strncpy_bytes t (nat n))"

text \<open>
  \<open>while(--n > 0 && (*s++ = *t++) != 0); *s = 0;\<close>: when the loop stops at a
  copied NUL, \<open>s\<close> is already past it and a second NUL is stored.
\<close>

fun safestrcpy_bytes :: "bytes \<Rightarrow> nat \<Rightarrow> bytes option" where
  "safestrcpy_bytes t 0 = Some []"
| "safestrcpy_bytes t (Suc 0) = Some [0]"
| "safestrcpy_bytes (c # t) (Suc (Suc n)) =
     (if c = 0 then Some [c, 0] else map_option (Cons c) (safestrcpy_bytes t (Suc n)))"
| "safestrcpy_bytes [] (Suc (Suc n)) = None"

definition safestrcpy :: "bytes \<Rightarrow> bytes \<Rightarrow> int \<Rightarrow> bytes option" where
  "safestrcpy s t n = (if n \<le> 0 then Some s else store_bytes s (safestrcpy_bytes t (nat n)))"

fun strlen :: "bytes \<Rightarrow> nat option" where
  "strlen [] = None"
| "strlen (c # s) = (if c = 0 then Some 0 else map_option Suc (strlen s))"

section \<open>The user library (user/ulib.c, user/string.c)\<close>

fun strcpy_bytes :: "bytes \<Rightarrow> bytes option" where
  "strcpy_bytes [] = None"
| "strcpy_bytes (c # t) = (if c = 0 then Some [c] else map_option (Cons c) (strcpy_bytes t))"

definition strcpy :: "bytes \<Rightarrow> bytes \<Rightarrow> bytes option" where
  "strcpy s t = store_bytes s (strcpy_bytes t)"

fun strcmp :: "bytes \<Rightarrow> bytes \<Rightarrow> int option" where
  "strcmp (a # p) (b # q) =
     (if a \<noteq> 0 \<and> a = b then strcmp p q else Some (uint a - uint b))"
| "strcmp _ _ = None"

text \<open>\<open>Some None\<close> is the null result, \<open>Some (Some i)\<close> the pointer \<open>s + i\<close>.\<close>

fun strchr :: "bytes \<Rightarrow> u8 \<Rightarrow> nat option option" where
  "strchr [] c = None"
| "strchr (a # s) c =
     (if a = 0 then Some None else if a = c then Some (Some 0)
      else map_option (map_option Suc) (strchr s c))"

text \<open>\<open>n = n*10 + *s++ - '0'\<close> on a 32-bit \<open>int\<close>.\<close>

fun atoi_loop :: "u32 \<Rightarrow> bytes \<Rightarrow> u32 option" where
  "atoi_loop n [] = None"
| "atoi_loop n (c # s) =
     (if 48 \<le> c \<and> c \<le> 57 then atoi_loop (n * 10 + ucast c - 48) s else Some n)"

definition atoi :: "bytes \<Rightarrow> int option" where
  "atoi s = map_option sint (atoi_loop 0 s)"

text \<open>
  \<open>gets\<close>: \<open>inp\<close> is what successive one-byte \<open>read\<close>s of descriptor 0 will
  return before end of file; the result is the buffer contents and the input left.
\<close>

fun gets_loop :: "bytes \<Rightarrow> nat \<Rightarrow> nat \<Rightarrow> bytes \<times> bytes" where
  "gets_loop [] i mx = ([0], [])"
| "gets_loop (c # inp) i mx =
     (if i + 1 < mx
      then if c = 10 \<or> c = 13 then ([c, 0], inp)
           else (let (buf, rest) = gets_loop inp (i + 1) mx in (c # buf, rest))
      else ([0], c # inp))"

definition gets :: "bytes \<Rightarrow> nat \<Rightarrow> bytes \<times> bytes" where
  "gets inp mx = gets_loop inp 0 mx"

definition u_memset :: "memory \<Rightarrow> u64 \<Rightarrow> u8 \<Rightarrow> nat \<Rightarrow> memory" where
  "u_memset m dst c n = memset_loop m dst c 0 n"

definition u_memmove :: "memory \<Rightarrow> u64 \<Rightarrow> u64 \<Rightarrow> int \<Rightarrow> memory" where
  "u_memmove m vdst vsrc n =
     (if vsrc > vdst then copy_forward m vdst vsrc (nat n)
      else copy_backward m (vdst + word_of_int n) (vsrc + word_of_int n) (nat n))"

fun u_memcmp :: "bytes \<Rightarrow> bytes \<Rightarrow> nat \<Rightarrow> int option" where
  "u_memcmp p1 p2 0 = Some 0"
| "u_memcmp (a # p1) (b # p2) (Suc n) =
     (if a \<noteq> b then Some (uint a - uint b) else u_memcmp p1 p2 n)"
| "u_memcmp _ _ (Suc n) = None"

definition u_memcpy :: "memory \<Rightarrow> u64 \<Rightarrow> u64 \<Rightarrow> nat \<Rightarrow> memory" where
  "u_memcpy m dst src n = u_memmove m dst src (int n)"

fun u_strlen :: "bytes \<Rightarrow> nat option" where
  "u_strlen [] = None"
| "u_strlen (c # s) = (if c = 0 then Some 0 else map_option Suc (u_strlen s))"

fun u_strncmp :: "bytes \<Rightarrow> bytes \<Rightarrow> nat \<Rightarrow> int option" where
  "u_strncmp p q 0 = Some 0"
| "u_strncmp (a # p) (b # q) (Suc n) =
     (if a \<noteq> 0 \<and> a = b then u_strncmp p q n else Some (uint a - uint b))"
| "u_strncmp _ _ (Suc n) = None"

fun u_strncpy_bytes :: "bytes \<Rightarrow> nat \<Rightarrow> bytes option" where
  "u_strncpy_bytes src 0 = Some []"
| "u_strncpy_bytes (c # src) (Suc n) =
     (if c \<noteq> 0 then map_option (Cons c) (u_strncpy_bytes src n)
      else map_option (Cons 0) (u_strncpy_bytes (c # src) n))"
| "u_strncpy_bytes [] (Suc n) = None"

definition u_strncpy :: "bytes \<Rightarrow> bytes \<Rightarrow> int \<Rightarrow> bytes option" where
  "u_strncpy dst src n = store_bytes dst (u_strncpy_bytes src (nat n))"

section \<open>Properties\<close>

lemma cstr_simps [simp]:
  "cstr [] = []" "cstr (c # s) = (if c = 0 then [] else c # cstr s)"
  by (simp_all add: cstr_def)

lemma cstr_no_nul: "0 \<notin> set (cstr p)"
  by (induction p) auto

lemma strncmp_spec:
  assumes "0 \<in> set p \<or> n \<le> length p" and "0 \<in> set q \<or> n \<le> length q"
  shows "\<exists>r. strncmp p q n = Some r \<and> (r = 0 \<longleftrightarrow> take n (cstr p) = take n (cstr q))"
  using assms by (induction p q n rule: strncmp.induct) (auto simp: uint_0_iff simp flip: word_uint_eq_iff)

lemma strlen_cstr: "0 \<in> set s \<Longrightarrow> strlen s = Some (length (cstr s))"
  by (induction s) auto

lemma strncpy_bytes_eq:
  "0 \<in> set t \<or> n \<le> length t \<Longrightarrow>
   strncpy_bytes t n = Some (take n (cstr t) @ replicate (n - length (cstr t)) 0)"
  by (induction t n rule: strncpy_bytes.induct) auto

lemma u_strncpy_bytes_nul: "u_strncpy_bytes (0 # src) n = Some (replicate n 0)"
  by (induction n) auto

lemma u_strncpy_bytes_eq: "u_strncpy_bytes src n = strncpy_bytes src n"
  by (induction src n rule: strncpy_bytes.induct) (auto simp: u_strncpy_bytes_nul)

lemma safestrcpy_bytes_spec:
  assumes "0 \<in> set t \<or> n \<le> length t"
  shows "\<exists>w. safestrcpy_bytes t (Suc n) = Some w \<and> length w \<le> Suc n
    \<and> 0 \<in> set w \<and> cstr w = take n (cstr t)"
  using assms
proof (induction n arbitrary: t)
  case (Suc n)
  then show ?case by (cases t) fastforce+
qed simp

text \<open>C33: for buffers that do not run off the address space, \<open>memmove\<close> stores the
  bytes the source held before the call at the destination and changes nothing
  else, however the two buffers overlap.\<close>

theorem memmove_correct:
  assumes "unat src + n < 2 ^ 64" and "unat dst + n < 2 ^ 64"
  shows "read_mem (memmove m dst src n) dst n = read_mem m src n
    \<and> (\<forall>x. n \<le> unat (x - dst) \<longrightarrow> memmove m dst src n x = m x)"
  using assms read_write_mem [of "read_mem m src n" m dst]
  by (simp add: memmove_eq write_mem_outside)

theorem memmove_correct_witness:
  "read_mem (memmove (\<lambda>a. ucast a) 4098 4096 5) 4098 5 = [0, 1, 2, 3, 4]
    \<and> memmove (\<lambda>a. ucast a) 4098 4096 5 4097 = 1"
proof -
  have "read_mem (\<lambda>a. ucast a) 4096 5 = [0, 1, 2, 3, 4]"
    by (simp add: read_mem_def upt_rec)
  moreover have "(5::nat) \<le> unat (4097 - 4098 :: u64)"
    by (simp add: unsigned_minus_1_eq_mask mask_eq_exp_minus_1)
  ultimately show ?thesis
    using memmove_correct [of 4096 5 4098 "\<lambda>a. ucast a"] by auto
qed

text \<open>the user library's \<open>memmove\<close>, which picks the copy direction by comparing
  the pointers only, stores the same memory as the kernel's.\<close>

theorem u_memmove_equiv:
  assumes "unat src + n < 2 ^ 64" and "unat dst + n < 2 ^ 64"
  shows "u_memmove m dst src (int n) = memmove m dst src n"
  using assms
  by (auto simp: u_memmove_def memmove_eq write_read_mem_eq copy_forward_eq copy_backward_eq
      word_less_nat_alt not_less)

theorem u_memmove_equiv_witness:
  "u_memmove (\<lambda>a. ucast a) 4096 4098 5 = memmove (\<lambda>a. ucast a) 4096 4098 5"
  using u_memmove_equiv [of 4098 5 4096] by simp

text \<open>\<open>strncmp\<close> reads nothing beyond its arguments when each is NUL-terminated
  or at least \<open>n\<close> bytes long, and returns 0 exactly when the first \<open>n\<close> bytes of
  the two C strings agree; this is the comparison \<open>namecmp\<close> makes of directory
  entry names, which need not be terminated.\<close>

theorem strncmp_correct:
  assumes "0 \<in> set p \<or> n \<le> length p" and "0 \<in> set q \<or> n \<le> length q"
  shows "\<exists>r. strncmp p q n = Some r \<and> (r = 0 \<longleftrightarrow> take n (cstr p) = take n (cstr q))"
  using assms by (rule strncmp_spec)

theorem strncmp_correct_witness:
  "\<exists>r. strncmp [97, 98] [97, 98, 0] 2 = Some r \<and> (r = 0 \<longleftrightarrow> take 2 (cstr [97, 98]) = take 2 (cstr [97, 98, 0]))"
  by (rule strncmp_correct) simp_all

text \<open>\<open>safestrcpy\<close> into a buffer of at least \<open>n > 0\<close> bytes stays inside it, leaves it
  NUL-terminated, and stores the longest prefix of the source string that fits.\<close>

theorem safestrcpy_terminates:
  assumes "0 < n" and "n \<le> int (length s)" and "0 \<in> set t"
  shows "\<exists>s'. safestrcpy s t n = Some s' \<and> length s' = length s
    \<and> 0 \<in> set (take (nat n) s') \<and> cstr s' = take (nat n - 1) (cstr t)"
proof -
  from assms(1) obtain k where k: "nat n = Suc k" by (cases "nat n") auto
  obtain w where w: "safestrcpy_bytes t (Suc k) = Some w" "length w \<le> Suc k" "0 \<in> set w"
      "cstr w = take k (cstr t)"
    using safestrcpy_bytes_spec [of t k] assms(3) by auto
  have "length w \<le> length s" using w(2) k assms(2) by linarith
  moreover have "cstr (w @ z) = cstr w" for z
    using w(3) by (simp add: cstr_def takeWhile_append1)
  moreover have "take (Suc k) (w @ z) = w @ take (Suc k - length w) z" for z
    using w(2) by simp
  ultimately show ?thesis using assms(1) w k by (auto simp: safestrcpy_def store_bytes_def)
qed

theorem safestrcpy_terminates_witness:
  "\<exists>s'. safestrcpy (replicate 4 9) [105, 110, 105, 116, 0] 4 = Some s' \<and> length s' = 4
    \<and> 0 \<in> set (take 4 s') \<and> cstr s' = [105, 110, 105]"
  using safestrcpy_terminates [of 4 "replicate 4 9" "[105, 110, 105, 116, 0]"] by simp

end
