(* ===== verification/Riscv.thy ===== *)
theory Riscv
  imports Prelude
begin

text \<open>
  The address arithmetic of the kernel: the page, page-table-entry and Sv39 macros
  of \<open>kernel/riscv.h\<close> and the memory layout of \<open>kernel/memlayout.h\<close>, on 64-bit words.
\<close>

section \<open>Macros\<close>

definition PGSIZE :: u64 where [simp]: "PGSIZE = 4096"

definition PGROUNDUP :: "u64 \<Rightarrow> u64" where
  "PGROUNDUP sz = (sz + PGSIZE - 1) AND NOT (PGSIZE - 1)"

definition PGROUNDDOWN :: "u64 \<Rightarrow> u64" where
  "PGROUNDDOWN a = a AND NOT (PGSIZE - 1)"

definition PTE_V :: u64 where [simp]: "PTE_V = 1"
definition PTE_R :: u64 where [simp]: "PTE_R = 2"
definition PTE_W :: u64 where [simp]: "PTE_W = 4"
definition PTE_X :: u64 where [simp]: "PTE_X = 8"
definition PTE_U :: u64 where [simp]: "PTE_U = 16"

definition PA2PTE :: "u64 \<Rightarrow> u64" where
  "PA2PTE pa = push_bit 10 (drop_bit 12 pa)"

definition PTE2PA :: "u64 \<Rightarrow> u64" where
  "PTE2PA pte = push_bit 12 (drop_bit 10 pte)"

definition PTE_FLAGS :: "u64 \<Rightarrow> u64" where
  "PTE_FLAGS pte = pte AND 0x3FF"

definition PXSHIFT :: "nat \<Rightarrow> nat" where
  "PXSHIFT level = 12 + 9 * level"

definition PX :: "nat \<Rightarrow> u64 \<Rightarrow> u64" where
  "PX level va = drop_bit (PXSHIFT level) va AND 0x1FF"

definition MAXVA :: u64 where [simp]: "MAXVA = 2 ^ (9 + 9 + 9 + 12 - 1)"

definition MAKE_SATP :: "u64 \<Rightarrow> u64" where
  "MAKE_SATP pagetable = push_bit 60 8 OR drop_bit 12 pagetable"

definition UART0 :: u64 where [simp]: "UART0 = 0x10000000"
definition VIRTIO0 :: u64 where [simp]: "VIRTIO0 = 0x10001000"
definition PLIC :: u64 where [simp]: "PLIC = 0x0c000000"
definition KERNBASE :: u64 where [simp]: "KERNBASE = 0x80000000"
definition PHYSTOP :: u64 where [simp]: "PHYSTOP = KERNBASE + 128 * 1024 * 1024"
definition TRAMPOLINE :: u64 where [simp]: "TRAMPOLINE = MAXVA - PGSIZE"
definition TRAPFRAME :: u64 where [simp]: "TRAPFRAME = TRAMPOLINE - PGSIZE"

definition KSTACK :: "nat \<Rightarrow> u64" where
  "KSTACK p = TRAMPOLINE - (word_of_nat p + 1) * 2 * PGSIZE"

section \<open>Rounding\<close>

lemma unat_lt_u64: "unat (a :: u64) < 2 ^ 64"
  using unsigned_less [of a] by simp

lemma and_not_4095: "(a :: u64) AND - 4096 = push_bit 12 (drop_bit 12 a)"
proof -
  have eq: "(- 4096 :: u64) = NOT (mask 12)" by (simp add: mask_eq_exp_minus_1)
  show ?thesis unfolding eq by (auto intro!: bit_eqI simp: bit_simps)
qed

lemma unat_page_part: "unat (push_bit 12 (drop_bit 12 a) :: u64) = unat a div 4096 * 4096"
proof -
  have "unat a div 4096 * 4096 \<le> unat a" by (rule div_times_less_eq_dividend)
  also have "\<dots> < 2 ^ 64" using unsigned_less [of a] by simp
  finally show ?thesis
    by (simp only: unsigned_push_bit_eq unsigned_drop_bit_eq)
      (simp add: push_bit_eq_mult drop_bit_eq_div take_bit_eq_mod)
qed

lemma unat_PGROUNDDOWN: "unat (PGROUNDDOWN a) = unat a div 4096 * 4096"
  by (simp add: PGROUNDDOWN_def and_not_4095 unat_page_part)

lemma unat_PGROUNDUP:
  assumes "unat sz + 4095 < 2 ^ 64"
  shows "unat (PGROUNDUP sz) = (unat sz + 4095) div 4096 * 4096"
proof -
  have "unat (sz + 4095) = unat sz + 4095"
    using assms by (simp add: unat_word_ariths)
  moreover have "sz + PGSIZE - 1 = sz + 4095" by simp
  ultimately show ?thesis
    by (simp add: PGROUNDUP_def and_not_4095 unat_page_part add.commute)
qed

text \<open>\<open>PGROUNDUP\<close> and \<open>PGROUNDDOWN\<close> give the least page boundary at or above, and the
  greatest at or below, their argument; \<open>PGROUNDUP\<close> does so for every size that is at
  least a page below the end of the address space (above that the addition wraps).\<close>

theorem page_rounding:
  assumes "unat sz + 4095 < 2 ^ 64"
  shows "4096 dvd unat (PGROUNDUP sz) \<and> unat sz \<le> unat (PGROUNDUP sz)
    \<and> unat (PGROUNDUP sz) < unat sz + 4096
    \<and> 4096 dvd unat (PGROUNDDOWN sz) \<and> unat (PGROUNDDOWN sz) \<le> unat sz
    \<and> unat sz < unat (PGROUNDDOWN sz) + 4096"
  using unat_PGROUNDUP [OF assms] by (simp add: unat_PGROUNDDOWN) linarith

theorem page_rounding_witness:
  "4096 dvd unat (PGROUNDUP 5000) \<and> unat (5000 :: u64) \<le> unat (PGROUNDUP 5000)
    \<and> unat (PGROUNDUP 5000) < unat (5000 :: u64) + 4096
    \<and> 4096 dvd unat (PGROUNDDOWN 5000) \<and> unat (PGROUNDDOWN 5000) \<le> unat (5000 :: u64)
    \<and> unat (5000 :: u64) < unat (PGROUNDDOWN 5000) + 4096"
  by (rule page_rounding) simp

section \<open>Page-table entries\<close>

lemma flag_bits:
  "x AND PTE_V \<noteq> 0 \<longleftrightarrow> bit x 0" "x AND PTE_R \<noteq> 0 \<longleftrightarrow> bit x 1" "x AND PTE_W \<noteq> 0 \<longleftrightarrow> bit x 2"
  "x AND PTE_X \<noteq> 0 \<longleftrightarrow> bit x 3" "x AND PTE_U \<noteq> 0 \<longleftrightarrow> bit x 4"
proof -
  have *: "x AND 2 ^ n \<noteq> 0 \<longleftrightarrow> bit x n" if "n < 64" for n
    using that by (simp add: and_exp_eq_0_iff_not_bit)
  show "x AND PTE_V \<noteq> 0 \<longleftrightarrow> bit x 0" using * [of 0] by simp
  show "x AND PTE_R \<noteq> 0 \<longleftrightarrow> bit x 1" using * [of 1] by simp
  show "x AND PTE_W \<noteq> 0 \<longleftrightarrow> bit x 2" using * [of 2] by simp
  show "x AND PTE_X \<noteq> 0 \<longleftrightarrow> bit x 3" using * [of 3] by simp
  show "x AND PTE_U \<noteq> 0 \<longleftrightarrow> bit x 4" using * [of 4] by simp
qed

lemma bit_beyond: "unat (x :: u64) < 2 ^ k \<Longrightarrow> k \<le> n \<Longrightarrow> \<not> bit x n"
proof -
  assume "unat x < 2 ^ k" "k \<le> n"
  then have "take_bit k (unat x) = unat x" by (simp add: take_bit_nat_eq_self_iff)
  then have "\<not> bit (unat x) n" using \<open>k \<le> n\<close> by (metis bit_take_bit_iff not_less)
  then show ?thesis by (simp add: bit_unsigned_iff)
qed


definition page_aligned :: "u64 \<Rightarrow> bool" where
  "page_aligned pa \<longleftrightarrow> unat pa mod 4096 = 0"

lemma page_aligned_bits: "page_aligned pa \<Longrightarrow> push_bit 12 (drop_bit 12 pa) = pa"
  by (rule word_unat_eq_iff [THEN iffD2])
    (simp only: unat_page_part page_aligned_def, metis add_cancel_right_right div_mult_mod_eq)

lemma PTE2PA_PA2PTE:
  assumes "page_aligned pa" and "unat pa < 2 ^ 56" and "unat f < 2 ^ 10"
  shows "PTE2PA (PA2PTE pa OR f) = pa"
proof -
  have hi: "\<not> bit pa n" if "56 \<le> n" for n using assms(2) that by (rule bit_beyond)
  have lo: "\<not> bit f n" if "10 \<le> n" for n using assms(3) that by (rule bit_beyond)
  have "PTE2PA (PA2PTE pa OR f) = push_bit 12 (drop_bit 12 pa)"
    by (rule bit_eqI) (auto simp: PTE2PA_def PA2PTE_def bit_simps hi lo)
  then show ?thesis by (simp add: page_aligned_bits assms(1))
qed

lemma PTE_FLAGS_PA2PTE:
  assumes "unat f < 2 ^ 10"
  shows "PTE_FLAGS (PA2PTE pa OR f) = f"
proof -
  have m: "(0x3FF :: u64) = mask 10" by (simp add: mask_eq_exp_minus_1)
  have lo: "bit f n \<Longrightarrow> n < 10" for n using assms bit_beyond [of f 10 n] by (meson not_less)
  show ?thesis unfolding PTE_FLAGS_def m
    by (intro bit_eqI) (auto simp: PA2PTE_def bit_simps dest: lo)
qed

lemma bit_PA2PTE_flag: "n < 10 \<Longrightarrow> bit (PA2PTE pa OR f) n = bit f n"
  by (auto simp: PA2PTE_def bit_simps)

lemma page_aligned_PTE2PA: "page_aligned (PTE2PA pte)"
proof -
  have "push_bit 12 (drop_bit 12 (PTE2PA pte)) = PTE2PA pte"
    by (rule bit_eqI) (auto simp: PTE2PA_def bit_simps)
  then have "unat (PTE2PA pte) = unat (PTE2PA pte) div 4096 * 4096"
    by (metis unat_page_part)
  then show ?thesis by (simp add: page_aligned_def) (metis mod_mult_self2_is_0)
qed

section \<open>Sv39 indices\<close>

lemma unat_PX: "unat (PX l va) = unat va div 2 ^ (12 + 9 * l) mod 512"
proof -
  have m: "(0x1FF :: u64) = mask 9" by (simp add: mask_eq_exp_minus_1)
  show ?thesis unfolding PX_def PXSHIFT_def m
    using unat_lt_u64 [of va]
    by (simp only: unsigned_take_bit_eq unsigned_drop_bit_eq flip: take_bit_eq_mask)
      (simp add: drop_bit_eq_div take_bit_eq_mod)
qed

lemma unat_PX_less: "unat (PX l va) < 512"
  by (simp add: unat_PX)

lemma unat_MAXVA: "va < MAXVA \<longleftrightarrow> unat va < 2 ^ 38"
  by (simp add: word_less_nat_alt)

lemma split_base_512:
  fixes x :: nat
  assumes "x < 2 ^ 38"
  shows "x = (x div 2 ^ 30 mod 512) * 2 ^ 30 + (x div 2 ^ 21 mod 512) * 2 ^ 21
    + (x div 2 ^ 12 mod 512) * 2 ^ 12 + x mod 2 ^ 12"
proof -
  define a b where "a = x div 2 ^ 12" and "b = a div 512"
  have 21: "x div 2 ^ 21 = b" and 30: "x div 2 ^ 30 = b div 512"
    unfolding a_def b_def by (simp_all flip: div_mult2_eq)
  have "b div 512 < 512" using assms by (simp add: a_def b_def)
  then have top: "b div 512 mod 512 = b div 512" by simp
  have "x = a * 2 ^ 12 + x mod 2 ^ 12" unfolding a_def by (rule div_mult_mod_eq [symmetric])
  also have "a = b * 512 + a mod 512" unfolding b_def by (rule div_mult_mod_eq [symmetric])
  also have "b = b div 512 * 512 + b mod 512" by (rule div_mult_mod_eq [symmetric])
  finally have "x = ((b div 512 * 512 + b mod 512) * 512 + a mod 512) * 2 ^ 12 + x mod 2 ^ 12" .
  also have "\<dots> = b div 512 * 2 ^ 30 + b mod 512 * 2 ^ 21 + a mod 512 * 2 ^ 12 + x mod 2 ^ 12"
    by (simp only: distrib_right mult.assoc) simp
  finally show ?thesis unfolding 21 30 top a_def .
qed

lemma sv39_split:
  assumes "va < MAXVA"
  shows "unat va = unat (PX 2 va) * 2 ^ 30 + unat (PX 1 va) * 2 ^ 21 + unat (PX 0 va) * 2 ^ 12
    + unat va mod 2 ^ 12"
proof -
  have "unat (PX 2 va) = unat va div 2 ^ 30 mod 512" "unat (PX 1 va) = unat va div 2 ^ 21 mod 512"
    "unat (PX 0 va) = unat va div 2 ^ 12 mod 512"
    by (simp_all add: unat_PX)
  moreover have "unat va < 2 ^ 38" using assms by (simp only: unat_MAXVA)
  ultimately show ?thesis by (metis split_base_512)
qed

lemma sv39_same_page:
  assumes "va < MAXVA" and "va' < MAXVA"
    and "PX 2 va = PX 2 va'" and "PX 1 va = PX 1 va'" and "PX 0 va = PX 0 va'"
  shows "PGROUNDDOWN va = PGROUNDDOWN va'"
proof -
  have "unat va - unat va mod 2 ^ 12 = unat va' - unat va' mod 2 ^ 12"
    using sv39_split [OF assms(1)] sv39_split [OF assms(2)] assms(3-5) by (metis add_diff_cancel_right')
  then have "unat va div 2 ^ 12 * 2 ^ 12 = unat va' div 2 ^ 12 * 2 ^ 12"
    by (simp add: minus_mod_eq_div_mult)
  then show ?thesis by (simp add: word_unat_eq_iff unat_PGROUNDDOWN)
qed

lemma PX_cong: "l \<le> 2 \<Longrightarrow> PGROUNDDOWN va = PGROUNDDOWN va' \<Longrightarrow> PX l va = PX l va'"
proof -
  assume "PGROUNDDOWN va = PGROUNDDOWN va'"
  then have "unat va div 4096 = unat va' div 4096"
    by (simp add: word_unat_eq_iff unat_PGROUNDDOWN)
  then have "unat va div 4096 div 2 ^ (9 * l) = unat va' div 4096 div 2 ^ (9 * l)" by simp
  then have "unat va div 2 ^ (12 + 9 * l) = unat va' div 2 ^ (12 + 9 * l)"
    by (simp add: power_add flip: div_mult2_eq)
  then show ?thesis by (simp add: word_unat_eq_iff unat_PX)
qed

text \<open>below \<open>MAXVA\<close> the three 9-bit indices and the page offset determine a virtual
  address, so two addresses with the same indices lie on the same page.\<close>

theorem sv39_indices_injective:
  assumes "va < MAXVA" and "va' < MAXVA"
    and "PX 2 va = PX 2 va'" and "PX 1 va = PX 1 va'" and "PX 0 va = PX 0 va'"
  shows "PGROUNDDOWN va = PGROUNDDOWN va'"
  using assms by (rule sv39_same_page)

theorem sv39_indices_injective_witness: "PGROUNDDOWN 0x1234 = PGROUNDDOWN 0x1FFF"
  by (rule sv39_indices_injective) (simp_all add: PX_def PXSHIFT_def)

text \<open>C36: a page-table entry gives back the page-aligned physical address and the ten flag
  bits it was built from, for every physical address RISC-V can name.\<close>

theorem pte_roundtrip:
  assumes "page_aligned pa" and "unat pa < 2 ^ 56" and "unat flags < 2 ^ 10"
  shows "PTE2PA (PA2PTE pa OR flags) = pa \<and> PTE_FLAGS (PA2PTE pa OR flags) = flags"
  using assms by (simp add: PTE2PA_PA2PTE PTE_FLAGS_PA2PTE)

theorem pte_roundtrip_witness:
  "PTE2PA (PA2PTE 0x87654000 OR 0x17) = 0x87654000 \<and> PTE_FLAGS (PA2PTE 0x87654000 OR 0x17) = 0x17"
  by (rule pte_roundtrip) (simp_all add: page_aligned_def)

end
