(* ===== verification/Kalloc.thy ===== *)
theory Kalloc
  imports Kstring Riscv
begin

text \<open>
  The physical page allocator of \<open>kernel/kalloc.c\<close>: a free list threaded through
  the first eight bytes of the free pages themselves, on the byte-addressed physical
  memory. The linker symbol \<open>end\<close> is the field \<open>kend\<close> of the state. Each function is
  one critical section of \<open>kmem.lock\<close>.
\<close>

section \<open>64-bit loads and stores\<close>

definition load64 :: "memory \<Rightarrow> u64 \<Rightarrow> u64" where
  "load64 m a = word_of_nat (le_nat (read_mem m a 8))"

definition store64 :: "memory \<Rightarrow> u64 \<Rightarrow> u64 \<Rightarrow> memory" where
  "store64 m a v = write_mem m a (le_bytes 8 (unat v))"

lemma aligned_range_iff:
  fixes x a :: u64
  assumes "2 ^ k dvd unat a" and "k \<le> 64"
  shows "unat (x - a) < 2 ^ k \<longleftrightarrow> unat x div 2 ^ k = unat a div 2 ^ k"
proof
  obtain q where q: "unat a = 2 ^ k * q" using assms(1) by (auto elim: dvdE)
  have split: "(2::nat) ^ 64 = 2 ^ k * 2 ^ (64 - k)" using assms(2) by (simp flip: power_add)
  assume lt: "unat (x - a) < 2 ^ k"
  have "2 ^ k * q < 2 ^ k * (2 :: nat) ^ (64 - k)"
    using unat_u64_less [of a] unfolding q split .
  then have "Suc q \<le> 2 ^ (64 - k)" by simp
  then have "2 ^ k * Suc q \<le> (2::nat) ^ 64" unfolding split by (rule mult_le_mono2)
  with lt have "unat a + unat (x - a) < 2 ^ 64" unfolding q by simp
  then have "unat (a + word_of_nat (unat (x - a))) = unat a + unat (x - a)" by (rule unat_add_offset)
  then have "unat x = 2 ^ k * q + unat (x - a)" unfolding addr_at_offset q .
  with lt q show "unat x div 2 ^ k = unat a div 2 ^ k" by simp
next
  assume eq: "unat x div 2 ^ k = unat a div 2 ^ k"
  have "unat x = unat a + unat x mod 2 ^ k"
    using assms(1) eq by (metis dvd_div_mult_self div_mult_mod_eq)
  moreover from this have "unat (a + word_of_nat (unat x mod 2 ^ k)) = unat a + unat x mod 2 ^ k"
    using unat_u64_less [of x] by (intro unat_add_offset) linarith
  ultimately have "x = a + word_of_nat (unat x mod 2 ^ k)"
    by (metis word_unat_eq_iff)
  then have "unat (x - a) = unat x mod 2 ^ k"
    using addr_offset [of "unat x mod 2 ^ k" x a] unat_u64_less [of x]
    by (metis mod_less_eq_dividend order_le_less_trans)
  then show "unat (x - a) < 2 ^ k" by simp
qed

definition aligned8 :: "u64 \<Rightarrow> bool" where
  "aligned8 a \<longleftrightarrow> 8 dvd unat a"

lemma word_range: "aligned8 a \<Longrightarrow> unat (x - a) < 8 \<longleftrightarrow> unat x div 8 = unat a div 8"
  using aligned_range_iff [of 3 a x] by (simp add: aligned8_def)

lemma page_range: "page_aligned p \<Longrightarrow> unat (x - p) < 4096 \<longleftrightarrow> PGROUNDDOWN x = p"
proof -
  assume "page_aligned p"
  then have "unat (x - p) < 4096 \<longleftrightarrow> unat x div 4096 = unat p div 4096"
    using aligned_range_iff [of 12 p x] by (simp add: page_aligned_def dvd_eq_mod_eq_0)
  also have "\<dots> \<longleftrightarrow> PGROUNDDOWN x = p"
    using \<open>page_aligned p\<close>
    by (auto simp: word_unat_eq_iff unat_PGROUNDDOWN page_aligned_def)
  finally show ?thesis .
qed

lemma read_mem_cong: "(\<And>i. i < n \<Longrightarrow> m (a + word_of_nat i) = m' (a + word_of_nat i)) \<Longrightarrow>
    read_mem m a n = read_mem m' a n"
  by (simp add: read_mem_def)

lemma load64_cong:
  assumes "\<And>x. unat (x - a) < 8 \<Longrightarrow> m x = m' x"
  shows "load64 m a = load64 m' a"
proof -
  have "read_mem m a 8 = read_mem m' a 8"
    by (rule read_mem_cong) (simp add: assms unat_of_nat_u64)
  then show ?thesis by (simp add: load64_def)
qed

lemma load64_store64_same [simp]: "load64 (store64 m a v) a = v"
proof -
  have "read_mem (store64 m a v) a 8 = le_bytes 8 (unat v)"
    using read_write_mem [of "le_bytes 8 (unat v)" m a] by (simp add: store64_def)
  moreover have "unat v mod 256 ^ 8 = unat v" using unat_u64_less [of v] by simp
  ultimately show ?thesis by (simp add: load64_def le_nat_le_bytes)
qed

lemma store64_outside: "8 \<le> unat (x - a) \<Longrightarrow> store64 m a v x = m x"
  by (simp add: store64_def write_mem_outside)

lemma load64_store64_other:
  assumes "aligned8 a" "aligned8 b" "a \<noteq> b"
  shows "load64 (store64 m a v) b = load64 m b"
proof (rule load64_cong)
  fix x
  assume "unat (x - b) < 8"
  then have "unat x div 8 = unat b div 8" using assms(2) by (simp add: word_range)
  moreover have "unat a div 8 \<noteq> unat b div 8"
    using assms by (metis aligned8_def dvd_div_mult_self word_unat_eq_iff)
  ultimately have "\<not> unat (x - a) < 8" using assms(1) by (simp add: word_range)
  then show "store64 m a v x = m x" by (simp add: store64_outside)
qed

lemma page_of_word:
  assumes "aligned8 a" "unat (x - a) < 8"
  shows "PGROUNDDOWN x = PGROUNDDOWN a"
proof -
  have "unat x div 8 = unat a div 8" using assms by (simp add: word_range)
  then have "unat x div 8 div 512 = unat a div 8 div 512" by simp
  then show ?thesis by (simp add: word_unat_eq_iff unat_PGROUNDDOWN flip: div_mult2_eq)
qed

lemma memset_page: "memset m p c 4096 = (\<lambda>x. if unat (x - p) < 4096 then c else m x)"
  by (auto simp: memset_eq write_mem_def)

lemma load64_memset_other:
  assumes "aligned8 a" "page_aligned p" "PGROUNDDOWN a \<noteq> p"
  shows "load64 (memset m p c 4096) a = load64 m a"
  using assms by (intro load64_cong) (auto simp: memset_page page_range dest: page_of_word)

lemma load64_memset_zero:
  assumes "aligned8 a" "page_aligned p" "PGROUNDDOWN a = p"
  shows "load64 (memset m p 0 4096) a = 0"
proof -
  have "load64 (memset m p 0 4096) a = load64 (\<lambda>_. 0) a"
    using assms by (intro load64_cong) (auto simp: memset_page page_range dest: page_of_word)
  also have "read_mem (\<lambda>_. 0) a 8 = replicate 8 0"
    by (intro nth_equalityI) (auto simp: nth_read_mem)
  then have "load64 (\<lambda>_. 0) a = 0" by (simp only: load64_def le_nat_replicate_0) simp
  finally show ?thesis .
qed

lemma page_aligned_self: "page_aligned p \<Longrightarrow> PGROUNDDOWN p = p"
  using page_range [of p p] by simp

lemma page_aligned_aligned8:
  assumes "page_aligned p"
  shows "aligned8 p"
proof -
  have "(8 :: nat) dvd 4096" by (rule dvdI [of _ _ 512]) simp
  with assms show ?thesis
    unfolding page_aligned_def aligned8_def mod_eq_0_iff_dvd by (rule dvd_trans [rotated])
qed

section \<open>The allocator\<close>

record kmem =
  mem :: memory
  freelist :: u64
  kend :: u64

definition kfree :: "u64 \<Rightarrow> ('x kmem_scheme, unit) km" where
  "kfree pa = bindK (getK kend) (\<lambda>e.
     if pa mod PGSIZE \<noteq> 0 \<or> pa < e \<or> pa \<ge> PHYSTOP then panicK ''kfree''
     else thenK (modifyK (\<lambda>s. s\<lparr>mem := memset (mem s) pa 1 (unat PGSIZE)\<rparr>))
            (modifyK (\<lambda>s. s\<lparr>mem := store64 (mem s) pa (freelist s), freelist := pa\<rparr>)))"

definition kalloc :: "('x kmem_scheme, u64) km" where
  "kalloc = bindK (getK freelist) (\<lambda>r.
     if r \<noteq> 0
     then thenK (modifyK (\<lambda>s. s\<lparr>freelist := load64 (mem s) r\<rparr>))
            (thenK (modifyK (\<lambda>s. s\<lparr>mem := memset (mem s) r 5 (unat PGSIZE)\<rparr>)) (returnK r))
     else returnK r)"

text \<open>\<open>for(; p + PGSIZE <= pa_end; p += PGSIZE) kfree(p);\<close>\<close>

lemma kfree_returns_below: "kfree pa s = Inr (x, t) \<Longrightarrow> pa < PHYSTOP"
  by (auto simp: kfree_def kdefs not_le split: if_splits)

function freerange_loop :: "u64 \<Rightarrow> u64 \<Rightarrow> ('x kmem_scheme, unit) km" where
  "freerange_loop p pa_end s =
     (if p + PGSIZE \<le> pa_end then bindK (kfree p) (\<lambda>_. freerange_loop (p + PGSIZE) pa_end) s
      else returnK () s)"
  by pat_completeness auto
termination
proof (relation "measure (\<lambda>(p, pa_end, s). unat PHYSTOP - unat p)", goal_cases)
  case (2 p pa_end s x t)
  then have "unat p < unat PHYSTOP" using kfree_returns_below [of p s] by (simp only: word_less_nat_alt)
  moreover from this have "unat (p + PGSIZE) = unat p + 4096"
    by (simp add: unat_word_ariths)
  ultimately show ?case by simp
qed simp

declare freerange_loop.simps [simp del]

definition freerange :: "u64 \<Rightarrow> u64 \<Rightarrow> ('x kmem_scheme, unit) km" where
  "freerange pa_start pa_end = freerange_loop (PGROUNDUP pa_start) pa_end"

definition kinit :: "('x kmem_scheme, unit) km" where
  "kinit = bindK (getK kend) (\<lambda>e. freerange e PHYSTOP)"


section \<open>The free list\<close>

text \<open>The pages reached from a pointer by following the \<open>next\<close> fields.\<close>

primrec run_list :: "memory \<Rightarrow> u64 \<Rightarrow> u64 list \<Rightarrow> bool" where
  "run_list m p [] \<longleftrightarrow> p = 0"
| "run_list m p (x # xs) \<longleftrightarrow> p = x \<and> p \<noteq> 0 \<and> run_list m (load64 m p) xs"

definition valid_page :: "'x kmem_scheme \<Rightarrow> u64 \<Rightarrow> bool" where
  "valid_page s pa \<longleftrightarrow> page_aligned pa \<and> kend s \<le> pa \<and> pa < PHYSTOP"

definition kmem_inv :: "'x kmem_scheme \<Rightarrow> u64 list \<Rightarrow> bool" where
  "kmem_inv s xs \<longleftrightarrow> run_list (mem s) (freelist s) xs \<and> distinct xs
     \<and> (\<forall>x \<in> set xs. valid_page s x) \<and> KERNBASE \<le> kend s"

definition same_outside :: "memory \<Rightarrow> memory \<Rightarrow> u64 \<Rightarrow> bool" where
  "same_outside m m' p \<longleftrightarrow> (\<forall>x. PGROUNDDOWN x \<noteq> p \<longrightarrow> m' x = m x)"

lemma run_list_unique: "run_list m p xs \<Longrightarrow> run_list m p ys \<Longrightarrow> xs = ys"
proof (induction xs arbitrary: p ys)
  case Nil
  then show ?case by (cases ys) auto
next
  case (Cons x xs)
  then show ?case by (cases ys) auto
qed

lemma run_list_cong:
  assumes "\<And>x. x \<in> set xs \<Longrightarrow> load64 m' x = load64 m x"
  shows "run_list m' p xs = run_list m p xs"
  using assms by (induction xs arbitrary: p) auto

lemma load64_same_outside:
  assumes "same_outside m m' p" "aligned8 a" "PGROUNDDOWN a \<noteq> p"
  shows "load64 m' a = load64 m a"
  using assms by (intro load64_cong) (auto simp: same_outside_def dest: page_of_word)

lemma run_list_same_outside:
  assumes "same_outside m m' p" "p \<notin> set xs" "\<And>x. x \<in> set xs \<Longrightarrow> page_aligned x"
  shows "run_list m' q xs = run_list m q xs"
  using assms
  by (intro run_list_cong load64_same_outside [of m m' p])
    (auto simp: page_aligned_aligned8 page_aligned_self)

lemma same_outside_memset: "page_aligned p \<Longrightarrow> same_outside m (memset m p c 4096) p"
  by (simp add: same_outside_def memset_page page_range)

lemma same_outside_store64:
  assumes "aligned8 a" and "PGROUNDDOWN a = p"
  shows "same_outside m (store64 m a v) p"
  unfolding same_outside_def
proof (intro allI impI)
  fix x
  assume "PGROUNDDOWN x \<noteq> p"
  then have "\<not> unat (x - a) < 8" using assms by (auto dest: page_of_word)
  then show "store64 m a v x = m x" by (simp add: store64_outside)
qed

lemma same_outside_trans:
  "same_outside m m' p \<Longrightarrow> same_outside m' m'' p \<Longrightarrow> same_outside m m'' p"
  by (simp add: same_outside_def)

lemma page_aligned_mod: "pa mod PGSIZE = 0 \<longleftrightarrow> page_aligned pa"
  by (simp add: page_aligned_def word_unat_eq_iff unat_mod_distrib)

lemma valid_page_nonzero: "valid_page s p \<Longrightarrow> KERNBASE \<le> kend s \<Longrightarrow> p \<noteq> 0"
  by (auto simp: valid_page_def)

lemma kfree_wp:
  assumes inv: "kmem_inv s xs" and pa: "valid_page s pa" and fresh: "pa \<notin> set xs"
  shows "wpK (kfree pa) (\<lambda>_ t. kmem_inv t (pa # xs) \<and> same_outside (mem s) (mem t) pa
    \<and> kend t = kend s) s"
proof -
  let ?m = "store64 (memset (mem s) pa 1 4096) pa (freelist s)"
  have al: "page_aligned pa" using pa by (simp add: valid_page_def)
  have so: "same_outside (mem s) ?m pa"
    using al by (intro same_outside_trans [OF same_outside_memset [OF al] same_outside_store64])
      (simp_all add: page_aligned_aligned8 page_aligned_self)
  have "run_list ?m (freelist s) xs"
    using inv fresh by (subst run_list_same_outside [OF so]) (auto simp: kmem_inv_def valid_page_def)
  moreover have "pa \<noteq> 0" using pa inv by (auto simp: kmem_inv_def dest: valid_page_nonzero)
  ultimately show ?thesis
    using inv pa fresh so
    by (auto simp: kfree_def wp kmem_inv_def valid_page_def page_aligned_mod not_le
        simp del: PGSIZE_def PHYSTOP_def KERNBASE_def) (simp_all)
qed

lemma kalloc_wp:
  assumes inv: "kmem_inv s xs"
  shows "wpK kalloc (\<lambda>r t. case xs of
      [] \<Rightarrow> r = 0 \<and> t = s
    | x # ys \<Rightarrow> r = x \<and> kmem_inv t ys \<and> same_outside (mem s) (mem t) x
        \<and> kend t = kend s) s"
proof (cases xs)
  case Nil
  then show ?thesis using inv by (simp add: kalloc_def wp kmem_inv_def)
next
  case (Cons x ys)
  have al: "page_aligned x" using inv Cons by (simp add: kmem_inv_def valid_page_def)
  let ?m = "memset (mem s) x 5 4096"
  have so: "same_outside (mem s) ?m x" using al by (rule same_outside_memset)
  have "run_list ?m (load64 (mem s) x) ys"
    using inv Cons by (subst run_list_same_outside [OF so]) (auto simp: kmem_inv_def valid_page_def)
  then show ?thesis using inv Cons so by (auto simp: kalloc_def wp kmem_inv_def valid_page_def)
qed


section \<open>The contract of a page allocator\<close>

text \<open>
  What the rest of the kernel relies on: the pages that can be handed out, and what
  allocating and freeing do to them. \<open>alloc_n\<close> is a client that takes \<open>n\<close> pages.
\<close>

fun alloc_n :: "('s, u64) km \<Rightarrow> nat \<Rightarrow> ('s, u64 list) km" where
  "alloc_n alloc 0 = returnK []"
| "alloc_n alloc (Suc n) =
     bindK alloc (\<lambda>p. bindK (alloc_n alloc n) (\<lambda>ps. returnK (p # ps)))"

locale page_allocator =
  fixes alloc :: "('s, u64) km"
    and dealloc :: "u64 \<Rightarrow> ('s, unit) km"
    and invar :: "'s \<Rightarrow> bool"
    and free :: "'s \<Rightarrow> u64 set"
    and page_ok :: "'s \<Rightarrow> u64 \<Rightarrow> bool"
  assumes alloc_some: "invar s \<Longrightarrow> free s \<noteq> {} \<Longrightarrow>
      wpK alloc (\<lambda>p t. invar t \<and> p \<noteq> 0 \<and> p \<in> free s \<and> free t = free s - {p}
        \<and> page_ok t = page_ok s) s"
    and alloc_none: "invar s \<Longrightarrow> free s = {} \<Longrightarrow> wpK alloc (\<lambda>p t. p = 0 \<and> t = s) s"
    and dealloc_ok: "invar s \<Longrightarrow> page_ok s p \<Longrightarrow> p \<notin> free s \<Longrightarrow>
      wpK (dealloc p) (\<lambda>_ t. invar t \<and> free t = insert p (free s) \<and> page_ok t = page_ok s) s"
    and free_ok: "invar s \<Longrightarrow> p \<in> free s \<Longrightarrow> page_ok s p"
    and finite_free: "invar s \<Longrightarrow> finite (free s)"
begin

lemma alloc_n_distinct:
  assumes "invar s" and "n \<le> card (free s)"
  shows "wpK (alloc_n alloc n) (\<lambda>ps t. invar t \<and> length ps = n \<and> distinct ps
    \<and> 0 \<notin> set ps \<and> set ps \<subseteq> free s \<and> free t = free s - set ps) s"
  using assms
proof (induction n arbitrary: s)
  case 0
  then show ?case by (simp add: wp)
next
  case (Suc n)
  then have "free s \<noteq> {}" by auto
  with Suc.prems(1) have "wpK alloc (\<lambda>p t. invar t \<and> p \<noteq> 0 \<and> p \<in> free s
      \<and> free t = free s - {p} \<and> page_ok t = page_ok s) s"
    by (rule alloc_some)
  then have "wpK alloc (\<lambda>p. wpK (alloc_n alloc n) (\<lambda>ps t. invar t \<and> length (p # ps) = Suc n
      \<and> distinct (p # ps) \<and> 0 \<notin> set (p # ps) \<and> set (p # ps) \<subseteq> free s
      \<and> free t = free s - set (p # ps))) s"
  proof (rule wpK_mono)
    fix p t
    assume p: "invar t \<and> p \<noteq> 0 \<and> p \<in> free s \<and> free t = free s - {p} \<and> page_ok t = page_ok s"
    then have "n \<le> card (free t)"
      using Suc.prems finite_free [OF Suc.prems(1)] by (simp add: card_Diff_singleton)
    with p Suc.IH [of t] show "wpK (alloc_n alloc n) (\<lambda>ps u. invar u \<and> length (p # ps) = Suc n
      \<and> distinct (p # ps) \<and> 0 \<notin> set (p # ps) \<and> set (p # ps) \<subseteq> free s
      \<and> free u = free s - set (p # ps)) t"
      by (elim conjE) (rule wpK_mono, assumption, auto)
  qed
  then show ?case by (simp add: wp)
qed

lemma alloc_dealloc:
  assumes "invar s" and "free s \<noteq> {}"
  shows "wpK (bindK alloc dealloc) (\<lambda>_ t. invar t \<and> free t = free s) s"
proof -
  have "wpK alloc (\<lambda>p. wpK (dealloc p) (\<lambda>_ t. invar t \<and> free t = free s)) s"
  proof (rule wpK_mono [OF alloc_some [OF assms]])
    fix p t
    assume p: "invar t \<and> p \<noteq> 0 \<and> p \<in> free s \<and> free t = free s - {p} \<and> page_ok t = page_ok s"
    then have "page_ok t p" using free_ok [OF assms(1)] by simp
    with p have "wpK (dealloc p) (\<lambda>_ u. invar u \<and> free u = insert p (free t) \<and> page_ok u = page_ok t) t"
      by (intro dealloc_ok) auto
    then show "wpK (dealloc p) (\<lambda>_ u. invar u \<and> free u = free s) t"
      by (rule wpK_mono) (use p in auto)
  qed
  then show ?thesis by (simp add: wp)
qed

end

definition kmem_ok :: "'x kmem_scheme \<Rightarrow> bool" where
  "kmem_ok s \<longleftrightarrow> (\<exists>xs. kmem_inv s xs)"

definition free_pages :: "'x kmem_scheme \<Rightarrow> u64 set" where
  "free_pages s = {p. \<exists>xs. kmem_inv s xs \<and> p \<in> set xs}"

lemma free_pages_eq: "kmem_inv s xs \<Longrightarrow> free_pages s = set xs"
  unfolding free_pages_def by (auto simp: kmem_inv_def dest: run_list_unique)

subsection \<open>What allocation leaves alone\<close>

text \<open>The allocator touches the memory and the head of the free list, nothing else.\<close>

definition kmem_frame :: "'x kmem_scheme \<Rightarrow> 'x kmem_scheme \<Rightarrow> bool" where
  "kmem_frame s t \<longleftrightarrow> t = s\<lparr>mem := mem t, freelist := freelist t\<rparr>"

lemma kmem_frame_refl [simp]: "kmem_frame s s"
  by (simp add: kmem_frame_def)

lemma kmem_frame_trans [trans]: "kmem_frame s t \<Longrightarrow> kmem_frame t u \<Longrightarrow> kmem_frame s u"
proof -
  assume "kmem_frame s t" "kmem_frame t u"
  then have "u = (s\<lparr>mem := mem t, freelist := freelist t\<rparr>)\<lparr>mem := mem u, freelist := freelist u\<rparr>"
    by (metis kmem_frame_def)
  then show ?thesis by (simp add: kmem_frame_def)
qed

lemma kmem_frame_mem [simp]: "kmem_frame s (s\<lparr>mem := m\<rparr>)"
  by (simp add: kmem_frame_def)

lemma kmem_frame_kend: "kmem_frame s t \<Longrightarrow> kend t = kend s"
  unfolding kmem_frame_def by (metis kmem.select_convs(3) kmem.surjective kmem.update_convs(1,2))

lemma kmem_frame_valid: "kmem_frame s t \<Longrightarrow> valid_page t = valid_page s"
  by (simp add: valid_page_def fun_eq_iff kmem_frame_kend)

lemma kalloc_frame: "wlpK kalloc (\<lambda>_. kmem_frame s) s"
  by (simp add: kalloc_def wp kmem_frame_def)

lemma kfree_frame: "wlpK (kfree pa) (\<lambda>_. kmem_frame s) s"
  by (simp add: kfree_def wp kmem_frame_def)

lemma kmem_inv_frame:
  assumes "kmem_inv s xs" and "\<And>x. PGROUNDDOWN x \<in> set xs \<Longrightarrow> m x = mem s x"
  shows "kmem_inv (s\<lparr>mem := m\<rparr>) xs"
proof -
  have "load64 m x = load64 (mem s) x" if "x \<in> set xs" for x
  proof (rule load64_cong)
    fix y
    assume "unat (y - x) < 8"
    moreover have "page_aligned x" using assms(1) that by (auto simp: kmem_inv_def valid_page_def)
    ultimately have "PGROUNDDOWN y = x" by (simp flip: page_range)
    then show "m y = mem s y" using that by (intro assms(2)) simp
  qed
  then have "run_list m (freelist s) xs = run_list (mem s) (freelist s) xs" by (rule run_list_cong)
  then show ?thesis using assms(1) by (auto simp: kmem_inv_def valid_page_def)
qed

interpretation kpages: page_allocator kalloc kfree kmem_ok free_pages valid_page
proof
  fix s :: "'x kmem_scheme"
  assume "kmem_ok s" "free_pages s \<noteq> {}"
  then obtain x ys where xs: "kmem_inv s (x # ys)"
    using free_pages_eq by (metis kmem_ok_def list.exhaust set_empty)
  then have "x \<noteq> 0" "x \<notin> set ys" by (auto simp: kmem_inv_def)
  with xs show "wpK kalloc (\<lambda>p t. kmem_ok t \<and> p \<noteq> 0 \<and> p \<in> free_pages s
      \<and> free_pages t = free_pages s - {p} \<and> valid_page t = valid_page s) s"
    by (intro wpK_mono [OF kalloc_wp [OF xs]])
      (auto simp: kmem_ok_def free_pages_eq valid_page_def fun_eq_iff)
next
  fix s :: "'x kmem_scheme"
  assume "kmem_ok s" "free_pages s = {}"
  then have "kmem_inv s []" using free_pages_eq by (metis kmem_ok_def set_empty)
  then show "wpK kalloc (\<lambda>p t. p = 0 \<and> t = s) s"
    using kalloc_wp by fastforce
next
  fix s :: "'x kmem_scheme" and p
  assume "kmem_ok s" "valid_page s p" "p \<notin> free_pages s"
  then obtain xs where xs: "kmem_inv s xs" "p \<notin> set xs" by (auto simp: kmem_ok_def free_pages_eq)
  show "wpK (kfree p) (\<lambda>_ t. kmem_ok t \<and> free_pages t = insert p (free_pages s)
      \<and> valid_page t = valid_page s) s"
    by (rule wpK_mono [OF kfree_wp [OF xs(1) \<open>valid_page s p\<close> xs(2)]])
      (use xs in \<open>auto simp: kmem_ok_def free_pages_eq valid_page_def fun_eq_iff\<close>)
next
  fix s :: "'x kmem_scheme" and p
  assume "p \<in> free_pages s"
  then show "valid_page s p" by (auto simp: free_pages_def kmem_inv_def)
next
  fix s :: "'x kmem_scheme"
  assume "kmem_ok s"
  then show "finite (free_pages s)" by (auto simp: kmem_ok_def free_pages_eq)
qed


text \<open>Allocation and freeing with their effect on the memory.\<close>

lemma kmem_ok_frame:
  assumes "kmem_ok s" and "\<And>x. PGROUNDDOWN x \<in> free_pages s \<Longrightarrow> m x = mem s x"
  shows "kmem_ok (s\<lparr>mem := m\<rparr>) \<and> free_pages (s\<lparr>mem := m\<rparr>) = free_pages s"
proof -
  obtain xs where xs: "kmem_inv s xs" using assms(1) by (auto simp: kmem_ok_def)
  then have "kmem_inv (s\<lparr>mem := m\<rparr>) xs" using assms(2) by (intro kmem_inv_frame) (auto simp: free_pages_eq)
  with xs show ?thesis by (auto simp: kmem_ok_def free_pages_eq)
qed

lemma kalloc_fresh:
  assumes "kmem_ok s"
  shows "wpK kalloc (\<lambda>p t. kmem_frame s t \<and> kmem_ok t \<and> free_pages t = free_pages s - {p}
    \<and> (p = 0 \<longrightarrow> t = s \<and> free_pages s = {})
    \<and> (p \<noteq> 0 \<longrightarrow> p \<in> free_pages s \<and> valid_page s p \<and> same_outside (mem s) (mem t) p)) s"
proof -
  obtain xs where xs: "kmem_inv s xs" using assms by (auto simp: kmem_ok_def)
  show ?thesis
  proof (rule wpK_mono [OF wpK_conj [OF kalloc_wp [OF xs] kalloc_frame]], elim conjE)
    fix p t
    assume case_xs: "case xs of [] \<Rightarrow> p = 0 \<and> t = s | x # ys \<Rightarrow> p = x \<and> kmem_inv t ys
        \<and> same_outside (mem s) (mem t) x \<and> kend t = kend s" and fr: "kmem_frame s t"
    show "kmem_frame s t \<and> kmem_ok t \<and> free_pages t = free_pages s - {p}
      \<and> (p = 0 \<longrightarrow> t = s \<and> free_pages s = {})
      \<and> (p \<noteq> 0 \<longrightarrow> p \<in> free_pages s \<and> valid_page s p \<and> same_outside (mem s) (mem t) p)"
    proof (cases xs)
      case Nil
      then show ?thesis using case_xs xs fr by (auto simp: free_pages_eq kmem_ok_def)
    next
      case (Cons x ys)
      then have "x \<noteq> 0" "x \<notin> set ys" "valid_page s x" using xs by (auto simp: kmem_inv_def)
      then show ?thesis using case_xs xs fr Cons by (auto simp: free_pages_eq kmem_ok_def)
    qed
  qed
qed

lemma kfree_effect:
  assumes "kmem_ok s" and "valid_page s pa" and "pa \<notin> free_pages s"
  shows "wpK (kfree pa) (\<lambda>_ t. kmem_frame s t \<and> kmem_ok t \<and> free_pages t = insert pa (free_pages s)
    \<and> same_outside (mem s) (mem t) pa) s"
proof -
  obtain xs where xs: "kmem_inv s xs" using assms(1) by (auto simp: kmem_ok_def)
  then have "pa \<notin> set xs" using assms(3) by (simp add: free_pages_eq)
  from wpK_conj [OF kfree_wp [OF xs assms(2) this] kfree_frame] show ?thesis
    by (rule wpK_mono) (use xs in \<open>auto simp: free_pages_eq kmem_ok_def\<close>)
qed

section \<open>Properties\<close>

lemma aligned_below_next:
  assumes "page_aligned p" "page_aligned q" "unat p + 4096 < 2 ^ 64"
  shows "q < p + PGSIZE \<longleftrightarrow> q = p \<or> q < p"
proof -
  obtain a b where ab: "unat p = 4096 * a" "unat q = 4096 * b"
    using assms(1,2) by (auto simp: page_aligned_def mod_eq_0_iff_dvd elim!: dvdE)
  have "unat (p + PGSIZE) = unat p + 4096" using assms(3) by (simp add: unat_word_ariths)
  with ab show ?thesis by (auto simp: word_less_nat_alt word_unat_eq_iff simp del: PGSIZE_def)
qed

lemma page_aligned_next: "page_aligned p \<Longrightarrow> unat p + 4096 < 2 ^ 64 \<Longrightarrow> page_aligned (p + PGSIZE)"
  by (simp add: page_aligned_def unat_word_ariths)

lemma freerange_loop_wp:
  assumes "kmem_inv s xs" "set xs = {q. valid_page s q \<and> q < p}" "page_aligned p"
    and "kend s \<le> p" "p \<le> PHYSTOP"
  shows "wpK (freerange_loop p PHYSTOP)
    (\<lambda>_ t. kmem_ok t \<and> free_pages t = {q. valid_page t q} \<and> kend t = kend s) s"
  using assms
proof (induction p PHYSTOP s arbitrary: xs rule: freerange_loop.induct)
  case (1 p s)
  have pu: "unat p + 4096 < 2 ^ 64" using "1.prems"(5) by (simp add: word_le_nat_alt)
  then have pn: "unat (p + PGSIZE) = unat p + 4096" by (simp add: unat_word_ariths)
  have below: "q < p + PGSIZE \<longleftrightarrow> q = p \<or> q < p" if "valid_page s q" for q
    using that "1.prems"(3) pu by (intro aligned_below_next) (auto simp: valid_page_def)
  show ?case
  proof (cases "p + PGSIZE \<le> PHYSTOP")
    case True
    then have "p < PHYSTOP" using pn by (simp only: word_le_nat_alt word_less_nat_alt)
    then have vp: "valid_page s p" using "1.prems" by (simp add: valid_page_def del: PHYSTOP_def)
    have fresh: "p \<notin> set xs" using "1.prems"(2) by simp
    obtain t where t: "kfree p s = Inr ((), t)" "kmem_inv t (p # xs)" "kend t = kend s"
      using kfree_wp [OF "1.prems"(1) vp fresh] by (auto elim: wpK_obtain)
    have vt: "valid_page t = valid_page s" using t(3) by (simp add: valid_page_def fun_eq_iff)
    have "wpK (freerange_loop (p + PGSIZE) PHYSTOP)
        (\<lambda>_ u. kmem_ok u \<and> free_pages u = {q. valid_page u q} \<and> kend u = kend t) t"
    proof (rule "1.hyps" [OF True t(1) t(2)])
      show "set (p # xs) = {q. valid_page t q \<and> q < p + PGSIZE}"
        using "1.prems"(2) vp below by (auto simp: vt)
      show "page_aligned (p + PGSIZE)" using "1.prems"(3) pu by (rule page_aligned_next)
      show "kend t \<le> p + PGSIZE"
        using "1.prems"(4) t(3) pn by (simp only: word_le_nat_alt)
      show "p + PGSIZE \<le> PHYSTOP" by (rule True)
    qed
    then show ?thesis using True t
      by (simp add: wpK_def bindK_def freerange_loop.simps [of p] del: PGSIZE_def PHYSTOP_def)
  next
    case False
    have "p = PHYSTOP"
      using "1.prems"(3,5) False pn aligned_below_next [of p PHYSTOP] pu
      by (auto simp: page_aligned_def not_le order_le_less simp del: PGSIZE_def)
    then have "set xs = {q. valid_page s q}" using "1.prems"(2) by (auto simp: valid_page_def)
    then show ?thesis using False "1.prems"(1)
      by (auto simp: wpK_def returnK_def freerange_loop.simps [of p] kmem_ok_def free_pages_eq)
  qed
qed

text \<open>C23: after \<open>kinit\<close> the free list is well formed and holds exactly the whole pages between
  the end of the kernel image and the end of RAM.\<close>

theorem kinit_frees_all:
  assumes "KERNBASE \<le> kend s" and "kend s \<le> PHYSTOP" and "freelist s = 0"
  shows "\<exists>t. kinit s = Inr ((), t) \<and> kmem_ok t \<and> free_pages t = {p. valid_page t p}"
proof -
  let ?p = "PGROUNDUP (kend s)"
  have e: "unat (kend s) \<le> 0x88000000" using assms(2) by (simp add: word_le_nat_alt)
  have up: "unat ?p = (unat (kend s) + 4095) div 4096 * 4096" by (rule unat_PGROUNDUP) (use e in simp)
  then have "page_aligned ?p" by (simp add: page_aligned_def)
  moreover have "kend s \<le> ?p" using up by (simp add: word_le_nat_alt)
  moreover have "?p \<le> PHYSTOP" using up e by (simp add: word_le_nat_alt)
  moreover have "kmem_inv s []" using assms by (simp add: kmem_inv_def)
  moreover have "{q. valid_page s q \<and> q < ?p} = {}"
  proof -
    have False if q: "4096 dvd unat q" "unat (kend s) \<le> unat q" "unat q < unat ?p" for q :: u64
    proof -
      obtain b where b: "unat q = 4096 * b" using q(1) by (auto elim: dvdE)
      then have "b < (unat (kend s) + 4095) div 4096" using q(3) up by simp
      then have "Suc b * 4096 \<le> (unat (kend s) + 4095) div 4096 * 4096" by (intro mult_le_mono1) simp
      also have "\<dots> \<le> unat (kend s) + 4095" by (rule div_times_less_eq_dividend)
      finally show False using b q(2) by simp
    qed
    then show ?thesis by (auto simp: valid_page_def page_aligned_def word_le_nat_alt word_less_nat_alt)
  qed
  ultimately have "wpK (freerange_loop ?p PHYSTOP)
      (\<lambda>_ t. kmem_ok t \<and> free_pages t = {q. valid_page t q} \<and> kend t = kend s) s"
    by (intro freerange_loop_wp [of s "[]"]) auto
  then show ?thesis by (auto simp: kinit_def freerange_def kdefs elim: wpK_obtain)
qed

theorem kinit_frees_all_witness:
  "\<exists>t. kinit \<lparr>mem = (\<lambda>_. 0), freelist = 0, kend = 0x87FFE800\<rparr> = Inr ((), t) \<and> kmem_ok t
    \<and> free_pages t = {p. valid_page t p}"
  by (rule kinit_frees_all) simp_all

text \<open>C10: on a well-formed allocator, taking as many pages as are free succeeds and never hands
  the same page out twice: the pages are distinct, were all free, and are no longer.\<close>

theorem kalloc_never_twice:
  assumes "kmem_ok s" and "n \<le> card (free_pages s)"
  shows "\<exists>ps t. alloc_n kalloc n s = Inr (ps, t) \<and> length ps = n \<and> distinct ps \<and> 0 \<notin> set ps
    \<and> set ps \<subseteq> free_pages s \<and> free_pages t = free_pages s - set ps \<and> kmem_ok t"
  using kpages.alloc_n_distinct [OF assms] by (auto elim: wpK_obtain)

definition kmem_one :: kmem where
  "kmem_one = \<lparr>mem = (\<lambda>_. 0), freelist = 0x87FFF000, kend = 0x80000000\<rparr>"

lemma free_pages_one:
  "kmem_inv kmem_one [0x87FFF000]"
proof -
  have "read_mem (\<lambda>_. 0) 0x87FFF000 8 = replicate 8 0" by (intro nth_equalityI) (auto simp: nth_read_mem)
  then have "load64 (\<lambda>_. 0) 0x87FFF000 = 0" by (simp only: load64_def le_nat_replicate_0) simp
  then show ?thesis by (simp add: kmem_inv_def valid_page_def page_aligned_def kmem_one_def)
qed

theorem kalloc_never_twice_witness:
  "\<exists>ps t. alloc_n kalloc 1 kmem_one = Inr (ps, t)
    \<and> length ps = 1 \<and> distinct ps \<and> 0 \<notin> set ps
    \<and> set ps \<subseteq> free_pages kmem_one
    \<and> free_pages t = free_pages kmem_one - set ps
    \<and> kmem_ok t"
  by (rule kalloc_never_twice) (use free_pages_one in \<open>auto simp: kmem_ok_def free_pages_eq\<close>)

text \<open>C22: \<open>kfree\<close> of an allocated page of RAM returns without a panic, makes exactly that page
  available again, and writes to no other page.\<close>

theorem kfree_correct:
  assumes "kmem_ok s" and "valid_page s pa" and "pa \<notin> free_pages s"
  shows "\<exists>t. kfree pa s = Inr ((), t) \<and> kmem_ok t \<and> free_pages t = insert pa (free_pages s)
    \<and> (\<forall>x. PGROUNDDOWN x \<noteq> pa \<longrightarrow> mem t x = mem s x)"
proof -
  obtain xs where xs: "kmem_inv s xs" using assms(1) by (auto simp: kmem_ok_def)
  then show ?thesis using kfree_wp [OF xs assms(2)] assms(3)
    by (auto simp: free_pages_eq kmem_ok_def same_outside_def elim!: wpK_obtain)
qed

theorem kfree_correct_witness:
  "\<exists>t. kfree 0x87FFE000 kmem_one = Inr ((), t)
    \<and> kmem_ok t
    \<and> free_pages t = insert 0x87FFE000 (free_pages kmem_one)
    \<and> (\<forall>x. PGROUNDDOWN x \<noteq> 0x87FFE000 \<longrightarrow> mem t x = 0)"
proof -
  have "kmem_ok kmem_one" "free_pages kmem_one = {0x87FFF000}"
    using free_pages_one by (auto simp: kmem_ok_def free_pages_eq)
  moreover have "valid_page kmem_one 0x87FFE000"
    by (simp add: valid_page_def page_aligned_def kmem_one_def)
  ultimately show ?thesis
    using kfree_correct [of kmem_one "0x87FFE000"] by (auto simp: kmem_one_def)
qed

text \<open>\<open>kfree\<close> panics on every address that is not page-aligned or not in the RAM above the
  kernel image.\<close>

theorem kfree_rejects:
  "kfree pa s = Inl (Panic ''kfree'') \<longleftrightarrow> (\<not> valid_page s pa)"
  by (auto simp: kfree_def kdefs valid_page_def page_aligned_mod not_le not_less
      simp del: PGSIZE_def PHYSTOP_def)

end
