(* ===== verification/Spinlock.thy ===== *)
theory Spinlock
  imports Kalloc
begin

text \<open>
  Spin locks and interrupt nesting (\<open>kernel/spinlock.c\<close>) on a machine with several harts.
  The state adds to the physical memory the per-CPU structures of \<open>kernel/proc.h\<close>
  and the number of the hart that executes (\<open>tp\<close>); the interrupt-enable bit of a hart is a
  field of its CPU structure. A lock is a value that \<open>acquire\<close> and \<open>release\<close> return updated.
  \<open>acquire\<close> is split where another hart can interleave: before the atomic swap, and between
  the swap and the store of \<open>lk->cpu\<close>; \<open>release\<close> likewise.
\<close>

section \<open>Definitions\<close>

text \<open>\<open>c_next\<close> is the loop variable of the scheduler that runs on the CPU.\<close>

record cpu =
  c_proc :: "nat option"
  c_noff :: int
  c_intena :: bool
  c_sie :: bool
  c_next :: nat

record spinlock =
  lk_name :: string
  lk_locked :: bool
  lk_cpu :: "nat option"

record kcpu = kmem +
  hartid :: nat
  cpus :: "nat \<Rightarrow> cpu"

definition initlock :: "string \<Rightarrow> spinlock" where
  "initlock name = \<lparr>lk_name = name, lk_locked = False, lk_cpu = None\<rparr>"

definition mycpu :: "'x kcpu_scheme \<Rightarrow> cpu" where
  "mycpu s = cpus s (hartid s)"

definition set_mycpu :: "(cpu \<Rightarrow> cpu) \<Rightarrow> ('x kcpu_scheme, unit) km" where
  "set_mycpu f = modifyK (\<lambda>s. s\<lparr>cpus := (cpus s)(hartid s := f (cpus s (hartid s)))\<rparr>)"

definition intr_get :: "('x kcpu_scheme, bool) km" where
  "intr_get = getK (\<lambda>s. c_sie (mycpu s))"

definition intr_off :: "('x kcpu_scheme, unit) km" where
  "intr_off = set_mycpu (\<lambda>c. c\<lparr>c_sie := False\<rparr>)"

definition intr_on :: "('x kcpu_scheme, unit) km" where
  "intr_on = set_mycpu (\<lambda>c. c\<lparr>c_sie := True\<rparr>)"

definition push_off :: "('x kcpu_scheme, unit) km" where
  "push_off = (bindK intr_get (\<lambda>old.
    thenK intr_off (
    bindK (getK mycpu) (\<lambda>c.
    thenK ((if c_noff c = 0 then set_mycpu (\<lambda>c. c\<lparr>c_intena := old\<rparr>) else returnK ())) (
    set_mycpu (\<lambda>c. c\<lparr>c_noff := c_noff c + 1\<rparr>))))))"

definition pop_off :: "('x kcpu_scheme, unit) km" where
  "pop_off = (bindK intr_get (\<lambda>on.
    if on then panicK ''pop_off - interruptible'' else
    bindK (getK mycpu) (\<lambda>c.
    if c_noff c < 1 then panicK ''pop_off'' else
    thenK (set_mycpu (\<lambda>c. c\<lparr>c_noff := c_noff c - 1\<rparr>)) (
    bindK (getK mycpu) (\<lambda>c.
    (if c_noff c = 0 \<and> c_intena c then intr_on else returnK ()))))))"

definition holding :: "spinlock \<Rightarrow> ('x kcpu_scheme, bool) km" where
  "holding lk = getK (\<lambda>s. lk_locked lk \<and> lk_cpu lk = Some (hartid s))"

definition acquire_enter :: "spinlock \<Rightarrow> ('x kcpu_scheme, unit) km" where
  "acquire_enter lk = (thenK push_off (
    bindK (holding lk) (\<lambda>h.
    (if h then panicK ''acquire'' else returnK ()))))"

text \<open>The atomic swap: the old value of \<open>locked\<close> and the lock after it.\<close>

definition test_and_set :: "spinlock \<Rightarrow> bool \<times> spinlock" where
  "test_and_set lk = (lk_locked lk, lk\<lparr>lk_locked := True\<rparr>)"

definition acquire_done :: "spinlock \<Rightarrow> ('x kcpu_scheme, spinlock) km" where
  "acquire_done lk = getK (\<lambda>s. lk\<lparr>lk_cpu := Some (hartid s)\<rparr>)"

text \<open>On its own a hart that finds the lock taken spins for ever.\<close>

definition acquire :: "spinlock \<Rightarrow> ('x kcpu_scheme, spinlock) km" where
  "acquire lk = (thenK (acquire_enter lk) (
    let (old, lk') = test_and_set lk in
    if old then blockK ''spin'' else
    acquire_done lk'))"

definition release_enter :: "spinlock \<Rightarrow> ('x kcpu_scheme, spinlock) km" where
  "release_enter lk = (bindK (holding lk) (\<lambda>h.
    (if \<not> h then panicK ''release'' else returnK (lk\<lparr>lk_cpu := None\<rparr>))))"

definition lock_release :: "spinlock \<Rightarrow> spinlock" where
  "lock_release lk = lk\<lparr>lk_locked := False\<rparr>"

definition release :: "spinlock \<Rightarrow> ('x kcpu_scheme, spinlock) km" where
  "release lk = (bindK (release_enter lk) (\<lambda>lk'.
    let lk'' = lock_release lk' in
    thenK pop_off (
    returnK lk'')))"

declare set_mycpu_def [kdefs] intr_get_def [kdefs] intr_off_def [kdefs] intr_on_def [kdefs]
  push_off_def [kdefs] pop_off_def [kdefs] holding_def [kdefs] mycpu_def [kdefs]
  acquire_enter_def [kdefs] acquire_done_def [kdefs] release_enter_def [kdefs]

section \<open>Interrupt nesting\<close>

fun repeatK :: "nat \<Rightarrow> ('s, unit) km \<Rightarrow> ('s, unit) km" where
  "repeatK 0 m = returnK ()"
| "repeatK (Suc n) m = thenK m (repeatK n m)"

lemma push_off_fields:
  "\<exists>t. push_off s = Inr ((), t) \<and> hartid t = hartid s \<and> \<not> c_sie (mycpu t)
    \<and> c_noff (mycpu t) = c_noff (mycpu s) + 1
    \<and> c_intena (mycpu t) = (if c_noff (mycpu s) = 0 then c_sie (mycpu s) else c_intena (mycpu s))"
  by (simp add: kdefs)

lemma pop_off_fields:
  "\<not> c_sie (mycpu s) \<Longrightarrow> 1 \<le> c_noff (mycpu s) \<Longrightarrow>
   \<exists>t. pop_off s = Inr ((), t) \<and> hartid t = hartid s \<and> c_noff (mycpu t) = c_noff (mycpu s) - 1
    \<and> c_intena (mycpu t) = c_intena (mycpu s)
    \<and> c_sie (mycpu t) = (c_noff (mycpu s) = 1 \<and> c_intena (mycpu s))"
  by (simp add: kdefs)

lemma repeat_push_off:
  "0 \<le> c_noff (mycpu s) \<Longrightarrow> \<exists>t. repeatK (Suc n) push_off s = Inr ((), t) \<and> \<not> c_sie (mycpu t)
    \<and> c_noff (mycpu t) = c_noff (mycpu s) + int (Suc n)
    \<and> c_intena (mycpu t) = (if c_noff (mycpu s) = 0 then c_sie (mycpu s) else c_intena (mycpu s))"
proof (induction n arbitrary: s)
  case 0
  then show ?case using push_off_fields [of s] by (auto simp: thenK_def bindK_def returnK_def)
next
  case (Suc n)
  obtain t where t: "push_off s = Inr ((), t)" "c_noff (mycpu t) = c_noff (mycpu s) + 1"
    "c_intena (mycpu t) = (if c_noff (mycpu s) = 0 then c_sie (mycpu s) else c_intena (mycpu s))"
    using push_off_fields [of s] by auto
  have eq: "repeatK (Suc (Suc n)) push_off s = repeatK (Suc n) push_off t"
    using t(1) by (simp add: thenK_def bindK_def)
  have "c_noff (mycpu t) \<noteq> 0" using Suc.prems t(2) by simp
  with Suc.IH [of t] Suc.prems t(2,3) show ?case unfolding eq by auto
qed

lemma repeat_pop_off:
  assumes "\<not> c_sie (mycpu s)" "c_noff (mycpu s) = k + int (Suc n)" "0 \<le> k"
  shows "\<exists>t. repeatK (Suc n) pop_off s = Inr ((), t) \<and> c_noff (mycpu t) = k
    \<and> c_sie (mycpu t) = (k = 0 \<and> c_intena (mycpu s))"
  using assms
proof (induction n arbitrary: s)
  case 0
  then show ?case using pop_off_fields [of s] by (auto simp: thenK_def bindK_def returnK_def)
next
  case (Suc n)
  obtain t where t: "pop_off s = Inr ((), t)" "c_noff (mycpu t) = c_noff (mycpu s) - 1"
    "c_intena (mycpu t) = c_intena (mycpu s)" "\<not> c_sie (mycpu t)"
    using pop_off_fields [of s] Suc.prems by auto
  have eq: "repeatK (Suc (Suc n)) pop_off s = repeatK (Suc n) pop_off t"
    using t(1) by (simp add: thenK_def bindK_def)
  show ?case unfolding eq using Suc.IH [of t] Suc.prems t by simp
qed


definition one_hart :: kcpu where
  "one_hart = \<lparr>mem = (\<lambda>_. 0), freelist = 0, kend = KERNBASE, hartid = 0,
     cpus = (\<lambda>_. \<lparr>c_proc = None, c_noff = 0, c_intena = False, c_sie = True, c_next = 0\<rparr>)\<rparr>"


section \<open>Mutual exclusion\<close>

text \<open>Where a hart is with respect to one lock.\<close>

datatype lock_pc = Outside | Spinning | Swapped | Inside | Leaving | Unlocked

record lock_system =
  sys :: kcpu
  the_lock :: spinlock
  pc :: "nat \<Rightarrow> lock_pc"

definition on_hart :: "nat \<Rightarrow> kcpu \<Rightarrow> kcpu" where
  "on_hart h s = s\<lparr>hartid := h\<rparr>"

text \<open>One step of hart \<open>h\<close>; harts interleave freely.\<close>

inductive lock_step :: "lock_system \<Rightarrow> lock_system \<Rightarrow> bool" where
  enter: "pc S h = Outside \<Longrightarrow> acquire_enter (the_lock S) (on_hart h (sys S)) = Inr ((), t) \<Longrightarrow>
    lock_step S (S\<lparr>sys := t, pc := (pc S)(h := Spinning)\<rparr>)"
| spin: "pc S h = Spinning \<Longrightarrow> test_and_set (the_lock S) = (True, lk) \<Longrightarrow>
    lock_step S (S\<lparr>the_lock := lk\<rparr>)"
| swap: "pc S h = Spinning \<Longrightarrow> test_and_set (the_lock S) = (False, lk) \<Longrightarrow>
    lock_step S (S\<lparr>the_lock := lk, pc := (pc S)(h := Swapped)\<rparr>)"
| got: "pc S h = Swapped \<Longrightarrow> acquire_done (the_lock S) (on_hart h (sys S)) = Inr (lk, t) \<Longrightarrow>
    lock_step S (S\<lparr>sys := t, the_lock := lk, pc := (pc S)(h := Inside)\<rparr>)"
| leave: "pc S h = Inside \<Longrightarrow> release_enter (the_lock S) (on_hart h (sys S)) = Inr (lk, t) \<Longrightarrow>
    lock_step S (S\<lparr>sys := t, the_lock := lk, pc := (pc S)(h := Leaving)\<rparr>)"
| unlock: "pc S h = Leaving \<Longrightarrow>
    lock_step S (S\<lparr>the_lock := lock_release (the_lock S), pc := (pc S)(h := Unlocked)\<rparr>)"
| pop: "pc S h = Unlocked \<Longrightarrow> pop_off (on_hart h (sys S)) = Inr ((), t) \<Longrightarrow>
    lock_step S (S\<lparr>sys := t, pc := (pc S)(h := Outside)\<rparr>)"

inductive_cases lock_stepE: "lock_step S T"

inductive lock_reach :: "lock_system \<Rightarrow> bool" where
  init: "(\<And>h. c_noff (cpus s h) = 0) \<Longrightarrow>
    lock_reach \<lparr>sys = s, the_lock = initlock name, pc = (\<lambda>_. Outside)\<rparr>"
| step: "lock_reach S \<Longrightarrow> lock_step S T \<Longrightarrow> lock_reach T"

definition owner_pc :: "lock_pc \<Rightarrow> bool" where
  "owner_pc p \<longleftrightarrow> p = Swapped \<or> p = Inside \<or> p = Leaving"

lemma owner_pc_simps [simp]:
  "owner_pc Swapped" "owner_pc Inside" "owner_pc Leaving"
  "\<not> owner_pc Outside" "\<not> owner_pc Spinning" "\<not> owner_pc Unlocked"
  by (simp_all add: owner_pc_def)

definition lock_inv :: "lock_system \<Rightarrow> bool" where
  "lock_inv S \<longleftrightarrow>
     (\<exists>own. (\<forall>h. owner_pc (pc S h) \<longleftrightarrow> own = Some h) \<and> (lk_locked (the_lock S) \<longleftrightarrow> own \<noteq> None))
     \<and> (\<forall>h. lk_cpu (the_lock S) = Some h \<longleftrightarrow> pc S h = Inside)
     \<and> (\<forall>h. pc S h = Outside \<longrightarrow> c_noff (cpus (sys S) h) = 0)
     \<and> (\<forall>h. pc S h \<noteq> Outside \<longrightarrow> c_noff (cpus (sys S) h) = 1 \<and> \<not> c_sie (cpus (sys S) h))"

lemma acquire_enter_effect:
  assumes "acquire_enter lk s = Inr ((), t)" "c_noff (cpus s (hartid s)) = 0"
  shows "c_noff (cpus t (hartid s)) = 1" "\<not> c_sie (cpus t (hartid s))"
    "k \<noteq> hartid s \<Longrightarrow> cpus t k = cpus s k"
  using assms by (auto simp: kdefs split: if_splits)

lemma pop_off_effect:
  assumes "pop_off s = Inr ((), t)" "c_noff (cpus s (hartid s)) = 1"
  shows "c_noff (cpus t (hartid s)) = 0" "k \<noteq> hartid s \<Longrightarrow> cpus t k = cpus s k"
  using assms by (auto simp: kdefs split: if_splits)

lemma lock_invI:
  assumes "\<And>h. owner_pc (pc T h) \<longleftrightarrow> own = Some h" "lk_locked (the_lock T) \<longleftrightarrow> own \<noteq> None"
    and "\<And>h. lk_cpu (the_lock T) = Some h \<longleftrightarrow> pc T h = Inside"
    and "\<And>h. pc T h = Outside \<Longrightarrow> c_noff (cpus (sys T) h) = 0"
    and "\<And>h. pc T h \<noteq> Outside \<Longrightarrow> c_noff (cpus (sys T) h) = 1 \<and> \<not> c_sie (cpus (sys T) h)"
  shows "lock_inv T"
  unfolding lock_inv_def using assms by auto

lemma lock_inv_step:
  assumes inv: "lock_inv S" and "lock_step S T"
  shows "lock_inv T"
proof -
  obtain own where own: "\<And>h. owner_pc (pc S h) \<longleftrightarrow> own = Some h" "lk_locked (the_lock S) \<longleftrightarrow> own \<noteq> None"
    and cpu: "\<And>h. lk_cpu (the_lock S) = Some h \<longleftrightarrow> pc S h = Inside"
    and out: "\<And>h. pc S h = Outside \<Longrightarrow> c_noff (cpus (sys S) h) = 0"
    and off: "\<And>h. pc S h \<noteq> Outside \<Longrightarrow> c_noff (cpus (sys S) h) = 1 \<and> \<not> c_sie (cpus (sys S) h)"
    using inv unfolding lock_inv_def by blast
  from assms(2) show ?thesis
  proof cases
    case (enter h t)
    have t: "c_noff (cpus t h) = 1" "\<not> c_sie (cpus t h)" "\<And>k. k \<noteq> h \<Longrightarrow> cpus t k = cpus (sys S) k"
      using acquire_enter_effect [OF enter(3)] out [of h] enter(2) by (simp_all add: on_hart_def)
    have "own \<noteq> Some h" using own(1) [of h] enter(2) by simp
    then show ?thesis
      by (intro lock_invI [of _ own]) (use own cpu out off enter(1,2) t in \<open>auto split: if_splits\<close>)
  next
    case (spin h lk)
    then show ?thesis
      by (intro lock_invI [of _ own]) (use own cpu out off in \<open>auto simp: test_and_set_def\<close>)
  next
    case (swap h lk)
    then have "own = None" using own(2) by (auto simp: test_and_set_def)
    then show ?thesis
      by (intro lock_invI [of _ "Some h"])
        (use own cpu out off swap in \<open>auto simp: test_and_set_def split: if_splits\<close>)
  next
    case (got h lk t)
    then have o: "own = Some h" using own(1) [of h] by simp
    have t: "lk = (the_lock S)\<lparr>lk_cpu := Some h\<rparr>" "cpus t = cpus (sys S)"
      using got(3) by (auto simp: kdefs on_hart_def)
    have ins: "pc S k \<noteq> Inside" for k using own(1) [of k] o got(2) by (cases "k = h") auto
    show ?thesis
      by (intro lock_invI [of _ own]) (use own(1,2) ins out off got(1,2) t o in \<open>auto split: if_splits\<close>)
  next
    case (leave h lk t)
    then have o: "own = Some h" using own(1) [of h] by simp
    have t: "lk = (the_lock S)\<lparr>lk_cpu := None\<rparr>" "cpus t = cpus (sys S)"
      using leave(3) by (auto simp: kdefs on_hart_def split: if_splits)
    have ins: "k \<noteq> h \<Longrightarrow> pc S k \<noteq> Inside" for k using own(1) [of k] o by auto
    show ?thesis
      by (intro lock_invI [of _ own]) (use own(1,2) ins out off leave(1,2) t o in \<open>auto split: if_splits\<close>)
  next
    case (unlock h)
    then have "own = Some h" using own(1) [of h] by simp
    then show ?thesis
      by (intro lock_invI [of _ None])
        (use own cpu out off unlock in \<open>auto simp: lock_release_def split: if_splits\<close>)
  next
    case (pop h t)
    have t: "c_noff (cpus t h) = 0" "\<And>k. k \<noteq> h \<Longrightarrow> cpus t k = cpus (sys S) k"
      using pop_off_effect [OF pop(3)] off [of h] pop(2) by (simp_all add: on_hart_def)
    have "own \<noteq> Some h" using own(1) [of h] pop(2) by simp
    then show ?thesis
      by (intro lock_invI [of _ own]) (use own cpu out off pop(1,2) t in \<open>auto split: if_splits\<close>)
  qed
qed

lemma lock_reach_inv: "lock_reach S \<Longrightarrow> lock_inv S"
proof (induction rule: lock_reach.induct)
  case (init s name)
  then show ?case by (auto simp: lock_inv_def initlock_def)
qed (rule lock_inv_step)

text \<open>The operation a hart performs next.\<close>

definition next_op :: "lock_system \<Rightarrow> nat \<Rightarrow> kerr + unit" where
  "next_op S h = (let s = on_hart h (sys S) in
     case pc S h of
       Outside \<Rightarrow> map_sum id (\<lambda>_. ()) (acquire_enter (the_lock S) s)
     | Swapped \<Rightarrow> map_sum id (\<lambda>_. ()) (acquire_done (the_lock S) s)
     | Inside \<Rightarrow> map_sum id (\<lambda>_. ()) (release_enter (the_lock S) s)
     | Unlocked \<Rightarrow> map_sum id (\<lambda>_. ()) (pop_off s)
     | _ \<Rightarrow> Inr ())"

text \<open>C9: with any number of harts taking and releasing one lock in any interleaving of their
  memory accesses, at most one hart at a time is between a successful swap in \<open>acquire\<close> and
  the store in \<open>release\<close> that frees the lock, interrupts are off on a hart that spins or
  holds the lock, and none of the panics of \<open>acquire\<close>, \<open>release\<close> and \<open>pop_off\<close> can occur.\<close>

theorem spinlock_mutual_exclusion:
  assumes "lock_reach S"
  shows "(owner_pc (pc S h) \<longrightarrow> owner_pc (pc S h') \<longrightarrow> h = h')
    \<and> (pc S h \<noteq> Outside \<longrightarrow> \<not> c_sie (cpus (sys S) h)) \<and> next_op S h = Inr ()"
proof -
  have inv: "lock_inv S" using assms by (rule lock_reach_inv)
  have no: "lk_cpu (the_lock S) = Some h \<longleftrightarrow> pc S h = Inside" and lk: "pc S h = Inside \<longrightarrow> lk_locked (the_lock S)"
    and off: "pc S h \<noteq> Outside \<Longrightarrow> c_noff (cpus (sys S) h) = 1 \<and> \<not> c_sie (cpus (sys S) h)"
    using inv unfolding lock_inv_def by (metis option.distinct(1) owner_pc_simps(2))+
  have "next_op S h = Inr ()"
    using no lk off by (cases "pc S h") (simp_all add: next_op_def kdefs on_hart_def Let_def)
  moreover have "owner_pc (pc S h) \<longrightarrow> owner_pc (pc S h') \<longrightarrow> h = h'"
    using inv unfolding lock_inv_def by (metis option.inject)
  ultimately show ?thesis using off by blast
qed

theorem spinlock_mutual_exclusion_witness:
  "let S = \<lparr>sys = one_hart, the_lock = initlock ''kmem'', pc = (\<lambda>_. Outside)\<rparr> in
   (owner_pc (pc S 0) \<longrightarrow> owner_pc (pc S 1) \<longrightarrow> 0 = (1 :: nat))
    \<and> (pc S 0 \<noteq> Outside \<longrightarrow> \<not> c_sie (cpus (sys S) 0)) \<and> next_op S 0 = Inr ()"
  unfolding Let_def
  by (rule spinlock_mutual_exclusion) (rule lock_reach.init, simp add: one_hart_def)

end
