(* ===== verification/Vm.thy ===== *)
theory Vm
  imports Kalloc
begin

text \<open>
  The page-table code of \<open>kernel/vm.c\<close>: three-level Sv39 page tables stored in pages of
  the physical memory, \<open>walk\<close> and the operations built on it. A pointer is its address,
  the null pointer is 0; a \<open>pte_t *\<close> is the address of the eight bytes of the entry.
  Page tables are walked with the level as recursion argument; the loops over virtual
  addresses end because \<open>walk\<close> panics from \<open>MAXVA\<close> on. The source buffer of a copy to
  user space is the list of its bytes, and a copy from user space returns the bytes it
  stored in the destination buffer next to its return value.
\<close>

section \<open>Definitions\<close>

definition read64 :: "u64 \<Rightarrow> ('x kmem_scheme, u64) km" where
  "read64 a = getK (\<lambda>s. load64 (mem s) a)"

definition write64 :: "u64 \<Rightarrow> u64 \<Rightarrow> ('x kmem_scheme, unit) km" where
  "write64 a v = modifyK (\<lambda>s. s\<lparr>mem := store64 (mem s) a v\<rparr>)"

definition zero_page :: "u64 \<Rightarrow> ('x kmem_scheme, unit) km" where
  "zero_page p = modifyK (\<lambda>s. s\<lparr>mem := memset (mem s) p 0 (unat PGSIZE)\<rparr>)"

definition pte_addr :: "u64 \<Rightarrow> u64 \<Rightarrow> u64" where
  "pte_addr pagetable i = pagetable + 8 * i"

declare read64_def [kdefs] write64_def [kdefs] zero_page_def [kdefs]

fun walk_level :: "nat \<Rightarrow> u64 \<Rightarrow> u64 \<Rightarrow> bool \<Rightarrow> ('x kmem_scheme, u64) km" where
  "walk_level 0 pagetable va alloc = returnK (pte_addr pagetable (PX 0 va))"
| "walk_level (Suc level) pagetable va alloc =
     (let pte = pte_addr pagetable (PX (Suc level) va) in
      bindK (read64 pte) (\<lambda>v.
        if v AND PTE_V \<noteq> 0 then walk_level level (PTE2PA v) va alloc
        else if \<not> alloc then returnK 0
        else bindK kalloc (\<lambda>page.
          if page = 0 then returnK 0
          else thenK (zero_page page)
                 (thenK (write64 pte (PA2PTE page OR PTE_V)) (walk_level level page va alloc)))))"

definition walk :: "u64 \<Rightarrow> u64 \<Rightarrow> bool \<Rightarrow> ('x kmem_scheme, u64) km" where
  "walk pagetable va alloc =
     (if va \<ge> MAXVA then panicK ''walk'' else walk_level 2 pagetable va alloc)"

definition walkaddr :: "u64 \<Rightarrow> u64 \<Rightarrow> ('x kmem_scheme, u64) km" where
  "walkaddr pagetable va =
     (if va \<ge> MAXVA then returnK 0
      else bindK (walk pagetable va False) (\<lambda>pte.
        if pte = 0 then returnK 0
        else bindK (read64 pte) (\<lambda>v.
          if v AND PTE_V = 0 then returnK 0
          else if v AND PTE_U = 0 then returnK 0
          else returnK (PTE2PA v))))"

lemma walk_returns: "walk pagetable va alloc s = Inr (x, t) \<Longrightarrow> unat va < unat MAXVA"
  by (auto simp: walk_def panicK_def word_le_nat_alt not_le simp del: MAXVA_def split: if_splits)

text \<open>The next page starts below \<open>2 ^ 64\<close>: no address of the loops below wraps.\<close>

lemma unat_next_page: "unat va < unat MAXVA \<Longrightarrow> unat (va + PGSIZE) = unat va + 4096"
  by (simp add: unat_word_ariths)

lemma loop_decreases: "walk pagetable va alloc s = Inr (x, t) \<Longrightarrow>
    unat MAXVA - unat (va + PGSIZE) < unat MAXVA - unat va"
  using walk_returns [of pagetable va alloc s x t] unat_next_page [of va] by linarith

function mappages_loop ::
  "u64 \<Rightarrow> u64 \<Rightarrow> u64 \<Rightarrow> u64 \<Rightarrow> u64 \<Rightarrow> ('x kmem_scheme, int) km" where
  "mappages_loop pagetable a lst pa perm s =
     bindK (walk pagetable a True) (\<lambda>pte.
       if pte = 0 then returnK (- 1)
       else bindK (read64 pte) (\<lambda>v.
         if v AND PTE_V \<noteq> 0 then panicK ''mappages: remap''
         else thenK (write64 pte (PA2PTE pa OR perm OR PTE_V))
                (if a = lst then returnK 0
                 else mappages_loop pagetable (a + PGSIZE) lst (pa + PGSIZE) perm))) s"
  by pat_completeness auto
termination
  by (relation "measure (\<lambda>(pagetable, a, lst, pa, perm, s). unat MAXVA - unat a)")
    (use loop_decreases in auto)

declare mappages_loop.simps [simp del]

definition mappages :: "u64 \<Rightarrow> u64 \<Rightarrow> u64 \<Rightarrow> u64 \<Rightarrow> u64 \<Rightarrow> ('x kmem_scheme, int) km" where
  "mappages pagetable va sz pa perm =
     (if va mod PGSIZE \<noteq> 0 then panicK ''mappages: va not aligned''
      else if sz mod PGSIZE \<noteq> 0 then panicK ''mappages: size not aligned''
      else if sz = 0 then panicK ''mappages: size''
      else mappages_loop pagetable va (va + sz - PGSIZE) pa perm)"

definition kvmmap :: "u64 \<Rightarrow> u64 \<Rightarrow> u64 \<Rightarrow> u64 \<Rightarrow> u64 \<Rightarrow> ('x kmem_scheme, unit) km" where
  "kvmmap kpgtbl va pa sz perm =
     bindK (mappages kpgtbl va sz pa perm) (\<lambda>r. if r \<noteq> 0 then panicK ''kvmmap'' else returnK ())"

text \<open>\<open>NPROC\<close> of \<open>kernel/param.h\<close>.\<close>

definition NPROC :: nat where "NPROC = 64"

definition proc_mapstacks :: "u64 \<Rightarrow> ('x kmem_scheme, unit) km" where
  "proc_mapstacks kpgtbl = forK [0..<NPROC] (\<lambda>i.
     bindK kalloc (\<lambda>pa.
       if pa = 0 then panicK ''kalloc''
       else kvmmap kpgtbl (KSTACK i) pa PGSIZE (PTE_R OR PTE_W)))"

text \<open>The linker symbols \<open>etext\<close> and \<open>trampoline\<close> are arguments.\<close>

definition kvmmake :: "u64 \<Rightarrow> u64 \<Rightarrow> ('x kmem_scheme, u64) km" where
  "kvmmake etext trampoline =
     bindK kalloc (\<lambda>kpgtbl.
     thenK (zero_page kpgtbl)
     (thenK (kvmmap kpgtbl UART0 UART0 PGSIZE (PTE_R OR PTE_W))
     (thenK (kvmmap kpgtbl VIRTIO0 VIRTIO0 PGSIZE (PTE_R OR PTE_W))
     (thenK (kvmmap kpgtbl PLIC PLIC 0x4000000 (PTE_R OR PTE_W))
     (thenK (kvmmap kpgtbl KERNBASE KERNBASE (etext - KERNBASE) (PTE_R OR PTE_X))
     (thenK (kvmmap kpgtbl etext etext (PHYSTOP - etext) (PTE_R OR PTE_W))
     (thenK (kvmmap kpgtbl TRAMPOLINE trampoline PGSIZE (PTE_R OR PTE_X))
     (thenK (proc_mapstacks kpgtbl)
     (returnK kpgtbl)))))))))"

function uvmunmap_loop :: "u64 \<Rightarrow> u64 \<Rightarrow> u64 \<Rightarrow> bool \<Rightarrow> ('x kmem_scheme, unit) km" where
  "uvmunmap_loop pagetable a stop do_free s =
     (if a < stop then
        bindK (walk pagetable a False) (\<lambda>pte.
          if pte = 0 then panicK ''uvmunmap: walk''
          else bindK (read64 pte) (\<lambda>v.
            if v AND PTE_V = 0 then panicK ''uvmunmap: not mapped''
            else if PTE_FLAGS v = PTE_V then panicK ''uvmunmap: not a leaf''
            else thenK (if do_free then kfree (PTE2PA v) else returnK ())
                   (thenK (write64 pte 0) (uvmunmap_loop pagetable (a + PGSIZE) stop do_free)))) s
      else returnK () s)"
  by pat_completeness auto
termination
  by (relation "measure (\<lambda>(pagetable, a, stop, do_free, s). unat MAXVA - unat a)")
    (use loop_decreases in auto)

declare uvmunmap_loop.simps [simp del]

definition uvmunmap :: "u64 \<Rightarrow> u64 \<Rightarrow> u64 \<Rightarrow> bool \<Rightarrow> ('x kmem_scheme, unit) km" where
  "uvmunmap pagetable va npages do_free =
     (if va mod PGSIZE \<noteq> 0 then panicK ''uvmunmap: not aligned''
      else uvmunmap_loop pagetable va (va + npages * PGSIZE) do_free)"

definition uvmcreate :: "('x kmem_scheme, u64) km" where
  "uvmcreate = bindK kalloc (\<lambda>pagetable.
     if pagetable = 0 then returnK 0 else thenK (zero_page pagetable) (returnK pagetable))"

text \<open>The initial program is the list of its bytes.\<close>

definition uvmfirst :: "u64 \<Rightarrow> bytes \<Rightarrow> ('x kmem_scheme, unit) km" where
  "uvmfirst pagetable src =
     (if length src \<ge> unat PGSIZE then panicK ''uvmfirst: more than a page''
      else bindK kalloc (\<lambda>page.
        thenK (zero_page page)
        (thenK (mappages pagetable 0 PGSIZE page (PTE_W OR PTE_R OR PTE_X OR PTE_U))
        (modifyK (\<lambda>s. s\<lparr>mem := write_mem (mem s) page src\<rparr>)))))"

text \<open>\<open>npages\<close> is an \<open>int\<close>, which the call converts back to 64 bits.\<close>

definition uvmdealloc :: "u64 \<Rightarrow> u64 \<Rightarrow> u64 \<Rightarrow> ('x kmem_scheme, u64) km" where
  "uvmdealloc pagetable oldsz newsz =
     (if newsz \<ge> oldsz then returnK oldsz
      else thenK
        (if PGROUNDUP newsz < PGROUNDUP oldsz
         then let npages = (ucast ((PGROUNDUP oldsz - PGROUNDUP newsz) div PGSIZE) :: u32)
              in uvmunmap pagetable (PGROUNDUP newsz) (scast npages) True
         else returnK ())
        (returnK newsz))"

lemma mappages_returns:
  "mappages pagetable va sz pa perm s = Inr (x, t) \<Longrightarrow> unat va < unat MAXVA"
  by (auto simp: mappages_def panicK_def bindK_def mappages_loop.simps [of pagetable va]
      split: if_splits sum.splits dest: walk_returns simp del: MAXVA_def)

lemma alloc_decreases: "mappages pagetable va sz pa perm s = Inr (x, t) \<Longrightarrow>
    unat MAXVA - unat (va + PGSIZE) < unat MAXVA - unat va"
  using mappages_returns [of pagetable va sz pa perm s x t] unat_next_page [of va] by linarith

function uvmalloc_loop :: "u64 \<Rightarrow> u64 \<Rightarrow> u64 \<Rightarrow> u64 \<Rightarrow> u64 \<Rightarrow> ('x kmem_scheme, u64) km" where
  "uvmalloc_loop pagetable a oldsz newsz xperm s =
     (if a < newsz then
        bindK kalloc (\<lambda>page.
          if page = 0 then thenK (uvmdealloc pagetable a oldsz) (returnK 0)
          else thenK (zero_page page)
            (bindK (mappages pagetable a PGSIZE page (PTE_R OR PTE_U OR xperm)) (\<lambda>r.
              if r \<noteq> 0
              then thenK (kfree page) (thenK (uvmdealloc pagetable a oldsz) (returnK 0))
              else uvmalloc_loop pagetable (a + PGSIZE) oldsz newsz xperm))) s
      else returnK newsz s)"
  by pat_completeness auto
termination
  by (relation "measure (\<lambda>(pagetable, a, oldsz, newsz, xperm, s). unat MAXVA - unat a)")
    (use alloc_decreases in auto)

declare uvmalloc_loop.simps [simp del]

definition uvmalloc :: "u64 \<Rightarrow> u64 \<Rightarrow> u64 \<Rightarrow> u64 \<Rightarrow> ('x kmem_scheme, u64) km" where
  "uvmalloc pagetable oldsz newsz xperm =
     (if newsz < oldsz then returnK oldsz
      else uvmalloc_loop pagetable (PGROUNDUP oldsz) (PGROUNDUP oldsz) newsz xperm)"

text \<open>
  \<open>freewalk\<close> calls itself on every lower-level table. Its first argument bounds the depth
  of the recursion: a table of depth greater than the bound (which in C would recurse on,
  for ever on a cyclic table) is reported as blocked. The tables the kernel builds have
  three levels.
\<close>

fun freewalk_depth :: "nat \<Rightarrow> u64 \<Rightarrow> ('x kmem_scheme, unit) km" where
  "freewalk_depth 0 pagetable = blockK ''freewalk''"
| "freewalk_depth (Suc d) pagetable =
     thenK (forK [0..<512] (\<lambda>i.
       bindK (read64 (pte_addr pagetable (word_of_nat i))) (\<lambda>pte.
         if pte AND PTE_V \<noteq> 0 \<and> pte AND (PTE_R OR PTE_W OR PTE_X) = 0
         then thenK (freewalk_depth d (PTE2PA pte))
                (write64 (pte_addr pagetable (word_of_nat i)) 0)
         else if pte AND PTE_V \<noteq> 0 then panicK ''freewalk: leaf''
         else returnK ())))
     (kfree pagetable)"

definition freewalk :: "u64 \<Rightarrow> ('x kmem_scheme, unit) km" where
  "freewalk pagetable = freewalk_depth 3 pagetable"

definition uvmfree :: "u64 \<Rightarrow> u64 \<Rightarrow> ('x kmem_scheme, unit) km" where
  "uvmfree pagetable sz =
     thenK (if sz > 0 then uvmunmap pagetable 0 (PGROUNDUP sz div PGSIZE) True else returnK ())
       (freewalk pagetable)"

function uvmcopy_loop :: "u64 \<Rightarrow> u64 \<Rightarrow> u64 \<Rightarrow> u64 \<Rightarrow> ('x kmem_scheme, int) km" where
  "uvmcopy_loop old new i sz s =
     (if i < sz then
        bindK (walk old i False) (\<lambda>pte.
          if pte = 0 then panicK ''uvmcopy: pte should exist''
          else bindK (read64 pte) (\<lambda>v.
            if v AND PTE_V = 0 then panicK ''uvmcopy: page not present''
            else bindK kalloc (\<lambda>page.
              if page = 0 then thenK (uvmunmap new 0 (i div PGSIZE) True) (returnK (- 1))
              else thenK (modifyK (\<lambda>s. s\<lparr>mem := memmove (mem s) page (PTE2PA v) (unat PGSIZE)\<rparr>))
                (bindK (mappages new i PGSIZE page (PTE_FLAGS v)) (\<lambda>r.
                  if r \<noteq> 0
                  then thenK (kfree page)
                         (thenK (uvmunmap new 0 (i div PGSIZE) True) (returnK (- 1)))
                  else uvmcopy_loop old new (i + PGSIZE) sz))))) s
      else returnK 0 s)"
  by pat_completeness auto
termination
  by (relation "measure (\<lambda>(old, new, i, sz, s). unat MAXVA - unat i)")
    (use loop_decreases in auto)

declare uvmcopy_loop.simps [simp del]

definition uvmcopy :: "u64 \<Rightarrow> u64 \<Rightarrow> u64 \<Rightarrow> ('x kmem_scheme, int) km" where
  "uvmcopy old new sz = uvmcopy_loop old new 0 sz"

definition uvmclear :: "u64 \<Rightarrow> u64 \<Rightarrow> ('x kmem_scheme, unit) km" where
  "uvmclear pagetable va =
     bindK (walk pagetable va False) (\<lambda>pte.
       if pte = 0 then panicK ''uvmclear''
       else bindK (read64 pte) (\<lambda>v. write64 pte (v AND NOT PTE_U)))"

subsection \<open>Copying between kernel and user memory\<close>

text \<open>The bytes of one iteration: up to the end of the page, at most what is left to copy.\<close>

definition copy_chunk :: "u64 \<Rightarrow> nat \<Rightarrow> nat" where
  "copy_chunk va len = (let n = unat (PGSIZE - (va - PGROUNDDOWN va)) in if n > len then len else n)"

lemma unat_page_offset: "unat (va - PGROUNDDOWN va) = unat va mod 4096"
proof -
  have "PGROUNDDOWN va \<le> va" by (simp add: word_le_nat_alt unat_PGROUNDDOWN)
  then show ?thesis by (simp add: unat_sub unat_PGROUNDDOWN minus_div_mult_eq_mod)
qed

lemma copy_chunk_eq: "copy_chunk va len = min (4096 - unat va mod 4096) len"
proof -
  have "unat (PGSIZE - (va - PGROUNDDOWN va)) = 4096 - unat va mod 4096"
    using unat_page_offset [of va] by (simp add: unat_sub_if')
  then show ?thesis by (simp add: copy_chunk_def Let_def min_def del: PGSIZE_def)
qed

lemma copy_chunk_pos: "0 < len \<Longrightarrow> 0 < copy_chunk va len"
  by (simp add: copy_chunk_eq)

function copyout :: "u64 \<Rightarrow> u64 \<Rightarrow> bytes \<Rightarrow> ('x kmem_scheme, int) km" where
  "copyout pagetable dstva src s =
     (if src \<noteq> [] then
        (let va0 = PGROUNDDOWN dstva in
         if va0 \<ge> MAXVA then returnK (- 1)
         else bindK (walk pagetable va0 False) (\<lambda>pte.
           if pte = 0 then returnK (- 1)
           else bindK (read64 pte) (\<lambda>v.
             if v AND PTE_V = 0 \<or> v AND PTE_U = 0 \<or> v AND PTE_W = 0 then returnK (- 1)
             else thenK
               (modifyK (\<lambda>s. s\<lparr>mem := write_mem (mem s) (PTE2PA v + (dstva - va0))
                                          (take (copy_chunk dstva (length src)) src)\<rparr>))
               (copyout pagetable (va0 + PGSIZE) (drop (copy_chunk dstva (length src)) src))))) s
      else returnK 0 s)"
  by pat_completeness auto
termination
  by (relation "measure (\<lambda>(pagetable, dstva, src, s). length src)") (auto simp: copy_chunk_pos)

declare copyout.simps [simp del]

function copyin :: "u64 \<Rightarrow> u64 \<Rightarrow> nat \<Rightarrow> ('x kmem_scheme, int \<times> bytes) km" where
  "copyin pagetable srcva len s =
     (if len > 0 then
        (let va0 = PGROUNDDOWN srcva; n = copy_chunk srcva len in
         bindK (walkaddr pagetable va0) (\<lambda>pa0.
           if pa0 = 0 then returnK (- 1, [])
           else bindK (getK (\<lambda>s. read_mem (mem s) (pa0 + (srcva - va0)) n)) (\<lambda>bs.
             bindK (copyin pagetable (va0 + PGSIZE) (len - n)) (\<lambda>(r, bs').
               returnK (r, bs @ bs'))))) s
      else returnK (0, []) s)"
  by pat_completeness auto
termination
  by (relation "measure (\<lambda>(pagetable, srcva, len, s). len)") (auto simp: copy_chunk_pos)

declare copyin.simps [simp del]

text \<open>The inner loop of \<open>copyinstr\<close>: the bytes stored, and whether one of them was the NUL.\<close>

fun copyinstr_page :: "memory \<Rightarrow> u64 \<Rightarrow> nat \<Rightarrow> bytes \<times> bool" where
  "copyinstr_page m p 0 = ([], False)"
| "copyinstr_page m p (Suc n) =
     (if m p = 0 then ([0], True)
      else let (bs, got_null) = copyinstr_page m (p + 1) n in (m p # bs, got_null))"

function copyinstr :: "u64 \<Rightarrow> u64 \<Rightarrow> nat \<Rightarrow> ('x kmem_scheme, int \<times> bytes) km" where
  "copyinstr pagetable srcva mx s =
     (if mx > 0 then
        (let va0 = PGROUNDDOWN srcva; n = copy_chunk srcva mx in
         bindK (walkaddr pagetable va0) (\<lambda>pa0.
           if pa0 = 0 then returnK (- 1, [])
           else bindK (getK (\<lambda>s. copyinstr_page (mem s) (pa0 + (srcva - va0)) n)) (\<lambda>(bs, got_null).
             if got_null then returnK (0, bs)
             else bindK (copyinstr pagetable (va0 + PGSIZE) (mx - n)) (\<lambda>(r, bs').
               returnK (r, bs @ bs'))))) s
      else returnK (- 1, []) s)"
  by pat_completeness auto
termination
  by (relation "measure (\<lambda>(pagetable, srcva, mx, s). mx)") (auto simp: copy_chunk_pos)

declare copyinstr.simps [simp del]

end
