(* ===== verification/Vm_Map.thy ===== *)
theory Vm_Map
  imports Vm
begin

text \<open>
  Page tables as address spaces. \<open>node\<close> follows a path of indices through the tables in
  memory, \<open>pte_of\<close> is the leaf entry a virtual address has, \<open>pt_ok\<close> the invariant of a
  page table (its table pages are distinct, allocated and not free). The lemmas show what
  \<open>walk\<close>, \<open>mappages\<close> and \<open>uvmunmap\<close> do to the address space as a map from virtual
  addresses to entries.
\<close>

section \<open>Slots of a table page\<close>

lemma unat_pte_addr:
  assumes "page_aligned p" and "unat i < 512"
  shows "unat (pte_addr p i) = unat p + 8 * unat i"
proof -
  obtain q where q: "unat p = 4096 * q" using assms(1) by (auto simp: page_aligned_def elim: dvdE)
  have "4096 * q < 4096 * (2 ^ 52 :: nat)" using unat_lt_u64 [of p] unfolding q by simp
  then have "4096 * Suc q \<le> 4096 * (2 ^ 52 :: nat)" by (intro mult_le_mono2) simp
  then have b: "unat p + 4096 \<le> 2 ^ 64" unfolding q by simp
  have "unat (8 * i) = 8 * unat i" using assms(2) by (simp add: unat_word_ariths)
  then show ?thesis using b assms(2) unfolding pte_addr_def by (simp add: unat_word_ariths)
qed

lemma aligned8_pte_addr: "page_aligned p \<Longrightarrow> unat i < 512 \<Longrightarrow> aligned8 (pte_addr p i)"
  using page_aligned_aligned8 [of p] by (simp add: aligned8_def unat_pte_addr)

lemma page_of_pte_addr: "page_aligned p \<Longrightarrow> unat i < 512 \<Longrightarrow> PGROUNDDOWN (pte_addr p i) = p"
proof -
  assume *: "page_aligned p" "unat i < 512"
  then have "unat (pte_addr p i - p) = 8 * unat i"
    by (simp add: pte_addr_def unat_word_ariths)
  then show ?thesis using * by (simp flip: page_range)
qed

lemma pte_addr_inject:
  assumes "page_aligned p" "unat i < 512" "page_aligned q" "unat j < 512"
  shows "pte_addr p i = pte_addr q j \<longleftrightarrow> p = q \<and> i = j"
proof
  assume eq: "pte_addr p i = pte_addr q j"
  then have "p = q" using assms page_of_pte_addr by metis
  moreover from this have "unat i = unat j"
    using eq assms unat_pte_addr by (metis add_left_cancel mult_left_cancel zero_neq_numeral)
  ultimately show "p = q \<and> i = j" by (simp add: word_unat_eq_iff)
qed simp

section \<open>Paths through the tables\<close>

fun node :: "memory \<Rightarrow> u64 \<Rightarrow> u64 list \<Rightarrow> u64 option" where
  "node m p [] = Some p"
| "node m p (i # is) =
     (let v = load64 m (pte_addr p i) in if bit v 0 then node m (PTE2PA v) is else None)"

definition indices :: "nat \<Rightarrow> u64 list \<Rightarrow> bool" where
  "indices n is \<longleftrightarrow> length is \<le> n \<and> (\<forall>i \<in> set is. unat i < 512)"

definition tables :: "memory \<Rightarrow> u64 \<Rightarrow> u64 set" where
  "tables m pt = {q. \<exists>is. indices 2 is \<and> node m pt is = Some q}"

text \<open>The leaf entry of a virtual address, 0 when there is no table for it.\<close>

definition vpath :: "u64 \<Rightarrow> u64 list" where
  "vpath va = [PX 2 va, PX 1 va]"

definition pte_of :: "memory \<Rightarrow> u64 \<Rightarrow> u64 \<Rightarrow> u64" where
  "pte_of m pt va =
     (if va \<ge> MAXVA then 0
      else case node m pt (vpath va) of
        None \<Rightarrow> 0
      | Some q \<Rightarrow> load64 m (pte_addr q (PX 0 va)))"

definition pt_inj :: "memory \<Rightarrow> u64 \<Rightarrow> bool" where
  "pt_inj m pt \<longleftrightarrow> (\<forall>is js q. indices 2 is \<longrightarrow> indices 2 js \<longrightarrow>
     node m pt is = Some q \<longrightarrow> node m pt js = Some q \<longrightarrow> is = js)"

definition pt_ok :: "'x kmem_scheme \<Rightarrow> u64 \<Rightarrow> bool" where
  "pt_ok s pt \<longleftrightarrow> kmem_ok s \<and> pt_inj (mem s) pt
     \<and> (\<forall>q \<in> tables (mem s) pt. valid_page s q \<and> q \<notin> free_pages s)"

lemma node_snoc:
  "node m p (is @ [i]) = (case node m p is of None \<Rightarrow> None
     | Some q \<Rightarrow> (let v = load64 m (pte_addr q i) in if bit v 0 then Some (PTE2PA v) else None))"
  by (induction "is" arbitrary: p) (simp_all add: Let_def)

lemma indices_snoc: "indices n (is @ [i]) \<longleftrightarrow> length is < n \<and> indices n is \<and> unat i < 512"
  by (auto simp: indices_def)

lemma indices_vpath [simp]: "indices 2 (vpath va)"
  by (simp add: indices_def vpath_def unat_PX_less)

lemma root_in_tables [simp]: "pt \<in> tables m pt"
  by (auto simp: tables_def indices_def intro: exI [of _ "[]"])

lemma tablesI: "indices 2 is \<Longrightarrow> node m pt is = Some q \<Longrightarrow> q \<in> tables m pt"
  by (auto simp: tables_def)

lemma pt_inj_D: "pt_inj m pt \<Longrightarrow> indices 2 is \<Longrightarrow> indices 2 js \<Longrightarrow>
    node m pt is = Some q \<Longrightarrow> node m pt js = Some q \<Longrightarrow> is = js"
  by (auto simp: pt_inj_def)

lemma pt_ok_table: "pt_ok s pt \<Longrightarrow> q \<in> tables (mem s) pt \<Longrightarrow>
    valid_page s q \<and> page_aligned q \<and> q \<notin> free_pages s \<and> q \<noteq> 0"
  by (auto simp: pt_ok_def valid_page_def kmem_ok_def kmem_inv_def)

text \<open>A change of memory that leaves the entries of the two upper levels alone.\<close>

lemma node_frame:
  assumes "\<And>is q j. indices 1 is \<Longrightarrow> node m pt is = Some q \<Longrightarrow> unat j < 512 \<Longrightarrow>
      load64 m' (pte_addr q j) = load64 m (pte_addr q j)"
  shows "indices 2 is \<Longrightarrow> node m' pt is = node m pt is"
proof (induction "is" rule: rev_induct)
  case (snoc i "is")
  then have "node m' pt is = node m pt is" and "indices 1 is" "unat i < 512"
    by (auto simp: indices_def)
  then show ?case using assms by (auto simp: node_snoc split: option.split)
qed simp

text \<open>Linking a zeroed page into an empty slot adds exactly one path.\<close>

lemma node_link:
  assumes inj: "pt_inj m pt"
    and path: "indices 1 path" "node m pt path = Some q" "unat i < 512"
    and empty: "\<not> bit (load64 m (pte_addr q i)) 0"
    and old: "\<And>p j. p \<in> tables m pt \<Longrightarrow> unat j < 512 \<Longrightarrow> (p, j) \<noteq> (q, i) \<Longrightarrow>
      load64 m' (pte_addr p j) = load64 m (pte_addr p j)"
    and new: "bit (load64 m' (pte_addr q i)) 0" "PTE2PA (load64 m' (pte_addr q i)) = page"
    and zero: "\<And>j. unat j < 512 \<Longrightarrow> load64 m' (pte_addr page j) = 0"
  shows "indices 2 is \<Longrightarrow> node m' pt is = (if is = path @ [i] then Some page else node m pt is)"
proof (induction "is" rule: rev_induct)
  case (snoc j "is")
  then have IH: "node m' pt is = (if is = path @ [i] then Some page else node m pt is)"
    and ix: "indices 2 is" "unat j < 512" by (auto simp: indices_snoc)
  show ?case
  proof (cases "is = path @ [i]")
    case True
    have "node m pt is = None" using True path(2) empty by (simp add: node_snoc)
    then have "node m pt (is @ [j]) = None" by (simp add: node_snoc)
    moreover have "node m' pt is = Some page" using True IH by simp
    then have "node m' pt (is @ [j]) = None" using zero ix(2) by (simp add: node_snoc)
    ultimately show ?thesis using True by simp
  next
    case False
    show ?thesis
    proof (cases "node m pt is")
      case None
      then show ?thesis using False IH path(2) by (auto simp: node_snoc)
    next
      case (Some p)
      have "p = q \<and> j = i \<longleftrightarrow> is = path \<and> j = i"
        using Some path ix inj pt_inj_D [of m pt "is" path q] by (auto simp: indices_def)
      then show ?thesis
        using False IH Some new ix old [of p j] tablesI [OF ix(1) Some] by (auto simp: node_snoc)
    qed
  qed
qed simp

section \<open>\<open>walk\<close>\<close>

lemma wpK_read64 [wp]: "wpK (read64 a) Q = (\<lambda>s. Q (load64 (mem s) a) s)"
  by (simp add: read64_def wp)

lemma wpK_write64 [wp]: "wpK (write64 a v) Q = (\<lambda>s. Q () (s\<lparr>mem := store64 (mem s) a v\<rparr>))"
  by (simp add: write64_def wp)

lemma wpK_zero_page [wp]: "wpK (zero_page p) Q = (\<lambda>s. Q () (s\<lparr>mem := memset (mem s) p 0 4096\<rparr>))"
  by (simp add: zero_page_def wp)

text \<open>Without allocation \<open>walk\<close> reads the path and changes nothing.\<close>

lemma walk_level_noalloc:
  assumes "level \<le> 2"
  shows "walk_level level p va False s =
    Inr (case node (mem s) p (drop (2 - level) (vpath va)) of
           None \<Rightarrow> 0 | Some q \<Rightarrow> pte_addr q (PX 0 va), s)"
  using assms
proof (induction level arbitrary: p)
  case 0
  then show ?case by (simp add: kdefs vpath_def)
next
  case (Suc level)
  have "drop (2 - Suc level) (vpath va) = PX (Suc level) va # drop (2 - level) (vpath va)"
    using Suc.prems by (cases level) (auto simp: vpath_def numeral_2_eq_2)
  moreover have "v AND PTE_V \<noteq> 0 \<longleftrightarrow> bit v 0" for v by (rule flag_bits)
  ultimately show ?case using Suc by (simp add: kdefs Let_def del: PTE_V_def)
qed

lemma walk_noalloc:
  "va < MAXVA \<Longrightarrow> walk pt va False s =
    Inr (case node (mem s) pt (vpath va) of None \<Rightarrow> 0 | Some q \<Rightarrow> pte_addr q (PX 0 va), s)"
  using walk_level_noalloc [of 2 pt va s] by (auto simp: walk_def leD simp del: MAXVA_def)

text \<open>
  What building tables may do: take pages from the free list and make table pages of
  them. Only tables and pages that were free are written.
\<close>

definition pt_step :: "'x kmem_scheme \<Rightarrow> 'x kmem_scheme \<Rightarrow> u64 \<Rightarrow> bool" where
  "pt_step s t pt \<longleftrightarrow> pt_ok t pt \<and> kmem_frame s t \<and> free_pages t \<subseteq> free_pages s
     \<and> tables (mem t) pt = tables (mem s) pt \<union> (free_pages s - free_pages t)
     \<and> (\<forall>x. PGROUNDDOWN x \<notin> tables (mem s) pt \<union> free_pages s \<longrightarrow> mem t x = mem s x)"

lemma pt_step_refl: "pt_ok s pt \<Longrightarrow> pt_step s s pt"
  by (simp add: pt_step_def)

lemma pt_step_trans: "pt_step s t pt \<Longrightarrow> pt_step t u pt \<Longrightarrow> pt_step s u pt"
  unfolding pt_step_def by (auto intro: kmem_frame_trans)

text \<open>
  The state in which \<open>walk\<close> has allocated \<open>page\<close>, cleared it and stored a pointer to it in
  the empty slot \<open>i\<close> of the table \<open>q\<close>: \<open>s\<close> before the allocation, \<open>t\<close> after it, \<open>m\<close> the
  memory at the end.
\<close>

definition linking ::
  "'x kmem_scheme \<Rightarrow> 'x kmem_scheme \<Rightarrow> u64 \<Rightarrow> u64 list \<Rightarrow> u64 \<Rightarrow> u64 \<Rightarrow> u64 \<Rightarrow> memory \<Rightarrow> bool" where
  "linking s t pt path q i page m \<longleftrightarrow>
     pt_ok s pt \<and> indices 1 path \<and> node (mem s) pt path = Some q \<and> unat i < 512
     \<and> \<not> bit (load64 (mem s) (pte_addr q i)) 0
     \<and> kmem_frame s t \<and> kmem_ok t \<and> free_pages t = free_pages s - {page}
     \<and> page \<in> free_pages s \<and> valid_page s page \<and> same_outside (mem s) (mem t) page
     \<and> m = store64 (memset (mem t) page 0 4096) (pte_addr q i) (PA2PTE page OR PTE_V)"

lemma linking_facts:
  assumes "linking s t pt path q i page m"
  shows "q \<in> tables (mem s) pt" "page_aligned q" "page_aligned page" "page \<notin> tables (mem s) pt"
    "indices 2 (path @ [i])" "node (mem s) pt (path @ [i]) = None"
proof -
  show q: "q \<in> tables (mem s) pt"
    using assms by (intro tablesI [of path]) (auto simp: linking_def indices_def)
  then show "page_aligned q" using assms pt_ok_table by (auto simp: linking_def)
  show "page_aligned page" using assms by (simp add: linking_def valid_page_def)
  show "page \<notin> tables (mem s) pt" using assms by (auto simp: linking_def dest: pt_ok_table)
  show "indices 2 (path @ [i])" using assms by (auto simp: linking_def indices_def)
  show "node (mem s) pt (path @ [i]) = None" using assms by (simp add: linking_def node_snoc)
qed

lemma linking_old_entries:
  assumes L: "linking s t pt path q i page m"
    and "p \<in> tables (mem s) pt" "unat j < 512" "(p, j) \<noteq> (q, i)"
  shows "load64 m (pte_addr p j) = load64 (mem s) (pte_addr p j)"
proof -
  have "pt_ok s pt" "unat i < 512" "same_outside (mem s) (mem t) page"
    and m: "m = store64 (memset (mem t) page 0 4096) (pte_addr q i) (PA2PTE page OR PTE_V)"
    using L by (simp_all add: linking_def)
  then have p: "page_aligned p" "p \<noteq> page"
    using assms(2) linking_facts(4) [OF L] by (auto dest: pt_ok_table)
  have "pte_addr q i \<noteq> pte_addr p j"
    using assms(3,4) \<open>unat i < 512\<close> p linking_facts(2) [OF L] by (auto simp: pte_addr_inject)
  then have "load64 m (pte_addr p j) = load64 (memset (mem t) page 0 4096) (pte_addr p j)"
    unfolding m using assms(3) \<open>unat i < 512\<close> p linking_facts(2) [OF L]
    by (simp add: load64_store64_other aligned8_pte_addr)
  also have "\<dots> = load64 (mem t) (pte_addr p j)"
    using assms(3) p linking_facts(3) [OF L]
    by (simp add: load64_memset_other aligned8_pte_addr page_of_pte_addr)
  also have "\<dots> = load64 (mem s) (pte_addr p j)"
    using assms(3) p \<open>same_outside (mem s) (mem t) page\<close>
    by (simp add: load64_same_outside aligned8_pte_addr page_of_pte_addr)
  finally show ?thesis .
qed

lemma linking_new_entry:
  assumes L: "linking s t pt path q i page m"
  shows "bit (load64 m (pte_addr q i)) 0" "PTE2PA (load64 m (pte_addr q i)) = page"
proof -
  show "bit (load64 m (pte_addr q i)) 0" using L by (simp add: linking_def bit_PA2PTE_flag)
  have "unat page < 2 ^ 56" using L by (simp add: linking_def valid_page_def word_less_nat_alt)
  then show "PTE2PA (load64 m (pte_addr q i)) = page"
    using L linking_facts(3) [OF L] by (simp add: linking_def PTE2PA_PA2PTE)
qed

lemma linking_zero_entries:
  assumes L: "linking s t pt path q i page m" and "unat j < 512"
  shows "load64 m (pte_addr page j) = 0"
proof -
  have "page \<noteq> q" using linking_facts(1,4) [OF L] by auto
  moreover have "unat i < 512" "m = store64 (memset (mem t) page 0 4096) (pte_addr q i) (PA2PTE page OR PTE_V)"
    using L by (simp_all add: linking_def)
  ultimately have "load64 m (pte_addr page j) = load64 (memset (mem t) page 0 4096) (pte_addr page j)"
    using assms(2) linking_facts(2,3) [OF L]
    by (simp add: load64_store64_other aligned8_pte_addr pte_addr_inject)
  then show ?thesis
    using assms linking_facts(3) [OF L] by (simp add: load64_memset_zero aligned8_pte_addr page_of_pte_addr)
qed

lemma linking_nodes:
  assumes L: "linking s t pt path q i page m"
  shows "indices 2 is \<Longrightarrow> node m pt is = (if is = path @ [i] then Some page else node (mem s) pt is)"
proof (rule node_link [OF _ _ _ _ _ linking_old_entries [OF L] linking_new_entry [OF L] linking_zero_entries [OF L]])
  show "pt_inj (mem s) pt" "indices 1 path" "node (mem s) pt path = Some q" "unat i < 512"
    "\<not> bit (load64 (mem s) (pte_addr q i)) 0"
    using L by (simp_all add: linking_def pt_ok_def)
qed

lemma linking_tables:
  assumes L: "linking s t pt path q i page m"
  shows "tables m pt = insert page (tables (mem s) pt)" "pt_inj m pt"
proof -
  note nodes = linking_nodes [OF L] and facts = linking_facts [OF L]
  have sub: "r \<in> tables m pt" if r: "r \<in> tables (mem s) pt" for r
  proof -
    obtain "is" where "indices 2 is" "node (mem s) pt is = Some r" using r by (auto simp: tables_def)
    then show ?thesis using nodes [of "is"] facts(6) by (intro tablesI [of "is"]) auto
  qed
  have "page \<in> tables m pt" using nodes facts(5) by (intro tablesI [of "path @ [i]"]) auto
  moreover have "r \<in> insert page (tables (mem s) pt)" if r: "r \<in> tables m pt" for r
  proof -
    obtain "is" where "indices 2 is" "node m pt is = Some r" using r by (auto simp: tables_def)
    then show ?thesis using nodes [of "is"] tablesI [of "is" "mem s" pt r] by (auto split: if_splits)
  qed
  ultimately show "tables m pt = insert page (tables (mem s) pt)" using sub by blast
  show "pt_inj m pt"
    unfolding pt_inj_def
  proof (intro allI impI)
    fix "is" js r
    assume *: "indices 2 is" "indices 2 js" "node m pt is = Some r" "node m pt js = Some r"
    have fresh: "r \<noteq> page" if "node (mem s) pt ks = Some r" "indices 2 ks" for ks
      using that facts(4) tablesI by metis
    have inj: "pt_inj (mem s) pt" using L by (simp add: linking_def pt_ok_def)
    show "is = js"
      using * nodes [of "is"] nodes [of js] fresh [of "is"] fresh [of js] pt_inj_D [OF inj, of "is" js r]
      by (simp split: if_splits)
  qed
qed

lemma linking_mem:
  assumes L: "linking s t pt path q i page m" and x: "PGROUNDDOWN x \<notin> {q, page}"
  shows "m x = mem s x"
proof -
  have "m x = memset (mem t) page 0 4096 x"
    using same_outside_store64 [of "pte_addr q i" q] x L linking_facts [OF L]
    by (auto simp: linking_def same_outside_def aligned8_pte_addr page_of_pte_addr)
  then show ?thesis
    using x L same_outside_memset [of page] linking_facts(3) [OF L]
    by (auto simp: linking_def same_outside_def)
qed

lemma linking_kmem:
  assumes L: "linking s t pt path q i page m"
  shows "kmem_ok (t\<lparr>mem := m\<rparr>)" "free_pages (t\<lparr>mem := m\<rparr>) = free_pages s - {page}"
proof -
  have "m x = mem t x" if "PGROUNDDOWN x \<in> free_pages t" for x
  proof -
    have "q \<notin> free_pages s" using L linking_facts(1) [OF L] by (auto simp: linking_def dest: pt_ok_table)
    then have "PGROUNDDOWN x \<notin> {q, page}" using that L by (auto simp: linking_def)
    then show ?thesis using linking_mem [OF L] L by (auto simp: linking_def same_outside_def)
  qed
  with kmem_ok_frame [of t m] L
  show "kmem_ok (t\<lparr>mem := m\<rparr>)" "free_pages (t\<lparr>mem := m\<rparr>) = free_pages s - {page}"
    by (auto simp: linking_def)
qed

lemma linking_pte_of:
  assumes L: "linking s t pt path q i page m"
  shows "pte_of m pt = pte_of (mem s) pt"
proof (rule ext)
  fix va
  have "p \<noteq> q" if p: "node (mem s) pt (vpath va) = Some p" for p
  proof
    assume "p = q"
    then have "vpath va = path"
      using p L by (intro pt_inj_D [of "mem s" pt _ _ q]) (auto simp: linking_def pt_ok_def indices_def vpath_def unat_PX_less)
    then show False using L by (auto simp: linking_def indices_def vpath_def)
  qed
  then show "pte_of m pt va = pte_of (mem s) pt va"
    using linking_facts(6) [OF L] linking_zero_entries [OF L unat_PX_less]
    by (auto simp: pte_of_def linking_nodes [OF L] unat_PX_less split: option.split
        intro!: linking_old_entries [OF L] tablesI [of "vpath va"])
qed

lemma linking_step:
  assumes L: "linking s t pt path q i page m"
  shows "pt_step s (t\<lparr>mem := m\<rparr>) pt"
proof -
  have fr: "kmem_frame s (t\<lparr>mem := m\<rparr>)"
    using L by (auto simp: linking_def intro: kmem_frame_trans)
  note valid = kmem_frame_valid [OF fr]
  have "pt_ok (t\<lparr>mem := m\<rparr>) pt"
    using L linking_kmem [OF L] linking_tables [OF L] valid linking_facts(4) [OF L]
    by (auto simp: pt_ok_def linking_def)
  moreover have "m x = mem s x" if "PGROUNDDOWN x \<notin> tables (mem s) pt \<union> free_pages s" for x
    using that linking_facts(1) [OF L] L by (intro linking_mem [OF L]) (auto simp: linking_def)
  ultimately show ?thesis
    using fr linking_kmem [OF L] linking_tables [OF L] L by (auto simp: pt_step_def linking_def)
qed

lemma walk_level_alloc:
  assumes "pt_ok s pt" "level \<le> 2" "node (mem s) pt (take (2 - level) (vpath va)) = Some q"
  shows "wpK (walk_level level q va True) (\<lambda>a t. pt_step s t pt \<and> pte_of (mem t) pt = pte_of (mem s) pt
    \<and> (if a = 0 then free_pages t = {} else
        \<exists>r. node (mem t) pt (vpath va) = Some r \<and> a = pte_addr r (PX 0 va))) s"
  using assms
proof (induction level arbitrary: s q)
  case 0
  have "vpath va = take (2 - 0) (vpath va)" by (simp add: vpath_def)
  then have n: "node (mem s) pt (vpath va) = Some q" using "0.prems"(3) by metis
  then have "q \<in> tables (mem s) pt" by (intro tablesI [of "vpath va"]) auto
  then have "PGROUNDDOWN (pte_addr q (PX 0 va)) = q" "q \<noteq> 0"
    using pt_ok_table [OF "0.prems"(1)] by (simp_all add: page_of_pte_addr unat_PX_less)
  then have "pte_addr q (PX 0 va) \<noteq> 0" by (auto simp: PGROUNDDOWN_def)
  with n show ?case using pt_step_refl [OF "0.prems"(1)] by (simp add: wp)
next
  case (Suc level)
  let ?path = "take (2 - Suc level) (vpath va)" and ?i = "PX (Suc level) va"
  have path: "take (2 - level) (vpath va) = ?path @ [?i]"
    using Suc.prems(2) by (cases level) (auto simp: vpath_def numeral_2_eq_2)
  have ix: "indices 1 ?path" using Suc.prems(2) by (auto simp: indices_def vpath_def take_Cons' unat_PX_less)
  let ?v = "load64 (mem s) (pte_addr q ?i)"
  have V: "?v AND PTE_V \<noteq> 0 \<longleftrightarrow> bit ?v 0" by (rule flag_bits)
  let ?Q = "\<lambda>a t. pt_step s t pt \<and> pte_of (mem t) pt = pte_of (mem s) pt
    \<and> (if a = 0 then free_pages t = {} else
        \<exists>r. node (mem t) pt (vpath va) = Some r \<and> a = pte_addr r (PX 0 va))"
  show ?case
  proof (cases "bit ?v 0")
    case True
    then have "wpK (walk_level level (PTE2PA ?v) va True) ?Q s"
      using Suc.prems path by (intro Suc.IH) (simp_all add: node_snoc)
    then show ?thesis using True V by (simp add: wp Let_def del: PTE_V_def)
  next
    case False
    let ?link = "\<lambda>page. thenK (zero_page page)
      (thenK (write64 (pte_addr q ?i) (PA2PTE page OR PTE_V)) (walk_level level page va True))"
    have "wpK kalloc (\<lambda>page. wpK (if page = 0 then returnK 0 else ?link page) ?Q) s"
    proof (rule wpK_mono [OF kalloc_fresh], use Suc.prems(1) in \<open>simp add: pt_ok_def\<close>, elim conjE)
      fix page t
      assume a: "kmem_frame s t" "kmem_ok t" "free_pages t = free_pages s - {page}"
        "page = 0 \<longrightarrow> t = s \<and> free_pages s = {}"
        "page \<noteq> 0 \<longrightarrow> page \<in> free_pages s \<and> valid_page s page \<and> same_outside (mem s) (mem t) page"
      show "wpK (if page = 0 then returnK 0 else ?link page) ?Q t"
      proof (cases "page = 0")
        case True
        then show ?thesis using a pt_step_refl [OF Suc.prems(1)] by (simp add: wp)
      next
        case pn: False
        define m where "m = store64 (memset (mem t) page 0 4096) (pte_addr q ?i) (PA2PTE page OR PTE_V)"
        have L: "linking s t pt ?path q ?i page m"
          using a pn Suc.prems ix False unfolding linking_def m_def by (auto simp: unat_PX_less)
        have "wpK (walk_level level page va True) (\<lambda>a u. pt_step (t\<lparr>mem := m\<rparr>) u pt
            \<and> pte_of (mem u) pt = pte_of (mem (t\<lparr>mem := m\<rparr>)) pt
            \<and> (if a = 0 then free_pages u = {} else
              \<exists>r. node (mem u) pt (vpath va) = Some r \<and> a = pte_addr r (PX 0 va))) (t\<lparr>mem := m\<rparr>)"
          using Suc.prems linking_step [OF L] linking_nodes [OF L linking_facts(5) [OF L]] path
          by (intro Suc.IH) (auto simp: pt_step_def)
        then have "wpK (walk_level level page va True) ?Q (t\<lparr>mem := m\<rparr>)"
          by (rule wpK_mono) (use linking_step [OF L] linking_pte_of [OF L] in \<open>auto intro: pt_step_trans\<close>)
        then show ?thesis using pn by (simp add: wp m_def)
      qed
    qed
    then show ?thesis using False V by (simp add: wp Let_def del: PTE_V_def)
  qed
qed

lemma walk_alloc:
  assumes "pt_ok s pt" "va < MAXVA"
  shows "wpK (walk pt va True) (\<lambda>a t. pt_step s t pt \<and> pte_of (mem t) pt = pte_of (mem s) pt
    \<and> (if a = 0 then free_pages t = {} else
        \<exists>r. node (mem t) pt (vpath va) = Some r \<and> a = pte_addr r (PX 0 va))) s"
proof -
  have eq: "walk pt va True = walk_level 2 pt va True"
    using assms(2) by (auto simp: walk_def simp del: MAXVA_def)
  show ?thesis unfolding eq by (rule walk_level_alloc) (use assms in simp_all)
qed

section \<open>Setting a leaf entry\<close>

lemma same_index_iff:
  assumes "va < MAXVA" "va' < MAXVA"
  shows "vpath va = vpath va' \<and> PX 0 va = PX 0 va' \<longleftrightarrow> PGROUNDDOWN va = PGROUNDDOWN va'"
  using assms sv39_same_page [of va va'] PX_cong [of _ va va'] by (auto simp: vpath_def)

lemma set_leaf:
  fixes s :: "'x kmem_scheme" and v :: u64
  assumes ok: "pt_ok s pt" and n: "node (mem s) pt (vpath va) = Some q" and va: "va < MAXVA"
  defines "t \<equiv> s\<lparr>mem := store64 (mem s) (pte_addr q (PX 0 va)) v\<rparr>"
  shows "pt_step s t pt" "free_pages t = free_pages s"
    "pte_of (mem t) pt = (\<lambda>x. if x < MAXVA \<and> PGROUNDDOWN x = PGROUNDDOWN va then v else pte_of (mem s) pt x)"
    "\<And>x. PGROUNDDOWN x \<noteq> q \<Longrightarrow> mem t x = mem s x"
    "\<And>is. indices 2 is \<Longrightarrow> node (mem t) pt is = node (mem s) pt is"
proof -
  let ?a = "pte_addr q (PX 0 va)"
  have q: "q \<in> tables (mem s) pt" using n by (intro tablesI [of "vpath va"]) auto
  then have qa: "page_aligned q" "q \<notin> free_pages s" using pt_ok_table [OF ok] by auto
  then have a: "aligned8 ?a" "PGROUNDDOWN ?a = q" by (simp_all add: aligned8_pte_addr page_of_pte_addr unat_PX_less)
  have new: "load64 (mem t) ?a = v" by (simp add: t_def)
  show out: "mem t x = mem s x" if "PGROUNDDOWN x \<noteq> q" for x
    using same_outside_store64 [OF a] that by (simp add: t_def same_outside_def)
  have other: "load64 (mem t) (pte_addr p j) = load64 (mem s) (pte_addr p j)"
    if "p \<in> tables (mem s) pt" "unat j < 512" "(p, j) \<noteq> (q, PX 0 va)" for p j
  proof -
    have "page_aligned p" using that(1) pt_ok_table [OF ok] by simp
    then have "?a \<noteq> pte_addr p j" "aligned8 (pte_addr p j)"
      using that(2,3) qa(1) by (auto simp: pte_addr_inject unat_PX_less aligned8_pte_addr)
    then show ?thesis using a(1) by (simp add: t_def load64_store64_other)
  qed
  show nodes: "node (mem t) pt is = node (mem s) pt is" if "indices 2 is" for "is"
  proof (rule node_frame [OF _ that])
    fix js p j
    assume js: "indices 1 js" "node (mem s) pt js = Some p" "unat (j :: u64) < 512"
    then have "js \<noteq> vpath va" and j2: "indices 2 js" by (auto simp: indices_def vpath_def)
    then have "p \<noteq> q" using n js(2) ok pt_inj_D [of "mem s" pt js "vpath va" q] by (auto simp: pt_ok_def)
    then show "load64 (mem t) (pte_addr p j) = load64 (mem s) (pte_addr p j)"
      using js tablesI [OF j2 js(2)] by (intro other) auto
  qed
  then have tab: "tables (mem t) pt = tables (mem s) pt" and inj: "pt_inj (mem t) pt"
    using ok by (auto simp: tables_def pt_ok_def pt_inj_def)
  have "kmem_ok t \<and> free_pages t = free_pages s"
  proof -
    have "mem t x = mem s x" if "PGROUNDDOWN x \<in> free_pages s" for x
      using that qa(2) by (intro out) auto
    then show ?thesis using ok unfolding t_def by (intro kmem_ok_frame) (auto simp: pt_ok_def)
  qed
  moreover have "kmem_frame s t" "valid_page t = valid_page s"
    by (simp_all add: t_def valid_page_def fun_eq_iff)
  moreover have "mem t x = mem s x" if "PGROUNDDOWN x \<notin> tables (mem s) pt \<union> free_pages s" for x
    using that q by (intro out) auto
  ultimately show "free_pages t = free_pages s" and "pt_step s t pt"
    using tab inj ok by (auto simp: pt_step_def pt_ok_def)
  show "pte_of (mem t) pt = (\<lambda>x. if x < MAXVA \<and> PGROUNDDOWN x = PGROUNDDOWN va then v else pte_of (mem s) pt x)"
  proof
    fix x
    show "pte_of (mem t) pt x = (if x < MAXVA \<and> PGROUNDDOWN x = PGROUNDDOWN va then v else pte_of (mem s) pt x)"
    proof (cases "x < MAXVA")
      case True
      note same = same_index_iff [OF True va]
      show ?thesis
      proof (cases "node (mem s) pt (vpath x)")
        case None
        then show ?thesis using True same n by (auto simp: pte_of_def nodes leD simp del: MAXVA_def)
      next
        case (Some p)
        have "p = q \<longleftrightarrow> vpath x = vpath va"
          using Some n ok pt_inj_D [of "mem s" pt "vpath x" "vpath va" q] by (auto simp: pt_ok_def)
        then show ?thesis
          using True same Some other [of p "PX 0 x"] tablesI [OF indices_vpath Some] unat_PX_less [of 0 x]
          by (auto simp: pte_of_def nodes leD new simp del: MAXVA_def)
      qed
    qed (auto simp: pte_of_def)
  qed
qed

section \<open>\<open>mappages\<close>\<close>

lemma pte_of_node:
  "va < MAXVA \<Longrightarrow> node m pt (vpath va) = Some q \<Longrightarrow> load64 m (pte_addr q (PX 0 va)) = pte_of m pt va"
  by (auto simp: pte_of_def)

lemma in_page_iff:
  assumes "page_aligned a" "unat a + 4096 \<le> 2 ^ 64"
  shows "PGROUNDDOWN x = a \<longleftrightarrow> unat a \<le> unat x \<and> unat x < unat a + 4096"
proof -
  obtain q where q: "unat a = 4096 * q" using assms(1) by (auto simp: page_aligned_def elim: dvdE)
  have "PGROUNDDOWN x = a \<longleftrightarrow> unat x div 4096 = q"
    by (simp add: word_unat_eq_iff unat_PGROUNDDOWN q)
  also have "\<dots> \<longleftrightarrow> 4096 * q \<le> unat x \<and> unat x < 4096 * q + 4096"
    using times_div_less_eq_dividend [of 4096 "unat x"] dividend_less_times_div [of 4096 "unat x"]
    by (auto intro: div_nat_eqI)
  finally show ?thesis by (simp add: q)
qed

text \<open>The address space in which \<open>n\<close> pages from \<open>a\<close> on map to the pages from \<open>pa\<close> on.\<close>

definition map_range :: "(u64 \<Rightarrow> u64) \<Rightarrow> u64 \<Rightarrow> nat \<Rightarrow> u64 \<Rightarrow> u64 \<Rightarrow> u64 \<Rightarrow> u64" where
  "map_range f a n pa perm =
     (\<lambda>x. if unat a \<le> unat x \<and> unat x < unat a + 4096 * n
          then PA2PTE (pa + (PGROUNDDOWN x - a)) OR perm OR PTE_V else f x)"

lemma map_range_0 [simp]: "map_range f a 0 pa perm = f"
  by (auto simp: map_range_def fun_eq_iff)

lemma map_range_Suc:
  assumes "page_aligned a" "unat a + 4096 < 2 ^ 64"
  shows "map_range (map_range f a 1 pa perm) (a + PGSIZE) n (pa + PGSIZE) perm
    = map_range f a (Suc n) pa perm"
proof
  fix x
  have "unat (a + PGSIZE) = unat a + 4096" using assms(2) by (simp add: unat_word_ariths)
  then show "map_range (map_range f a 1 pa perm) (a + PGSIZE) n (pa + PGSIZE) perm x
    = map_range f a (Suc n) pa perm x"
    by (auto simp: map_range_def algebra_simps)
qed

lemma map_range_1:
  assumes "page_aligned a" "unat a + 4096 \<le> 2 ^ 38"
  shows "map_range f a 1 pa perm
    = (\<lambda>x. if x < MAXVA \<and> PGROUNDDOWN x = PGROUNDDOWN a then PA2PTE pa OR perm OR PTE_V else f x)"
proof
  fix x
  have "PGROUNDDOWN x = PGROUNDDOWN a \<longleftrightarrow> unat a \<le> unat x \<and> unat x < unat a + 4096"
    using in_page_iff [OF assms(1), of x] assms page_aligned_self by simp
  then show "map_range f a 1 pa perm x
    = (if x < MAXVA \<and> PGROUNDDOWN x = PGROUNDDOWN a then PA2PTE pa OR perm OR PTE_V else f x)"
    using assms by (auto simp: map_range_def unat_MAXVA page_aligned_self simp del: MAXVA_def)
qed

lemma map_one:
  assumes "pt_ok s pt" "page_aligned a" "unat a + 4096 \<le> 2 ^ 38" "\<not> bit (pte_of (mem s) pt a) 0"
  shows "wpK (walk pt a True) (\<lambda>pte t.
    if pte = 0 then pt_step s t pt \<and> pte_of (mem t) pt = pte_of (mem s) pt \<and> free_pages t = {}
    else load64 (mem t) pte AND PTE_V = 0 \<and>
      pt_step s (t\<lparr>mem := store64 (mem t) pte (PA2PTE pa OR perm OR PTE_V)\<rparr>) pt \<and>
      pte_of (store64 (mem t) pte (PA2PTE pa OR perm OR PTE_V)) pt
        = map_range (pte_of (mem s) pt) a 1 pa perm) s"
proof -
  have a: "a < MAXVA" using assms(3) by (simp add: unat_MAXVA del: MAXVA_def)
  show ?thesis
  proof (rule wpK_mono [OF walk_alloc [OF assms(1) a]], elim conjE)
    fix pte t
    assume t: "pt_step s t pt" "pte_of (mem t) pt = pte_of (mem s) pt"
      "if pte = 0 then free_pages t = {} else \<exists>r. node (mem t) pt (vpath a) = Some r \<and> pte = pte_addr r (PX 0 a)"
    let ?v = "PA2PTE pa OR perm OR PTE_V"
    have "load64 (mem t) pte AND PTE_V = 0 \<and> pt_step s (t\<lparr>mem := store64 (mem t) pte ?v\<rparr>) pt \<and>
        pte_of (store64 (mem t) pte ?v) pt = map_range (pte_of (mem s) pt) a 1 pa perm" if nz: "pte \<noteq> 0"
    proof -
      obtain r where r: "node (mem t) pt (vpath a) = Some r" "pte = pte_addr r (PX 0 a)" using t(3) nz by auto
      have "\<not> bit (load64 (mem t) pte) 0" using assms(4) t(2) r a by (simp only: pte_of_node not_False_eq_True)
      then have "load64 (mem t) pte AND PTE_V = 0" using flag_bits(1) by blast
      moreover have ok: "pt_ok t pt" using t(1) by (simp add: pt_step_def)
      have "pt_step s (t\<lparr>mem := store64 (mem t) pte ?v\<rparr>) pt"
        using pt_step_trans [OF t(1) set_leaf(1) [OF ok r(1) a]] r(2) by simp
      moreover have "pte_of (mem (t\<lparr>mem := store64 (mem t) pte ?v\<rparr>)) pt = map_range (pte_of (mem s) pt) a 1 pa perm"
        unfolding r(2) map_range_1 [OF assms(2,3)] set_leaf(3) [OF ok r(1) a] t(2) ..
      then have "pte_of (store64 (mem t) pte ?v) pt = map_range (pte_of (mem s) pt) a 1 pa perm"
        by simp
      ultimately show ?thesis by blast
    qed
    then show "if pte = 0 then pt_step s t pt \<and> pte_of (mem t) pt = pte_of (mem s) pt \<and> free_pages t = {}
      else load64 (mem t) pte AND PTE_V = 0 \<and> pt_step s (t\<lparr>mem := store64 (mem t) pte ?v\<rparr>) pt \<and>
        pte_of (store64 (mem t) pte ?v) pt = map_range (pte_of (mem s) pt) a 1 pa perm"
      using t by simp
  qed
qed

lemma mappages_loop_unfold:
  "mappages_loop pt a lst pa perm =
     bindK (walk pt a True) (\<lambda>pte.
       if pte = 0 then returnK (- 1)
       else bindK (read64 pte) (\<lambda>v.
         if v AND PTE_V \<noteq> 0 then panicK ''mappages: remap''
         else thenK (write64 pte (PA2PTE pa OR perm OR PTE_V))
                (if a = lst then returnK 0
                 else mappages_loop pt (a + PGSIZE) lst (pa + PGSIZE) perm)))"
  by (rule ext) (rule mappages_loop.simps)

lemma mappages_loop_step:
  fixes s :: "'x kmem_scheme"
  assumes "pt_ok s pt" "page_aligned a" "unat a + 4096 \<le> 2 ^ 38" "\<not> bit (pte_of (mem s) pt a) 0"
    and fail: "\<And>t. pt_step s t pt \<Longrightarrow> pte_of (mem t) pt = pte_of (mem s) pt \<Longrightarrow> free_pages t = {} \<Longrightarrow> Q (- 1) t"
    and cont: "\<And>u. pt_step s u pt \<Longrightarrow> pte_of (mem u) pt = map_range (pte_of (mem s) pt) a 1 pa perm \<Longrightarrow>
      wpK (if a = lst then returnK 0 else mappages_loop pt (a + PGSIZE) lst (pa + PGSIZE) perm) Q u"
  shows "wpK (mappages_loop pt a lst pa perm) Q s"
  unfolding mappages_loop_unfold [of pt a] wpK_bindK
proof (rule wpK_mono [OF map_one [OF assms(1-4), of pa perm]])
  fix pte and t :: "'x kmem_scheme"
  let ?u = "t\<lparr>mem := store64 (mem t) pte (PA2PTE pa OR perm OR PTE_V)\<rparr>"
  assume *: "if pte = 0 then pt_step s t pt \<and> pte_of (mem t) pt = pte_of (mem s) pt \<and> free_pages t = {}
    else load64 (mem t) pte AND PTE_V = 0 \<and> pt_step s ?u pt \<and>
      pte_of (store64 (mem t) pte (PA2PTE pa OR perm OR PTE_V)) pt
        = map_range (pte_of (mem s) pt) a 1 pa perm"
  show "wpK (if pte = 0 then returnK (- 1) else bindK (read64 pte) (\<lambda>v.
      if v AND PTE_V \<noteq> 0 then panicK ''mappages: remap''
      else thenK (write64 pte (PA2PTE pa OR perm OR PTE_V))
        (if a = lst then returnK 0 else mappages_loop pt (a + PGSIZE) lst (pa + PGSIZE) perm))) Q t"
  proof (cases "pte = 0")
    case True
    then show ?thesis using * fail [of t] by (simp add: wp)
  next
    case False
    then have "wpK (if a = lst then returnK 0 else mappages_loop pt (a + PGSIZE) lst (pa + PGSIZE) perm) Q ?u"
      using * by (intro cont) simp_all
    moreover have "load64 (mem t) pte AND PTE_V = 0" using False * by simp
    ultimately show ?thesis
      using False by (simp only: if_False wpK_bindK wpK_thenK wpK_read64 wpK_write64 simp_thms)
  qed
qed

lemma mappages_loop_wp:
  assumes "pt_ok s pt" "page_aligned a" "unat a + 4096 * Suc n \<le> 2 ^ 38"
    and "unat lst = unat a + 4096 * n"
    and "\<And>x. unat a \<le> unat x \<Longrightarrow> unat x < unat a + 4096 * Suc n \<Longrightarrow> \<not> bit (pte_of (mem s) pt x) 0"
  shows "wpK (mappages_loop pt a lst pa perm) (\<lambda>r t. pt_step s t pt \<and>
    (\<exists>k. pte_of (mem t) pt = map_range (pte_of (mem s) pt) a k pa perm \<and>
      (r = 0 \<and> k = Suc n \<or> r = - 1 \<and> k \<le> n \<and> free_pages t = {}))) s"
  using assms
proof (induction n arbitrary: a pa s)
  case (0 a pa s)
  have "a = lst" using "0.prems"(4) by (simp add: word_unat_eq_iff)
  have "unat a + 4096 \<le> 2 ^ 38" "\<not> bit (pte_of (mem s) pt a) 0" using "0.prems"(3,5) by auto
  with "0.prems"(1,2) show ?case
  proof (rule mappages_loop_step, goal_cases)
    case (1 t)
    then show ?case by (intro conjI exI [of _ 0]) simp_all
  next
    case (2 u)
    then show ?case unfolding \<open>a = lst\<close> by (simp add: wp)
  qed
next
  case (Suc n a pa s)
  have ne: "a \<noteq> lst" using Suc.prems(4) by auto
  have small: "unat a + 4096 < 2 ^ 64" using Suc.prems(3) by simp
  then have nx: "unat (a + PGSIZE) = unat a + 4096" by (simp add: unat_word_ariths)
  let ?Q = "\<lambda>s a pa n r t. pt_step s t pt \<and>
    (\<exists>k. pte_of (mem t) pt = map_range (pte_of (mem s) pt) a k pa perm \<and>
      (r = 0 \<and> k = Suc n \<or> r = - 1 \<and> k \<le> n \<and> free_pages t = {}))"
  have nxt: "wpK (mappages_loop pt (a + PGSIZE) lst (pa + PGSIZE) perm) (?Q s a pa (Suc n)) u"
    if u: "pt_step s u pt" "pte_of (mem u) pt = map_range (pte_of (mem s) pt) a 1 pa perm" for u
  proof (rule wpK_mono [OF Suc.IH])
    show "pt_ok u pt" using u(1) by (simp add: pt_step_def)
    show "page_aligned (a + PGSIZE)" using Suc.prems(2) small by (rule page_aligned_next)
    show "unat (a + PGSIZE) + 4096 * Suc n \<le> 2 ^ 38" using Suc.prems(3) nx by simp
    show "unat lst = unat (a + PGSIZE) + 4096 * n" using Suc.prems(4) nx by simp
    fix x :: u64
    assume "unat (a + PGSIZE) \<le> unat x" "unat x < unat (a + PGSIZE) + 4096 * Suc n"
    then show "\<not> bit (pte_of (mem u) pt x) 0" using Suc.prems(5) [of x] nx unfolding u(2) map_range_def by simp
  next
    fix r t
    assume "?Q u (a + PGSIZE) (pa + PGSIZE) n r t"
    then obtain k where k: "pt_step u t pt"
      "pte_of (mem t) pt = map_range (pte_of (mem u) pt) (a + PGSIZE) k (pa + PGSIZE) perm"
      "r = 0 \<and> k = Suc n \<or> r = - 1 \<and> k \<le> n \<and> free_pages t = {}" by blast
    have "pte_of (mem t) pt = map_range (pte_of (mem s) pt) a (Suc k) pa perm"
      unfolding k(2) u(2) by (rule map_range_Suc [OF Suc.prems(2) small])
    with k(1,3) show "?Q s a pa (Suc n) r t"
      using pt_step_trans [OF u(1)] by (intro conjI exI [of _ "Suc k"]) auto
  qed
  have "unat a + 4096 \<le> 2 ^ 38" "\<not> bit (pte_of (mem s) pt a) 0" using Suc.prems(3,5) by auto
  with Suc.prems(1,2) show ?case
  proof (rule mappages_loop_step, goal_cases)
    case (1 t)
    then show ?case by (intro conjI exI [of _ 0]) simp_all
  next
    case (2 u)
    then show ?case using ne nxt by simp
  qed
qed

lemma page_multiple:
  assumes "4096 dvd unat (sz :: u64)" "sz \<noteq> 0"
  obtains n where "unat sz = 4096 * Suc n"
proof -
  obtain k where k: "unat sz = 4096 * k" using assms(1) by (rule dvdE)
  have "unat sz \<noteq> 0" using assms(2) by (simp add: unat_eq_0)
  then have "k \<noteq> 0" unfolding k by simp
  then obtain n where "k = Suc n" by (rule not0_implies_Suc [THEN exE])
  with k show thesis using that by simp
qed

lemma mappages_wp:
  assumes "pt_ok s pt" "page_aligned va" "4096 dvd unat sz" "sz \<noteq> 0" "unat va + unat sz \<le> 2 ^ 38"
    and un: "\<And>x. unat va \<le> unat x \<Longrightarrow> unat x < unat va + unat sz \<Longrightarrow> \<not> bit (pte_of (mem s) pt x) 0"
  shows "wpK (mappages pt va sz pa perm) (\<lambda>r t. pt_step s t pt \<and>
    (\<exists>k. pte_of (mem t) pt = map_range (pte_of (mem s) pt) va k pa perm \<and>
      (r = 0 \<and> 4096 * k = unat sz \<or> r = - 1 \<and> 4096 * k < unat sz \<and> free_pages t = {}))) s"
proof -
  obtain n where n: "unat sz = 4096 * Suc n" using assms(3,4) by (rule page_multiple)
  have "unat (va + sz) = unat va + unat sz" using assms(5) by (simp add: unat_word_ariths)
  then have lst: "unat (va + sz - PGSIZE) = unat va + 4096 * n"
    using n assms(5) by (simp add: unat_sub_if')
  have "sz mod PGSIZE = 0" "va mod PGSIZE = 0"
    using assms(2,3) page_aligned_mod [of sz] page_aligned_mod [of va] by (auto simp: page_aligned_def)
  then have eq: "mappages pt va sz pa perm = mappages_loop pt va (va + sz - PGSIZE) pa perm"
    using assms(4) by (simp add: mappages_def)
  have "wpK (mappages_loop pt va (va + sz - PGSIZE) pa perm) (\<lambda>r t. pt_step s t pt \<and>
    (\<exists>k. pte_of (mem t) pt = map_range (pte_of (mem s) pt) va k pa perm \<and>
      (r = 0 \<and> k = Suc n \<or> r = - 1 \<and> k \<le> n \<and> free_pages t = {}))) s"
    using assms(1,2) by (rule mappages_loop_wp) (use assms(5) n lst un in simp_all)
  then show ?thesis unfolding eq
    by (rule wpK_mono) (use n in auto)
qed

text \<open>C3: on a well-formed page table, \<open>mappages\<close> over an unmapped, page-aligned range below
  \<open>MAXVA\<close> returns, never panics, and changes the address space only by adding the requested
  mappings, in order: all of them when it returns 0, and a proper prefix when it returns -1,
  which it does only when the allocator is out of pages. The table stays well formed, its new
  table pages come from the free list, and nothing but tables and free pages is written.\<close>

theorem mappages_correct:
  assumes "pt_ok s pt" "page_aligned va" "4096 dvd unat sz" "sz \<noteq> 0" "unat va + unat sz \<le> 2 ^ 38"
    and "\<And>x. unat va \<le> unat x \<Longrightarrow> unat x < unat va + unat sz \<Longrightarrow> \<not> bit (pte_of (mem s) pt x) 0"
  shows "\<exists>r t k. mappages pt va sz pa perm s = Inr (r, t) \<and> pt_step s t pt \<and>
    pte_of (mem t) pt = map_range (pte_of (mem s) pt) va k pa perm \<and>
    (r = 0 \<and> 4096 * k = unat sz \<or> r = - 1 \<and> 4096 * k < unat sz \<and> free_pages t = {})"
  using mappages_wp [OF assms, of pa perm] by (rule wpK_obtain) blast+

section \<open>Frames\<close>

lemma load64_zero [simp]: "load64 (\<lambda>_. 0) a = 0"
proof -
  have "read_mem (\<lambda>_. 0) a 8 = replicate 8 0" by (intro nth_equalityI) (auto simp: nth_read_mem)
  then show ?thesis by (simp only: load64_def le_nat_replicate_0) simp
qed

lemma pt_ok_empty:
  assumes "mem s = (\<lambda>_. 0)" "kmem_ok s" "valid_page s pt" "pt \<notin> free_pages s"
  shows "pt_ok s pt" "pte_of (mem s) pt = (\<lambda>_. 0)"
proof -
  have n: "node (mem s) pt is = (if is = [] then Some pt else None)" for "is"
    using assms(1) by (cases "is") simp_all
  show "pt_ok s pt" using assms n by (auto simp: pt_ok_def pt_inj_def tables_def split: if_splits)
  show "pte_of (mem s) pt = (\<lambda>_. 0)" using n by (simp add: pte_of_def fun_eq_iff vpath_def del: node.simps)
qed

lemma kmem_one_facts:
  "kmem_ok kmem_one" "free_pages kmem_one = {0x87FFF000}" "valid_page kmem_one 0x87FFE000"
  "mem kmem_one = (\<lambda>_. 0)"
  using free_pages_one
  by (auto simp: kmem_ok_def free_pages_eq valid_page_def page_aligned_def) (simp_all add: kmem_one_def)

theorem mappages_correct_witness:
  "\<exists>r t k. mappages 0x87FFE000 0x1000 0x2000 0x87654000 (PTE_R OR PTE_U) kmem_one = Inr (r, t)
    \<and> pt_step kmem_one t 0x87FFE000 \<and>
    pte_of (mem t) 0x87FFE000
      = map_range (pte_of (mem kmem_one) 0x87FFE000) 0x1000 k 0x87654000 (PTE_R OR PTE_U) \<and>
    (r = 0 \<and> 4096 * k = unat (0x2000 :: u64) \<or> r = - 1 \<and> 4096 * k < unat (0x2000 :: u64) \<and> free_pages t = {})"
  by (rule mappages_correct)
    (use pt_ok_empty [of kmem_one "0x87FFE000"] kmem_one_facts in \<open>simp_all add: page_aligned_def\<close>)

lemma load64_page_cong:
  assumes "page_aligned p" "unat i < 512" "\<And>x. PGROUNDDOWN x = p \<Longrightarrow> m' x = m x"
  shows "load64 m' (pte_addr p i) = load64 m (pte_addr p i)"
proof (rule load64_cong)
  fix x
  assume "unat (x - pte_addr p i) < 8"
  then have "PGROUNDDOWN x = PGROUNDDOWN (pte_addr p i)"
    by (rule page_of_word [OF aligned8_pte_addr [OF assms(1,2)]])
  then show "m' x = m x" using assms(3) by (simp only: page_of_pte_addr [OF assms(1,2)])
qed

text \<open>A change of memory that leaves the table pages alone leaves the address space alone.\<close>

lemma pt_frame:
  assumes al: "\<And>p. p \<in> tables m pt \<Longrightarrow> page_aligned p"
    and same: "\<And>x. PGROUNDDOWN x \<in> tables m pt \<Longrightarrow> m' x = m x"
  shows "\<And>is. indices 2 is \<Longrightarrow> node m' pt is = node m pt is"
    and "tables m' pt = tables m pt" and "pte_of m' pt = pte_of m pt" and "pt_inj m' pt = pt_inj m pt"
proof -
  have load: "load64 m' (pte_addr p j) = load64 m (pte_addr p j)"
    if p: "p \<in> tables m pt" and j: "unat j < 512" for p j
    by (rule load64_page_cong [OF al [OF p] j]) (use p same in simp)
  show nodes: "node m' pt is = node m pt is" if "indices 2 is" for "is"
  proof (rule node_frame [OF _ that])
    fix js q and j :: u64
    assume "indices 1 js" "node m pt js = Some q" "unat j < 512"
    moreover from this have "indices 2 js" by (simp add: indices_def)
    ultimately show "load64 m' (pte_addr q j) = load64 m (pte_addr q j)"
      by (intro load tablesI)
  qed
  then show "tables m' pt = tables m pt" "pt_inj m' pt = pt_inj m pt"
    unfolding tables_def pt_inj_def by (metis (no_types, lifting))+
  show "pte_of m' pt = pte_of m pt"
  proof
    fix va
    show "pte_of m' pt va = pte_of m pt va"
    proof (cases "node m pt (vpath va)")
      case (Some q)
      then show ?thesis
        using nodes [OF indices_vpath, of va] load [OF tablesI [OF indices_vpath Some] unat_PX_less]
        by (simp add: pte_of_def)
    qed (use nodes [OF indices_vpath, of va] in \<open>simp add: pte_of_def\<close>)
  qed
qed

end
