(* ===== verification/Vm_User.thy ===== *)
theory Vm_User
  imports Vm_Map
begin

text \<open>
  User memory as seen through a page table, and what the copies between kernel and user
  memory and the removal of mappings do to it. \<open>umem\<close> is the byte a user address reads,
  \<open>uspace_ok\<close> the invariant of a user address space: the frames behind user pages are
  pages of RAM, not free, not table pages, and not shared by two user pages.
\<close>

section \<open>User address spaces\<close>

definition user_pte :: "u64 \<Rightarrow> bool" where
  "user_pte v \<longleftrightarrow> bit v 0 \<and> bit v 4"

definition uaddr :: "memory \<Rightarrow> u64 \<Rightarrow> u64 \<Rightarrow> u64 option" where
  "uaddr m pt va = (let v = pte_of m pt va in
     if user_pte v then Some (PTE2PA v + (va - PGROUNDDOWN va)) else None)"

definition umem :: "memory \<Rightarrow> u64 \<Rightarrow> u64 \<Rightarrow> u8 option" where
  "umem m pt va = map_option m (uaddr m pt va)"

definition uwritable :: "memory \<Rightarrow> u64 \<Rightarrow> u64 \<Rightarrow> bool" where
  "uwritable m pt va \<longleftrightarrow> user_pte (pte_of m pt va) \<and> bit (pte_of m pt va) 2"

definition frames_ok :: "'x kmem_scheme \<Rightarrow> u64 \<Rightarrow> bool" where
  "frames_ok s pt \<longleftrightarrow> (\<forall>va. user_pte (pte_of (mem s) pt va) \<longrightarrow>
     valid_page s (PTE2PA (pte_of (mem s) pt va))
     \<and> PTE2PA (pte_of (mem s) pt va) \<notin> tables (mem s) pt \<union> free_pages s
     \<and> (\<forall>va'. user_pte (pte_of (mem s) pt va') \<longrightarrow>
          PTE2PA (pte_of (mem s) pt va') = PTE2PA (pte_of (mem s) pt va) \<longrightarrow>
          PGROUNDDOWN va' = PGROUNDDOWN va))"

definition uspace_ok :: "'x kmem_scheme \<Rightarrow> u64 \<Rightarrow> bool" where
  "uspace_ok s pt \<longleftrightarrow> pt_ok s pt \<and> frames_ok s pt"

lemma frames_okD:
  assumes "frames_ok s pt" "user_pte (pte_of (mem s) pt va)"
  shows "valid_page s (PTE2PA (pte_of (mem s) pt va))"
    "PTE2PA (pte_of (mem s) pt va) \<notin> tables (mem s) pt" "PTE2PA (pte_of (mem s) pt va) \<notin> free_pages s"
    "\<And>va'. user_pte (pte_of (mem s) pt va') \<Longrightarrow>
      PTE2PA (pte_of (mem s) pt va') = PTE2PA (pte_of (mem s) pt va) \<Longrightarrow> PGROUNDDOWN va' = PGROUNDDOWN va"
  using assms unfolding frames_ok_def by blast+

lemma PGROUNDDOWN_idem [simp]: "PGROUNDDOWN (PGROUNDDOWN va) = PGROUNDDOWN va"
  by (simp add: word_unat_eq_iff unat_PGROUNDDOWN)

lemma page_aligned_PGROUNDDOWN [simp]: "page_aligned (PGROUNDDOWN va)"
  by (simp add: page_aligned_def unat_PGROUNDDOWN)

lemma MAXVA_PGROUNDDOWN: "PGROUNDDOWN va < MAXVA \<longleftrightarrow> va < MAXVA"
proof -
  define q where "q = unat va div 4096"
  have e: "(2 :: nat) ^ 38 = 2 ^ 26 * 4096" by simp
  have "q * 4096 < 2 ^ 26 * 4096 \<longleftrightarrow> q < 2 ^ 26" by (simp only: mult_less_cancel2) simp
  also have "\<dots> \<longleftrightarrow> unat va < 2 ^ 26 * 4096" unfolding q_def by (rule div_less_iff_less_mult) simp
  finally have "q * 4096 < 2 ^ 38 \<longleftrightarrow> unat va < 2 ^ 38" unfolding e .
  then show ?thesis unfolding unat_MAXVA unat_PGROUNDDOWN q_def .
qed

lemma pte_of_page: "PGROUNDDOWN va = PGROUNDDOWN va' \<Longrightarrow> pte_of m pt va = pte_of m pt va'"
proof -
  assume *: "PGROUNDDOWN va = PGROUNDDOWN va'"
  then have "va < MAXVA \<longleftrightarrow> va' < MAXVA" using MAXVA_PGROUNDDOWN by metis
  moreover have "vpath va = vpath va'" "PX 0 va = PX 0 va'" using * by (auto simp: vpath_def intro!: PX_cong)
  ultimately show ?thesis by (simp add: pte_of_def not_le [symmetric] del: MAXVA_def split: option.split)
qed

lemma pte_of_MAXVA: "bit (pte_of m pt va) 0 \<Longrightarrow> va < MAXVA"
  by (auto simp: pte_of_def not_le simp del: MAXVA_def split: if_splits)

text \<open>Addresses of one page share the frame and differ by the offset.\<close>

lemma same_page_offset:
  assumes "i < 4096 - unat va mod 4096"
  shows "PGROUNDDOWN (va + word_of_nat i) = PGROUNDDOWN va"
proof -
  define q r where "q = unat va div 4096" and "r = unat va mod 4096"
  have va: "unat va = q * 4096 + r" unfolding q_def r_def by (rule div_mult_mod_eq [symmetric])
  have "q < 2 ^ 52" using unat_lt_u64 [of va] by (simp add: q_def div_less_iff_less_mult)
  then have "Suc q * 4096 \<le> 2 ^ 52 * 4096" by (intro mult_le_mono1) simp
  moreover have i: "r + i < 4096" using assms by (simp add: r_def)
  ultimately have "unat va + i < 2 ^ 64" unfolding va by simp
  then have "unat (va + word_of_nat i) = q * 4096 + (r + i)" using va by (simp add: unat_add_offset)
  then have "unat (va + word_of_nat i) div 4096 = q" using i by simp
  then show ?thesis by (simp add: word_unat_eq_iff unat_PGROUNDDOWN q_def)
qed

lemma frame_offset:
  assumes "page_aligned pa"
  shows "PGROUNDDOWN (pa + (va - PGROUNDDOWN va)) = pa"
    and "unat (pa + (va - PGROUNDDOWN va)) mod 4096 = unat va mod 4096"
proof -
  have off: "unat (va - PGROUNDDOWN va) = unat va mod 4096" by (rule unat_page_offset)
  have pa: "unat pa mod 4096 = 0" using assms by (simp add: page_aligned_def)
  have "va - PGROUNDDOWN va = word_of_nat (unat va mod 4096)" using off by (simp flip: off)
  moreover have "unat va mod 4096 < 4096 - unat pa mod 4096" using pa by simp
  ultimately have p: "PGROUNDDOWN (pa + (va - PGROUNDDOWN va)) = PGROUNDDOWN pa"
    using same_page_offset [of "unat va mod 4096" pa] by simp
  with assms show q: "PGROUNDDOWN (pa + (va - PGROUNDDOWN va)) = pa" by (simp add: page_aligned_self)
  have "unat (pa + (va - PGROUNDDOWN va)) mod 4096
      = unat (pa + (va - PGROUNDDOWN va) - PGROUNDDOWN (pa + (va - PGROUNDDOWN va)))"
    by (simp only: unat_page_offset)
  also have "pa + (va - PGROUNDDOWN va) - PGROUNDDOWN (pa + (va - PGROUNDDOWN va)) = va - PGROUNDDOWN va"
    unfolding q by simp
  finally show "unat (pa + (va - PGROUNDDOWN va)) mod 4096 = unat va mod 4096" by (simp only: off)
qed

lemma next_page_addr: "PGROUNDDOWN va + PGSIZE = va + word_of_nat (4096 - unat va mod 4096)"
proof -
  have "word_of_nat (4096 - unat (va - PGROUNDDOWN va)) = (4096 :: u64) - word_of_nat (unat (va - PGROUNDDOWN va))"
    by (subst of_nat_diff) (simp_all add: unat_page_offset)
  then show ?thesis by (simp add: unat_page_offset [symmetric])
qed

section \<open>Reading entries\<close>

lemma walk_then:
  assumes "pt_ok s pt" "va < MAXVA"
  shows "bindK (walk pt va False) (\<lambda>pte. if pte = 0 then A else bindK (read64 pte) (B pte)) s
    = (case node (mem s) pt (vpath va) of
         None \<Rightarrow> A s
       | Some q \<Rightarrow> B (pte_addr q (PX 0 va)) (pte_of (mem s) pt va) s)"
proof (cases "node (mem s) pt (vpath va)")
  case None
  then show ?thesis using assms(2) by (simp add: bindK_def walk_noalloc del: MAXVA_def)
next
  case (Some q)
  have q: "page_aligned q" "q \<noteq> 0" using pt_ok_table [OF assms(1) tablesI [OF indices_vpath Some]] by auto
  then have "pte_addr q (PX 0 va) \<noteq> 0"
    using page_of_pte_addr [OF q(1) unat_PX_less, of 0 va] by (auto simp: PGROUNDDOWN_def)
  with Some assms(2) show ?thesis
    by (simp add: bindK_def walk_noalloc read64_def getK_def pte_of_node del: MAXVA_def)
qed

lemma pte_of_None: "node m pt (vpath va) = None \<Longrightarrow> pte_of m pt va = 0"
  by (simp add: pte_of_def)

lemma user_pte_flags: "user_pte v \<longleftrightarrow> v AND PTE_V \<noteq> 0 \<and> v AND PTE_U \<noteq> 0"
  unfolding flag_bits user_pte_def ..

lemma walkaddr_eq:
  assumes "pt_ok s pt"
  shows "walkaddr pt va s
    = Inr (if user_pte (pte_of (mem s) pt va) then PTE2PA (pte_of (mem s) pt va) else 0, s)"
proof (cases "va < MAXVA")
  case True
  then show ?thesis
    using pte_of_None [of "mem s" pt va]
    by (auto simp: walkaddr_def walk_then [OF assms] returnK_def user_pte_flags
        simp del: MAXVA_def PTE_V_def PTE_U_def split: option.split)
next
  case False
  then show ?thesis
    using pte_of_MAXVA [of "mem s" pt va] by (auto simp: walkaddr_def returnK_def user_pte_def)
qed

section \<open>Writing user memory\<close>

lemma uwrite:
  assumes ok: "uspace_ok s pt" and u: "user_pte (pte_of (mem s) pt va)"
    and len: "length bs \<le> 4096 - unat va mod 4096"
  defines "pa \<equiv> PTE2PA (pte_of (mem s) pt va)"
  defines "t \<equiv> s\<lparr>mem := write_mem (mem s) (pa + (va - PGROUNDDOWN va)) bs\<rparr>"
  shows "same_outside (mem s) (mem t) pa" "uspace_ok t pt"
    "free_pages t = free_pages s" "tables (mem t) pt = tables (mem s) pt"
    "pte_of (mem t) pt = pte_of (mem s) pt"
    "umem (mem t) pt x
      = (if unat (x - va) < length bs then Some (bs ! unat (x - va)) else umem (mem s) pt x)"
proof -
  let ?a = "pa + (va - PGROUNDDOWN va)"
  have pa: "page_aligned pa" by (simp add: pa_def page_aligned_PTE2PA)
  note fo = frame_offset [OF pa]
  have ok': "pt_ok s pt" "frames_ok s pt" using ok by (simp_all add: uspace_ok_def)
  note fr = frames_okD [OF ok'(2) u, folded pa_def]
  have written: "PGROUNDDOWN y = pa" if y: "unat (y - ?a) < length bs" for y
  proof -
    have "PGROUNDDOWN (?a + word_of_nat (unat (y - ?a))) = PGROUNDDOWN ?a"
      by (rule same_page_offset) (simp only: fo(2) less_le_trans [OF y len])
    then show ?thesis by (simp add: fo(1))
  qed
  show so: "same_outside (mem s) (mem t) pa"
    unfolding same_outside_def
  proof (intro allI impI)
    fix y
    assume "PGROUNDDOWN y \<noteq> pa"
    then have "\<not> unat (y - ?a) < length bs" by (blast dest: written)
    then show "mem t y = mem s y" by (simp add: t_def write_mem_def)
  qed
  have tab: "mem t y = mem s y" if "PGROUNDDOWN y \<in> tables (mem s) pt" for y
    using so that fr(2) by (auto simp: same_outside_def)
  have fre: "mem t y = mem s y" if "PGROUNDDOWN y \<in> free_pages s" for y
    using so that fr(3) by (auto simp: same_outside_def)
  have km: "kmem_ok t" and fp: "free_pages t = free_pages s"
    using kmem_ok_frame [of s "mem t"] fre ok'(1) by (auto simp: t_def pt_ok_def)
  have al: "page_aligned p" if "p \<in> tables (mem s) pt" for p using pt_ok_table [OF ok'(1) that] by simp
  have pf: "tables (mem t) pt = tables (mem s) pt" "pte_of (mem t) pt = pte_of (mem s) pt"
    "pt_inj (mem t) pt = pt_inj (mem s) pt"
    using pt_frame [of "mem s" pt "mem t"] al tab by blast+
  have valid: "valid_page t = valid_page s" by (simp add: t_def valid_page_def fun_eq_iff)
  have "pt_ok t pt" using ok'(1) km fp pf(1,3) valid by (simp add: pt_ok_def)
  moreover have "frames_ok t pt" using ok'(2) unfolding frames_ok_def fp pf(1,2) valid .
  ultimately show "uspace_ok t pt" by (simp add: uspace_ok_def)
  show "free_pages t = free_pages s" by (rule fp)
  show "tables (mem t) pt = tables (mem s) pt" "pte_of (mem t) pt = pte_of (mem s) pt" by (rule pf(1,2))+
  show "umem (mem t) pt x
      = (if unat (x - va) < length bs then Some (bs ! unat (x - va)) else umem (mem s) pt x)"
  proof (cases "unat (x - va) < length bs")
    case True
    have "PGROUNDDOWN (va + word_of_nat (unat (x - va))) = PGROUNDDOWN va"
      by (rule same_page_offset) (rule less_le_trans [OF True len])
    then have x: "PGROUNDDOWN x = PGROUNDDOWN va" by simp
    then have "pte_of (mem s) pt x = pte_of (mem s) pt va" by (rule pte_of_page)
    then have "uaddr (mem t) pt x = Some (pa + (x - PGROUNDDOWN va))"
      using u x by (simp add: uaddr_def pf(2) pa_def Let_def)
    moreover have "pa + (x - PGROUNDDOWN va) - ?a = x - va" by simp
    then have "mem t (pa + (x - PGROUNDDOWN va)) = bs ! unat (x - va)"
      using True by (simp add: t_def write_mem_def)
    ultimately show ?thesis using True by (simp add: umem_def)
  next
    case False
    have ua: "uaddr (mem t) pt x = uaddr (mem s) pt x" by (simp add: uaddr_def pf(2))
    have "mem t y = mem s y" if y: "uaddr (mem s) pt x = Some y" for y
    proof -
      define v where "v = pte_of (mem s) pt x"
      have v: "user_pte v" "y = PTE2PA v + (x - PGROUNDDOWN x)"
        using y by (auto simp: uaddr_def v_def Let_def split: if_splits)
      have "\<not> unat (y - ?a) < length bs"
      proof
        assume w: "unat (y - ?a) < length bs"
        have "PGROUNDDOWN y = PTE2PA v" unfolding v(2) by (rule frame_offset) (rule page_aligned_PTE2PA)
        then have pv: "PTE2PA v = pa" using written [OF w] by simp
        then have "PGROUNDDOWN x = PGROUNDDOWN va" using fr(4) [of x] v(1) by (simp add: v_def)
        then have "y - ?a = x - va" unfolding v(2) pv by simp
        with w False show False by (simp only:)
      qed
      then show ?thesis by (simp add: t_def write_mem_def)
    qed
    then show ?thesis using False ua by (cases "uaddr (mem s) pt x") (simp_all add: umem_def)
  qed
qed

section \<open>\<open>copyout\<close> and \<open>copyin\<close>\<close>

lemma copyout_step:
  assumes "pt_ok s pt" "src \<noteq> []"
  shows "copyout pt va src s =
    (if uwritable (mem s) pt va
     then copyout pt (PGROUNDDOWN va + PGSIZE) (drop (copy_chunk va (length src)) src)
       (s\<lparr>mem := write_mem (mem s) (PTE2PA (pte_of (mem s) pt va) + (va - PGROUNDDOWN va))
                    (take (copy_chunk va (length src)) src)\<rparr>)
     else Inr (- 1, s))"
proof (cases "va < MAXVA")
  case True
  then have va0: "PGROUNDDOWN va < MAXVA" by (simp only: MAXVA_PGROUNDDOWN)
  have W: "v AND PTE_W \<noteq> 0 \<longleftrightarrow> bit v 2" for v by (rule flag_bits)
  show ?thesis
    unfolding copyout.simps [of pt va] Let_def
    using assms(2) va0 pte_of_page [of "PGROUNDDOWN va" va "mem s" pt] pte_of_None [of "mem s" pt "PGROUNDDOWN va"] W
    by (auto simp: walk_then [OF assms(1)] returnK_def uwritable_def user_pte_flags thenK_def
        bindK_def [of "modifyK _"] modifyK_def not_le [symmetric]
        simp del: MAXVA_def PTE_V_def PTE_U_def PTE_W_def PGSIZE_def split: option.split)
next
  case False
  then have "\<not> PGROUNDDOWN va < MAXVA" by (simp only: MAXVA_PGROUNDDOWN not_False_eq_True)
  then show ?thesis
    unfolding copyout.simps [of pt va] Let_def
    using assms(2) False pte_of_MAXVA [of "mem s" pt va]
    by (auto simp: returnK_def uwritable_def user_pte_def not_le simp del: MAXVA_def)
qed

lemma copyin_step:
  assumes "pt_ok s pt" "frames_ok s pt" "0 < len"
  shows "copyin pt va len s =
    (if user_pte (pte_of (mem s) pt va)
     then bindK (copyin pt (PGROUNDDOWN va + PGSIZE) (len - copy_chunk va len))
       (\<lambda>(r, bs). returnK (r, read_mem (mem s)
          (PTE2PA (pte_of (mem s) pt va) + (va - PGROUNDDOWN va)) (copy_chunk va len) @ bs)) s
     else Inr ((- 1, []), s))"
proof -
  have eq: "pte_of (mem s) pt (PGROUNDDOWN va) = pte_of (mem s) pt va" by (rule pte_of_page) simp
  have nz: "PTE2PA (pte_of (mem s) pt va) \<noteq> 0" if "user_pte (pte_of (mem s) pt va)"
    using frames_okD(1) [OF assms(2) that] assms(1) by (auto simp: pt_ok_def kmem_ok_def kmem_inv_def dest: valid_page_nonzero)
  show ?thesis
    unfolding copyin.simps [of pt va] Let_def
    using assms(3) nz
    by (auto simp: bindK_def [of "walkaddr _ _"] walkaddr_eq [OF assms(1)] eq returnK_def getK_def
        bindK_def [of "getK _"] simp del: PGSIZE_def)
qed

lemma chunk_rest:
  assumes "copy_chunk va len < len"
  shows "copy_chunk va len = 4096 - unat va mod 4096"
    "PGROUNDDOWN va + PGSIZE = va + word_of_nat (copy_chunk va len)"
  using assms next_page_addr [of va] by (simp_all add: copy_chunk_eq min_def split: if_splits)

lemma chunk_le: "copy_chunk va len \<le> len" "copy_chunk va len \<le> 4096 - unat va mod 4096"
  by (simp_all add: copy_chunk_eq)

text \<open>The user memory after \<open>k\<close> bytes of \<open>src\<close> were stored from \<open>va\<close> on.\<close>

definition ustored :: "(u64 \<Rightarrow> u8 option) \<Rightarrow> u64 \<Rightarrow> bytes \<Rightarrow> nat \<Rightarrow> u64 \<Rightarrow> u8 option" where
  "ustored f va src k = (\<lambda>x. if unat (x - va) < k then Some (src ! unat (x - va)) else f x)"

lemma unat_minus_offset:
  fixes x va :: u64
  assumes "n + k \<le> 2 ^ 64"
  shows "unat (x - (va + word_of_nat n)) < k \<longleftrightarrow> n \<le> unat (x - va) \<and> unat (x - va) < n + k"
    and "n \<le> unat (x - va) \<Longrightarrow> unat (x - (va + word_of_nat n)) = unat (x - va) - n"
proof -
  define d where "d = x - va"
  have eq: "x - (va + word_of_nat n) = d - word_of_nat n" by (simp add: d_def)
  have d: "unat d < 2 ^ 64" by (rule unat_lt_u64)
  show *: "unat (x - (va + word_of_nat n)) = unat (x - va) - n" if "n \<le> unat (x - va)"
  proof -
    have "n < 2 ^ 64" using that d by (simp add: d_def)
    then have "unat (word_of_nat n :: u64) = n" by (rule unat_of_nat_u64)
    then show ?thesis using that by (simp add: eq unat_sub word_le_nat_alt flip: d_def)
  qed
  show "unat (x - (va + word_of_nat n)) < k \<longleftrightarrow> n \<le> unat (x - va) \<and> unat (x - va) < n + k"
  proof (cases "n \<le> unat (x - va)")
    case True
    then show ?thesis using * by auto
  next
    case False
    show ?thesis
    proof (cases "k = 0")
      case k: False
      then have "n < 2 ^ 64" using assms by simp
      then have n: "unat (word_of_nat n :: u64) = n" by (rule unat_of_nat_u64)
      have "unat (d - word_of_nat n) = 2 ^ 64 + unat d - n"
        using False n by (simp add: unat_sub_if' d_def)
      then show ?thesis using False assms unfolding eq d_def [symmetric] by simp
    qed simp
  qed
qed

lemma ustored_append:
  assumes "n \<le> length src" "length src \<le> 2 ^ 64" "k \<le> length src - n"
  shows "ustored (ustored f va (take n src) n) (va + word_of_nat n) (drop n src) k = ustored f va src (n + k)"
proof
  fix x
  have "n + k \<le> 2 ^ 64" using assms by simp
  note um = unat_minus_offset [OF this, of x va]
  show "ustored (ustored f va (take n src) n) (va + word_of_nat n) (drop n src) k x = ustored f va src (n + k) x"
    using um assms by (auto simp: ustored_def)
qed

text \<open>The part of the state that a copy to user space keeps.\<close>

definition same_space :: "'x kmem_scheme \<Rightarrow> 'x kmem_scheme \<Rightarrow> u64 \<Rightarrow> bool" where
  "same_space s t pt \<longleftrightarrow> uspace_ok t pt \<and> kmem_frame s t \<and> free_pages t = free_pages s
     \<and> tables (mem t) pt = tables (mem s) pt \<and> pte_of (mem t) pt = pte_of (mem s) pt"

lemma copyout_wp:
  assumes "uspace_ok s pt" "length src \<le> 2 ^ 64"
  shows "wpK (copyout pt va src) (\<lambda>r t. same_space s t pt \<and> (\<exists>k.
      umem (mem t) pt = ustored (umem (mem s) pt) va src k
      \<and> (\<forall>i < k. uwritable (mem s) pt (va + word_of_nat i))
      \<and> (r = 0 \<and> k = length src
         \<or> r = - 1 \<and> k < length src \<and> \<not> uwritable (mem s) pt (va + word_of_nat k)))) s"
  using assms
proof (induction "length src" arbitrary: va src s rule: less_induct)
  case less
  let ?Q = "\<lambda>s va src r t. same_space s t pt \<and> (\<exists>k.
      umem (mem t) pt = ustored (umem (mem s) pt) va src k
      \<and> (\<forall>i < k. uwritable (mem s) pt (va + word_of_nat i))
      \<and> (r = 0 \<and> k = length src
         \<or> r = - 1 \<and> k < length src \<and> \<not> uwritable (mem s) pt (va + word_of_nat k)))"
  have ok: "pt_ok s pt" using less.prems by (simp add: uspace_ok_def)
  show ?case
  proof (cases "src = [] \<or> \<not> uwritable (mem s) pt va")
    case True
    then have "copyout pt va src s = Inr (if src = [] then 0 else - 1, s)"
      using copyout_step [OF ok, of src va] by (auto simp: copyout.simps [of pt va "[]"] returnK_def)
    moreover have "same_space s s pt" using less.prems by (simp add: same_space_def)
    moreover have "ustored (umem (mem s) pt) va src 0 = umem (mem s) pt" by (simp add: ustored_def fun_eq_iff)
    ultimately show ?thesis using True by (auto simp: wpK_def intro!: exI [of _ 0])
  next
    case False
    define n where "n = copy_chunk va (length src)"
    define t where "t = s\<lparr>mem := write_mem (mem s) (PTE2PA (pte_of (mem s) pt va) + (va - PGROUNDDOWN va)) (take n src)\<rparr>"
    have step: "copyout pt va src s = copyout pt (PGROUNDDOWN va + PGSIZE) (drop n src) t"
      using copyout_step [OF ok, of src va] False by (simp add: n_def t_def del: PGSIZE_def)
    have n: "0 < n" "n \<le> length src" "n \<le> 4096 - unat va mod 4096"
      using False chunk_le [of va "length src"] by (auto simp: n_def copy_chunk_pos)
    have u: "user_pte (pte_of (mem s) pt va)" using False by (simp add: uwritable_def)
    have len: "length (take n src) \<le> 4096 - unat va mod 4096" using n by simp
    note uw = uwrite [OF less.prems(1) u len, folded t_def]
    have um: "umem (mem t) pt = ustored (umem (mem s) pt) va (take n src) n"
      using uw(6) n(2) by (simp add: ustored_def fun_eq_iff)
    have wr: "uwritable (mem t) pt = uwritable (mem s) pt" by (simp add: fun_eq_iff uwritable_def uw(5))
    have wn: "uwritable (mem s) pt (va + word_of_nat i)" if i: "i < n" for i
    proof -
      have "PGROUNDDOWN (va + word_of_nat i) = PGROUNDDOWN va"
        by (rule same_page_offset) (rule less_le_trans [OF i n(3)])
      then have "pte_of (mem s) pt (va + word_of_nat i) = pte_of (mem s) pt va" by (rule pte_of_page)
      then show ?thesis using False by (simp add: uwritable_def)
    qed
    have ss: "same_space s t pt" using uw by (simp add: same_space_def t_def)
    have fin: "?Q s va src r w" if q: "?Q t (va + word_of_nat n) (drop n src) r w" for r w
    proof -
      obtain k where k: "same_space t w pt"
        "umem (mem w) pt = ustored (umem (mem t) pt) (va + word_of_nat n) (drop n src) k"
        "\<forall>i < k. uwritable (mem s) pt (va + word_of_nat n + word_of_nat i)"
        "r = 0 \<and> k = length src - n \<or> r = - 1 \<and> k < length src - n
          \<and> \<not> uwritable (mem s) pt (va + word_of_nat n + word_of_nat k)"
        using q unfolding wr by auto
      have "umem (mem w) pt = ustored (umem (mem s) pt) va src (n + k)"
        unfolding k(2) um using n k(4) less.prems(2) by (intro ustored_append) auto
      moreover have "uwritable (mem s) pt (va + word_of_nat i)" if "i < n + k" for i
      proof (cases "i < n")
        case False
        then have eq: "va + word_of_nat i = va + word_of_nat n + word_of_nat (i - n)" by (simp flip: of_nat_add)
        have "i - n < k" using False that by simp
        then show ?thesis unfolding eq using k(3) by blast
      qed (rule wn)
      moreover have "same_space s w pt" using ss k(1) by (auto simp: same_space_def intro: kmem_frame_trans)
      ultimately show ?thesis using k(4) n by (intro conjI exI [of _ "n + k"]) (auto simp: add.assoc)
    qed
    show ?thesis
    proof (cases "n < length src")
      case True
      then have va: "PGROUNDDOWN va + PGSIZE = va + word_of_nat n" using chunk_rest(2) by (simp add: n_def)
      have "wpK (copyout pt (va + word_of_nat n) (drop n src)) (?Q t (va + word_of_nat n) (drop n src)) t"
        using n less.prems uw(2) True by (intro less.hyps) auto
      then show ?thesis using fin unfolding wpK_def step va by (auto split: sum.splits)
    next
      case False
      then have "copyout pt va src s = Inr (0, t)" using n step by (simp add: copyout.simps [of pt _ "[]"] returnK_def)
      moreover have "?Q t (va + word_of_nat n) (drop n src) 0 t"
        using False n uw(2) by (intro conjI exI [of _ 0]) (auto simp: same_space_def ustored_def fun_eq_iff)
      then have "?Q s va src 0 t" by (rule fin)
      ultimately show ?thesis unfolding wpK_def by (simp only: sum.case prod.case)
    qed
  qed
qed

text \<open>The bytes user code reads in the \<open>n\<close> bytes from \<open>va\<close> on.\<close>

definition uread :: "memory \<Rightarrow> u64 \<Rightarrow> u64 \<Rightarrow> nat \<Rightarrow> u8 option list" where
  "uread m pt va n = map (\<lambda>i. umem m pt (va + word_of_nat i)) [0..<n]"

lemma uread_append: "uread m pt va (n + k) = uread m pt va n @ uread m pt (va + word_of_nat n) k"
  by (rule nth_equalityI) (auto simp: uread_def nth_append not_less add.assoc simp flip: of_nat_add)

lemma uread_chunk:
  assumes "user_pte (pte_of m pt va)" "n \<le> 4096 - unat va mod 4096"
  shows "uread m pt va n = map Some (read_mem m (PTE2PA (pte_of m pt va) + (va - PGROUNDDOWN va)) n)"
proof (rule nth_equalityI)
  fix i
  assume "i < length (uread m pt va n)"
  then have i: "i < n" by (simp add: uread_def)
  have p: "PGROUNDDOWN (va + word_of_nat i) = PGROUNDDOWN va"
    by (rule same_page_offset) (rule less_le_trans [OF i assms(2)])
  have "pte_of m pt (va + word_of_nat i) = pte_of m pt va" by (rule pte_of_page [OF p])
  with i p assms(1) show "uread m pt va n ! i
      = map Some (read_mem m (PTE2PA (pte_of m pt va) + (va - PGROUNDDOWN va)) n) ! i"
    by (simp add: uread_def umem_def uaddr_def nth_read_mem Let_def algebra_simps)
qed (simp add: uread_def)

lemma copyin_eq:
  assumes "uspace_ok s pt"
  shows "\<exists>r bs. copyin pt va len s = Inr ((r, bs), s)
    \<and> (if None \<in> set (uread (mem s) pt va len) then r = - 1 else r = 0 \<and> map Some bs = uread (mem s) pt va len)"
  using assms
proof (induction len arbitrary: va rule: less_induct)
  case (less len)
  have ok: "pt_ok s pt" "frames_ok s pt" using less.prems by (simp_all add: uspace_ok_def)
  show ?case
  proof (cases "len = 0 \<or> \<not> user_pte (pte_of (mem s) pt va)")
    case True
    show ?thesis
    proof (cases "len = 0")
      case True
      then show ?thesis by (simp add: copyin.simps [where len = 0] returnK_def uread_def)
    next
      case len: False
      with True have u: "\<not> user_pte (pte_of (mem s) pt va)" by simp
      then have "umem (mem s) pt (va + word_of_nat 0) = None" by (simp add: umem_def uaddr_def)
      then have "None \<in> set (uread (mem s) pt va len)"
        using len unfolding uread_def set_map by (intro rev_image_eqI [of 0]) simp_all
      moreover have "copyin pt va len s = Inr ((- 1, []), s)" using copyin_step [OF ok, of len va] len u by simp
      ultimately show ?thesis by simp
    qed
  next
    case False
    define n where "n = copy_chunk va len"
    define bs where "bs = read_mem (mem s) (PTE2PA (pte_of (mem s) pt va) + (va - PGROUNDDOWN va)) n"
    have n: "0 < n" "n \<le> len" "n \<le> 4096 - unat va mod 4096"
      using False chunk_le [of va len] by (auto simp: n_def copy_chunk_pos)
    have b: "uread (mem s) pt va n = map Some bs" unfolding bs_def using False n(3) by (intro uread_chunk) auto
    have step: "copyin pt va len s
        = bindK (copyin pt (PGROUNDDOWN va + PGSIZE) (len - n)) (\<lambda>(r, bs'). returnK (r, bs @ bs')) s"
      using copyin_step [OF ok, of len va] False by (simp add: n_def bs_def del: PGSIZE_def)
    show ?thesis
    proof (cases "n < len")
      case True
      then have va: "PGROUNDDOWN va + PGSIZE = va + word_of_nat n" using chunk_rest(2) by (simp add: n_def)
      have "len - n < len" using n by simp
      from less.IH [OF this less.prems, of "va + word_of_nat n"] obtain r bs' where
        r: "copyin pt (va + word_of_nat n) (len - n) s = Inr ((r, bs'), s)"
        "if None \<in> set (uread (mem s) pt (va + word_of_nat n) (len - n)) then r = - 1
          else r = 0 \<and> map Some bs' = uread (mem s) pt (va + word_of_nat n) (len - n)" by auto
      have all: "uread (mem s) pt va len = map Some bs @ uread (mem s) pt (va + word_of_nat n) (len - n)"
        using uread_append [of "mem s" pt va n "len - n"] n(2) b by simp
      have "copyin pt va len s = Inr ((r, bs @ bs'), s)"
        unfolding step va using r(1) by (simp add: bindK_def returnK_def)
      moreover have "if None \<in> set (uread (mem s) pt va len) then r = - 1
          else r = 0 \<and> map Some (bs @ bs') = uread (mem s) pt va len"
        using r(2) unfolding all by (simp split: if_splits)
      ultimately show ?thesis by blast
    next
      case False
      then have "len = n" using n by simp
      moreover have "None \<notin> set (uread (mem s) pt va n)" unfolding b by simp
      moreover have "copyin pt va n s = Inr ((0, bs), s)"
        using step \<open>len = n\<close> by (simp add: bindK_def returnK_def copyin.simps [where len = 0])
      ultimately show ?thesis using b by simp
    qed
  qed
qed

section \<open>A small address space\<close>

text \<open>
  An address space with one user page: the tables are the pages \<open>0x87FFE000\<close>,
  \<open>0x87FFD000\<close> and \<open>0x87FFC000\<close>, address 0 maps to the frame \<open>0x87FFB000\<close>, and no page is free.
\<close>

definition one_page_mem :: memory where
  "one_page_mem =
     store64 (store64 (store64 (\<lambda>_. 0)
       (pte_addr 0x87FFE000 0) (PA2PTE 0x87FFD000 OR PTE_V))
       (pte_addr 0x87FFD000 0) (PA2PTE 0x87FFC000 OR PTE_V))
       (pte_addr 0x87FFC000 0) (PA2PTE 0x87FFB000 OR 0x17)"

definition one_page :: kmem where
  "one_page = \<lparr>mem = one_page_mem, freelist = 0, kend = 0x80000000\<rparr>"

lemma load_one_page:
  assumes "page_aligned p" "unat i < 512"
  shows "load64 one_page_mem (pte_addr p i) =
    (if p = 0x87FFC000 \<and> i = 0 then PA2PTE 0x87FFB000 OR 0x17
     else if p = 0x87FFD000 \<and> i = 0 then PA2PTE 0x87FFC000 OR PTE_V
     else if p = 0x87FFE000 \<and> i = 0 then PA2PTE 0x87FFD000 OR PTE_V else 0)"
proof -
  have al: "page_aligned 0x87FFC000" "page_aligned 0x87FFD000" "page_aligned 0x87FFE000"
    by (simp_all add: page_aligned_def)
  have *: "load64 (store64 m (pte_addr q 0) v) (pte_addr p i)
      = (if p = q \<and> i = 0 then v else load64 m (pte_addr p i))" if "page_aligned q" for m q v
    using that assms pte_addr_inject [of q 0 p i]
    by (auto simp: load64_store64_other aligned8_pte_addr)
  show ?thesis unfolding one_page_mem_def by (simp only: * al load64_zero)
qed

lemma one_page_entries:
  "bit (PA2PTE 0x87FFD000 OR PTE_V) 0" "PTE2PA (PA2PTE 0x87FFD000 OR PTE_V) = 0x87FFD000"
  "bit (PA2PTE 0x87FFC000 OR PTE_V) 0" "PTE2PA (PA2PTE 0x87FFC000 OR PTE_V) = 0x87FFC000"
  "PTE2PA (PA2PTE 0x87FFB000 OR 0x17) = 0x87FFB000" "user_pte (PA2PTE 0x87FFB000 OR 0x17)"
  "bit (PA2PTE 0x87FFB000 OR 0x17) 2"
  by (auto simp: bit_PA2PTE_flag PTE2PA_PA2PTE page_aligned_def user_pte_def)

lemma node_one_page:
  assumes "indices 2 is"
  shows "node one_page_mem 0x87FFE000 is =
    (if is = [] then Some 0x87FFE000 else if is = [0] then Some 0x87FFD000
     else if is = [0, 0] then Some 0x87FFC000 else None)"
proof -
  have al: "page_aligned 0x87FFC000" "page_aligned 0x87FFD000" "page_aligned 0x87FFE000"
    by (simp_all add: page_aligned_def)
  consider "is = []" | i where "is = [i]" "unat i < 512"
    | i j where "is = [i, j]" "unat i < 512" "unat j < 512"
    using assms by (cases "is"; cases "tl is") (auto simp: indices_def)
  then show ?thesis
    by cases (simp_all add: load_one_page al one_page_entries Let_def del: PTE_V_def)
qed

lemma pte_of_one_page:
  "pte_of one_page_mem 0x87FFE000 va = (if PGROUNDDOWN va = 0 then PA2PTE 0x87FFB000 OR 0x17 else 0)"
proof (cases "va < MAXVA")
  case True
  have al: "page_aligned 0x87FFC000" by (simp add: page_aligned_def)
  have 0: "vpath 0 = [0, 0]" "PX 0 0 = 0" "PGROUNDDOWN 0 = 0"
    by (simp_all add: vpath_def PX_def PGROUNDDOWN_def)
  have "vpath va = [0, 0] \<and> PX 0 va = 0 \<longleftrightarrow> PGROUNDDOWN va = 0"
    using same_index_iff [of va 0] True 0 by simp
  then show ?thesis
    using True by (auto simp: pte_of_def node_one_page load_one_page [OF al unat_PX_less] not_le
        simp del: MAXVA_def split: if_splits) (auto simp: vpath_def)
next
  case False
  then have "PGROUNDDOWN va \<noteq> 0" using MAXVA_PGROUNDDOWN [of va] by auto
  then show ?thesis using False by (auto simp: pte_of_def)
qed

lemma one_page_ok: "uspace_ok one_page 0x87FFE000" "mem one_page = one_page_mem"
proof -
  have inv: "kmem_inv one_page []" by (simp add: kmem_inv_def one_page_def)
  then have fp: "kmem_ok one_page" "free_pages one_page = {}" by (auto simp: kmem_ok_def free_pages_eq)
  show m: "mem one_page = one_page_mem" by (simp add: one_page_def)
  have tab: "tables one_page_mem 0x87FFE000 \<subseteq> {0x87FFE000, 0x87FFD000, 0x87FFC000}"
    by (auto simp: tables_def node_one_page split: if_splits)
  have inj: "pt_inj one_page_mem 0x87FFE000"
    unfolding pt_inj_def by (auto simp: node_one_page split: if_splits)
  have "valid_page one_page q" if "q \<in> {0x87FFE000, 0x87FFD000, 0x87FFC000, 0x87FFB000}" for q
    using that by (auto simp: valid_page_def page_aligned_def one_page_def)
  then show "uspace_ok one_page 0x87FFE000"
    using fp inj tab by (auto simp: uspace_ok_def pt_ok_def frames_ok_def m pte_of_one_page one_page_entries)
      (auto simp: user_pte_def)
qed

section \<open>Properties\<close>

text \<open>C7: on a well-formed user address space \<open>copyout\<close> always returns; it stores the source
  bytes at the user addresses from \<open>dstva\<close> on, in order, and changes no other byte of user
  memory and no mapping. It returns 0 when every byte was stored; otherwise it returns -1
  having stored exactly the bytes before the first address that is not user-writable.\<close>

theorem copyout_correct:
  assumes "uspace_ok s pt" "length src \<le> 2 ^ 64"
  shows "\<exists>r t k. copyout pt dstva src s = Inr (r, t) \<and> same_space s t pt
    \<and> umem (mem t) pt = (\<lambda>x. if unat (x - dstva) < k then Some (src ! unat (x - dstva)) else umem (mem s) pt x)
    \<and> (\<forall>i < k. uwritable (mem s) pt (dstva + word_of_nat i))
    \<and> (r = 0 \<and> k = length src
       \<or> r = - 1 \<and> k < length src \<and> \<not> uwritable (mem s) pt (dstva + word_of_nat k))"
  using copyout_wp [OF assms, of dstva] unfolding ustored_def by (rule wpK_obtain) blast

theorem copyout_correct_witness:
  "\<exists>r t k. copyout 0x87FFE000 4094 [1, 2, 3] one_page = Inr (r, t) \<and> same_space one_page t 0x87FFE000
    \<and> umem (mem t) 0x87FFE000
      = (\<lambda>x. if unat (x - 4094) < k then Some ([1, 2, 3] ! unat (x - 4094)) else umem (mem one_page) 0x87FFE000 x)
    \<and> (\<forall>i < k. uwritable (mem one_page) 0x87FFE000 (4094 + word_of_nat i))
    \<and> (r = 0 \<and> k = length [1 :: u8, 2, 3]
       \<or> r = - 1 \<and> k < length [1 :: u8, 2, 3] \<and> \<not> uwritable (mem one_page) 0x87FFE000 (4094 + word_of_nat k))"
  by (rule copyout_correct) (use one_page_ok in simp_all)

text \<open>C21: bytes stored with \<open>copyout\<close> are read back by \<open>copyin\<close>: when \<open>copyout\<close> returns 0, \<open>copyin\<close>
  of the same range returns 0 and the same bytes.\<close>

theorem copyout_copyin:
  assumes "uspace_ok s pt" "length src \<le> 2 ^ 64" "copyout pt va src s = Inr (0, t)"
  shows "copyin pt va (length src) t = Inr ((0, src), t)"
proof -
  have ss: "same_space s t pt" and um: "umem (mem t) pt = ustored (umem (mem s) pt) va src (length src)"
    using copyout_wp [OF assms(1,2), of va] assms(3) by (auto simp: wpK_def)
  have rd: "uread (mem t) pt va (length src) = map Some src"
    using assms(2) by (intro nth_equalityI) (auto simp: uread_def um ustored_def unat_of_nat_u64)
  have "uspace_ok t pt" using ss by (simp add: same_space_def)
  from copyin_eq [OF this, of va "length src"] obtain r bs where
    c: "copyin pt va (length src) t = Inr ((r, bs), t)"
    "if None \<in> set (map Some src) then r = - 1 else r = 0 \<and> map Some bs = map Some src"
    unfolding rd by blast
  then have "r = 0" "map Some bs = map Some src" by (auto split: if_splits)
  moreover from this have "bs = src" by (simp add: map_injective)
  ultimately show ?thesis using c(1) by simp
qed

theorem copyout_copyin_witness:
  "\<exists>t. copyout 0x87FFE000 16 [7, 8] one_page = Inr (0, t)
    \<and> copyin 0x87FFE000 16 (length [7 :: u8, 8]) t = Inr ((0, [7, 8]), t)"
proof -
  have w: "uwritable (mem one_page) 0x87FFE000 (16 + word_of_nat k)" if "k < 2" for k
  proof -
    have "16 + word_of_nat k \<in> {16, 17 :: u64}" using that by (auto simp: less_2_cases_iff)
    then have "PGROUNDDOWN (16 + word_of_nat k) = 0" by (auto simp: PGROUNDDOWN_def)
    then show ?thesis by (simp add: uwritable_def one_page_ok(2) pte_of_one_page one_page_entries)
  qed
  obtain t where t: "copyout 0x87FFE000 16 [7, 8] one_page = Inr (0, t)"
    using copyout_wp [OF one_page_ok(1), of "[7, 8]" 16] w by (force simp: wpK_def split: sum.splits)
  then show ?thesis using copyout_copyin [OF one_page_ok(1) _ t] by simp
qed

text \<open>C20: \<open>copyin\<close> on a well-formed user address space changes nothing; it returns the bytes the
  user addresses hold when all of them are mapped for user code, and -1 when one is not.\<close>

theorem copyin_correct:
  assumes "uspace_ok s pt"
  shows "\<exists>r bs. copyin pt srcva len s = Inr ((r, bs), s)
    \<and> (if None \<in> set (uread (mem s) pt srcva len) then r = - 1
       else r = 0 \<and> map Some bs = uread (mem s) pt srcva len)"
  using assms by (rule copyin_eq)

theorem copyin_correct_witness:
  "\<exists>r bs. copyin 0x87FFE000 100 3 one_page = Inr ((r, bs), one_page)
    \<and> (if None \<in> set (uread (mem one_page) 0x87FFE000 100 3) then r = - 1
       else r = 0 \<and> map Some bs = uread (mem one_page) 0x87FFE000 100 3)"
  by (rule copyin_correct) (rule one_page_ok)

end
