(* ===== verification/Proc.thy ===== *)
theory Proc
  imports Spinlock Vm_User
begin

text \<open>
  Processes and scheduling (\<open>kernel/proc.c\<close>, \<open>kernel/proc.h\<close>). The process table is a function
  from slot numbers below \<open>NPROC\<close>; a \<open>struct proc *\<close> is a slot number, the null pointer
  \<open>None\<close>. A trap frame is the page it points to. A section between \<open>acquire\<close> and \<open>release\<close> of
  a lock within one function is one atomic step; the lock of a process is explicit where it
  is held across \<open>swtch\<close>. \<open>swtch\<close> ends a definition: \<open>yield\<close> and \<open>sleep\<close> have a part before
  (\<open>_out\<close>) and a part after the switch (\<open>_in\<close>), the scheduler a part that chooses
  a process and one that runs when the process has switched back. A null dereference is
  a kernel page fault, on which \<open>kerneltrap\<close> panics.
\<close>

section \<open>State\<close>

datatype procstate = UNUSED | USED | SLEEPING | RUNNABLE | RUNNING | ZOMBIE

text \<open>The addresses processes sleep on.\<close>

datatype chan = ChanProc nat | ChanTicks | ChanLog | ChanBuf nat | ChanInode nat
  | ChanPipeRead nat | ChanPipeWrite nat | ChanCons | ChanUart | ChanDiskFree | ChanDiskBuf nat

record kcontext =
  ctx_ra :: u64
  ctx_sp :: u64

record proc =
  p_lock :: spinlock
  p_state :: procstate
  p_chan :: "chan option"
  p_killed :: int
  p_xstate :: int
  p_pid :: int
  p_parent :: "nat option"
  p_kstack :: u64
  p_sz :: u64
  p_pagetable :: u64
  p_trapframe :: u64
  p_context :: kcontext
  p_ofile :: "nat option list"
  p_cwd :: "nat option"
  p_name :: bytes

text \<open>\<open>trampoline\<close> and \<open>forkret_addr\<close> are linker symbols, \<open>ticks\<close> the clock of \<open>trap.c\<close>.\<close>

record kproc = kcpu +
  procs :: "nat \<Rightarrow> proc"
  initproc :: "nat option"
  nextpid :: int
  ticks :: u32
  trampoline :: u64
  forkret_addr :: u64

definition NOFILE :: nat where "NOFILE = 16"

definition set_proc :: "nat \<Rightarrow> (proc \<Rightarrow> proc) \<Rightarrow> ('x kproc_scheme, unit) km" where
  "set_proc i f = modifyK (\<lambda>s. s\<lparr>procs := (procs s)(i := f (procs s i))\<rparr>)"

definition get_proc :: "nat \<Rightarrow> ('x kproc_scheme, proc) km" where
  "get_proc i = getK (\<lambda>s. procs s i)"

declare set_proc_def [kdefs] get_proc_def [kdefs]

section \<open>Process table\<close>

definition procinit :: "('x kproc_scheme, unit) km" where
  "procinit = forK [0..<NPROC] (\<lambda>i. set_proc i (\<lambda>p.
     p\<lparr>p_lock := initlock ''proc'', p_state := UNUSED, p_kstack := KSTACK i\<rparr>))"

definition myproc :: "('x kproc_scheme, nat option) km" where
  "myproc = getK (\<lambda>s. c_proc (mycpu s))"

text \<open>A use of \<open>myproc()->...\<close>.\<close>

definition curproc :: "('x kproc_scheme, nat) km" where
  "curproc = (bindK myproc (\<lambda>p.
    case p of None \<Rightarrow> panicK ''kerneltrap'' | Some i \<Rightarrow> returnK i))"

definition allocpid :: "('x kproc_scheme, int) km" where
  "allocpid = (bindK (getK nextpid) (\<lambda>pid.
    thenK (modifyK (\<lambda>s. s\<lparr>nextpid := nextpid s + 1\<rparr>)) (
    returnK pid)))"

definition proc_freepagetable :: "u64 \<Rightarrow> u64 \<Rightarrow> ('x kmem_scheme, unit) km" where
  "proc_freepagetable pagetable sz = (thenK (uvmunmap pagetable TRAMPOLINE 1 False) (
    thenK (uvmunmap pagetable TRAPFRAME 1 False) (
    uvmfree pagetable sz)))"

definition proc_pagetable :: "nat \<Rightarrow> ('x kproc_scheme, u64) km" where
  "proc_pagetable i = (bindK uvmcreate (\<lambda>pagetable.
    if pagetable = 0 then returnK 0 else
    bindK (getK trampoline) (\<lambda>tramp.
    bindK (mappages pagetable TRAMPOLINE PGSIZE tramp (PTE_R OR PTE_X)) (\<lambda>r.
    if r < 0 then (thenK (uvmfree pagetable 0) (
      returnK 0)) else
    bindK (get_proc i) (\<lambda>p.
    bindK (mappages pagetable TRAPFRAME PGSIZE (p_trapframe p) (PTE_R OR PTE_W)) (\<lambda>r.
    if r < 0 then (thenK (uvmunmap pagetable TRAMPOLINE 1 False) (
      thenK (uvmfree pagetable 0) (
      returnK 0))) else
    returnK pagetable))))))"

definition freeproc :: "nat \<Rightarrow> ('x kproc_scheme, unit) km" where
  "freeproc i = (bindK (get_proc i) (\<lambda>p.
    thenK ((if p_trapframe p \<noteq> 0 then kfree (p_trapframe p) else returnK ())) (
    thenK (set_proc i (\<lambda>p. p\<lparr>p_trapframe := 0\<rparr>)) (
    thenK ((if p_pagetable p \<noteq> 0 then proc_freepagetable (p_pagetable p) (p_sz p) else returnK ())) (
    set_proc i (\<lambda>p. p\<lparr>p_pagetable := 0, p_sz := 0, p_pid := 0, p_parent := None,
      p_name := (p_name p)[0 := 0], p_chan := None, p_killed := 0, p_xstate := 0,
      p_state := UNUSED\<rparr>))))))"

definition find_proc :: "(proc \<Rightarrow> bool) \<Rightarrow> ('x kproc_scheme, nat option) km" where
  "find_proc P = getK (\<lambda>s. find (\<lambda>i. P (procs s i)) [0..<NPROC])"

definition allocproc :: "('x kproc_scheme, nat option) km" where
  "allocproc = (bindK (find_proc (\<lambda>p. p_state p = UNUSED)) (\<lambda>found.
    case found of None \<Rightarrow> returnK None | Some i \<Rightarrow> (bindK allocpid (\<lambda>pid.
      thenK (set_proc i (\<lambda>p. p\<lparr>p_pid := pid, p_state := USED\<rparr>)) (
      bindK kalloc (\<lambda>tf.
      thenK (set_proc i (\<lambda>p. p\<lparr>p_trapframe := tf\<rparr>)) (
      if tf = 0 then (thenK (freeproc i) (
        returnK None)) else
      bindK (proc_pagetable i) (\<lambda>pt.
      thenK (set_proc i (\<lambda>p. p\<lparr>p_pagetable := pt\<rparr>)) (
      if pt = 0 then (thenK (freeproc i) (
        returnK None)) else
      bindK (getK forkret_addr) (\<lambda>ra.
      thenK (set_proc i (\<lambda>p. p\<lparr>p_context := \<lparr>ctx_ra = ra, ctx_sp = p_kstack p + PGSIZE\<rparr>\<rparr>)) (
      returnK (Some i))))))))))))"

text \<open>\<open>sz + n\<close> adds the sign-extended \<open>int\<close> to the 64-bit size.\<close>

definition growproc :: "int \<Rightarrow> ('x kproc_scheme, int) km" where
  "growproc n = (bindK curproc (\<lambda>i.
    bindK (get_proc i) (\<lambda>p.
    bindK ((if n > 0 then uvmalloc (p_pagetable p) (p_sz p) (p_sz p + word_of_int n) PTE_W
      else if n < 0 then uvmdealloc (p_pagetable p) (p_sz p) (p_sz p + word_of_int n)
      else returnK (p_sz p))) (\<lambda>sz.
    if n > 0 \<and> sz = 0 then returnK (- 1) else
    thenK (set_proc i (\<lambda>p. p\<lparr>p_sz := sz\<rparr>)) (
    returnK 0)))))"

section \<open>Sleeping, waking, killing\<close>

definition wakeup :: "chan \<Rightarrow> ('x kproc_scheme, unit) km" where
  "wakeup ch = forK [0..<NPROC] (\<lambda>i. (bindK myproc (\<lambda>me.
    (if me \<noteq> Some i
      then set_proc i (\<lambda>p. if p_state p = SLEEPING \<and> p_chan p = Some ch
      then p\<lparr>p_state := RUNNABLE\<rparr> else p)
      else returnK ()))))"

definition kill :: "int \<Rightarrow> ('x kproc_scheme, int) km" where
  "kill pid = (bindK (find_proc (\<lambda>p. p_pid p = pid)) (\<lambda>found.
    case found of None \<Rightarrow> returnK (- 1) | Some i \<Rightarrow> (thenK (set_proc i (\<lambda>p. let p = p\<lparr>p_killed := 1\<rparr> in
        if p_state p = SLEEPING then p\<lparr>p_state := RUNNABLE\<rparr> else p)) (
      returnK 0))))"

definition setkilled :: "nat \<Rightarrow> ('x kproc_scheme, unit) km" where
  "setkilled i = set_proc i (\<lambda>p. p\<lparr>p_killed := 1\<rparr>)"

definition killed :: "nat \<Rightarrow> ('x kproc_scheme, int) km" where
  "killed i = getK (\<lambda>s. p_killed (procs s i))"

definition reparent :: "nat \<Rightarrow> ('x kproc_scheme, unit) km" where
  "reparent p = forK [0..<NPROC] (\<lambda>i. (bindK (get_proc i) (\<lambda>q.
    (if p_parent q = Some p
      then (bindK (getK initproc) (\<lambda>ip.
        thenK (set_proc i (\<lambda>q. q\<lparr>p_parent := ip\<rparr>)) (
        case ip of None \<Rightarrow> returnK () | Some k \<Rightarrow> wakeup (ChanProc k))))
      else returnK ()))))"

definition int_bytes :: "int \<Rightarrow> bytes" where
  "int_bytes v = le_bytes 4 (unat (word_of_int v :: u32))"

text \<open>One scan of the table: the value \<open>wait\<close> returns, if it does, and \<open>havekids\<close>.\<close>

fun wait_scan :: "nat \<Rightarrow> u64 \<Rightarrow> nat list \<Rightarrow> bool \<Rightarrow> ('x kproc_scheme, int option \<times> bool) km" where
  "wait_scan p addr [] havekids = returnK (None, havekids)"
| "wait_scan p addr (i # is) havekids = (bindK (get_proc i) (\<lambda>pp.
  if p_parent pp \<noteq> Some p then wait_scan p addr is havekids else
  if p_state pp \<noteq> ZOMBIE then wait_scan p addr is True else
  bindK (get_proc p) (\<lambda>me.
  bindK ((if addr \<noteq> 0 then copyout (p_pagetable me) addr (int_bytes (p_xstate pp)) else returnK 0)) (\<lambda>r.
  if r < 0 then returnK (Some (- 1), True) else
  thenK (freeproc i) (
  returnK (Some (p_pid pp), True))))))"

definition wait :: "u64 \<Rightarrow> ('x kproc_scheme, int) km" where
  "wait addr = (bindK curproc (\<lambda>p.
    bindK (wait_scan p addr [0..<NPROC] False) (\<lambda>(r, havekids).
    case r of Some pid \<Rightarrow> returnK pid | None \<Rightarrow> (bindK (killed p) (\<lambda>k.
      (if \<not> havekids \<or> k \<noteq> 0 then returnK (- 1) else blockK ''wait''))))))"

section \<open>Switching\<close>

definition plock_acquire :: "nat \<Rightarrow> ('x kproc_scheme, unit) km" where
  "plock_acquire i = (bindK (get_proc i) (\<lambda>p.
    bindK (acquire (p_lock p)) (\<lambda>lk.
    set_proc i (\<lambda>p. p\<lparr>p_lock := lk\<rparr>))))"

definition plock_release :: "nat \<Rightarrow> ('x kproc_scheme, unit) km" where
  "plock_release i = (bindK (get_proc i) (\<lambda>p.
    bindK (release (p_lock p)) (\<lambda>lk.
    set_proc i (\<lambda>p. p\<lparr>p_lock := lk\<rparr>))))"

text \<open>Up to \<open>swtch\<close>; the result is the saved \<open>intena\<close>.\<close>

definition sched :: "('x kproc_scheme, bool) km" where
  "sched = (bindK curproc (\<lambda>i.
    bindK (get_proc i) (\<lambda>p.
    bindK (holding (p_lock p)) (\<lambda>h.
    if \<not> h then panicK ''sched p->lock'' else
    bindK (getK mycpu) (\<lambda>c.
    if c_noff c \<noteq> 1 then panicK ''sched locks'' else
    if p_state p = RUNNING then panicK ''sched running'' else
    bindK intr_get (\<lambda>on.
    if on then panicK ''sched interruptible'' else
    returnK (c_intena c)))))))"

definition sched_in :: "bool \<Rightarrow> ('x kproc_scheme, unit) km" where
  "sched_in intena = set_mycpu (\<lambda>c. c\<lparr>c_intena := intena\<rparr>)"

definition yield_out :: "('x kproc_scheme, bool) km" where
  "yield_out = (bindK curproc (\<lambda>i.
    thenK (plock_acquire i) (
    thenK (set_proc i (\<lambda>p. p\<lparr>p_state := RUNNABLE\<rparr>)) (
    sched))))"

definition yield_in :: "bool \<Rightarrow> ('x kproc_scheme, unit) km" where
  "yield_in intena = (thenK (sched_in intena) (
    bindK curproc (\<lambda>i.
    plock_release i)))"

definition sleep_out :: "chan \<Rightarrow> ('x kproc_scheme, bool) km" where
  "sleep_out ch = (bindK curproc (\<lambda>i.
    thenK (plock_acquire i) (
    thenK (set_proc i (\<lambda>p. p\<lparr>p_chan := Some ch, p_state := SLEEPING\<rparr>)) (
    sched))))"

definition sleep_in :: "bool \<Rightarrow> ('x kproc_scheme, unit) km" where
  "sleep_in intena = (thenK (sched_in intena) (
    bindK curproc (\<lambda>i.
    thenK (set_proc i (\<lambda>p. p\<lparr>p_chan := None\<rparr>)) (
    plock_release i))))"

fun scheduler_scan :: "nat list \<Rightarrow> ('x kproc_scheme, nat option) km" where
  "scheduler_scan [] = returnK None"
| "scheduler_scan (i # is) = (thenK (plock_acquire i) (
  bindK (get_proc i) (\<lambda>p.
  if p_state p = RUNNABLE then (thenK (set_proc i (\<lambda>p. p\<lparr>p_state := RUNNING\<rparr>)) (
    thenK (set_mycpu (\<lambda>c. c\<lparr>c_proc := Some i, c_next := Suc i\<rparr>)) (
    returnK (Some i)))) else
  thenK (plock_release i) (
  scheduler_scan is))))"

text \<open>
  From the loop variable \<open>c_next\<close> to the next process to run, or (result \<open>None\<close>) to the
  end of the table, after which the outer loop enables interrupts and starts over.
\<close>

definition scheduler :: "('x kproc_scheme, nat option) km" where
  "scheduler = (bindK (getK mycpu) (\<lambda>c.
    bindK (scheduler_scan [c_next c..<NPROC]) (\<lambda>r.
    thenK ((if r = None then (thenK (set_mycpu (\<lambda>c. c\<lparr>c_next := 0\<rparr>)) (
      intr_on)) else returnK ())) (
    returnK r))))"

text \<open>After process \<open>i\<close> has switched back.\<close>

definition scheduler_back :: "nat \<Rightarrow> ('x kproc_scheme, unit) km" where
  "scheduler_back i = (thenK (set_mycpu (\<lambda>c. c\<lparr>c_proc := None\<rparr>)) (
    plock_release i))"

section \<open>Copying to and from user or kernel addresses\<close>

definition either_copyout :: "bool \<Rightarrow> u64 \<Rightarrow> bytes \<Rightarrow> ('x kproc_scheme, int) km" where
  "either_copyout user_dst dst src = (if \<not> user_dst then (thenK (modifyK (\<lambda>s. s\<lparr>mem := write_mem (mem s) dst src\<rparr>)) (
    returnK 0)) else
    bindK curproc (\<lambda>i.
    bindK (get_proc i) (\<lambda>p.
    copyout (p_pagetable p) dst src)))"

definition either_copyin :: "bool \<Rightarrow> u64 \<Rightarrow> nat \<Rightarrow> ('x kproc_scheme, int \<times> bytes) km" where
  "either_copyin user_src src len = (if \<not> user_src then getK (\<lambda>s. (0, read_mem (mem s) src len)) else
    bindK curproc (\<lambda>i.
    bindK (get_proc i) (\<lambda>p.
    copyin (p_pagetable p) src len)))"

end
