(* ===== verification/Proc_Sched.thy ===== *)
theory Proc_Sched
  imports Proc
begin

text \<open>
  Properties of the scheduling code of \<open>kernel/proc.c\<close>: what \<open>wakeup\<close> does to the process
  table, that the lock hand-over between processes and schedulers never panics and runs
  each process on at most one hart, that no wakeup is lost, and that the scheduler
  reaches every runnable process.
\<close>

section \<open>\<open>wakeup\<close>\<close>

definition woken :: "'x kproc_scheme \<Rightarrow> chan \<Rightarrow> nat \<Rightarrow> bool" where
  "woken s ch i \<longleftrightarrow> i < NPROC \<and> c_proc (mycpu s) \<noteq> Some i
     \<and> p_state (procs s i) = SLEEPING \<and> p_chan (procs s i) = Some ch"

lemma forK_procs:
  assumes "distinct is" and "\<And>i t. mycpu t = mycpu s \<Longrightarrow>
      body i t = Inr ((), t\<lparr>procs := (procs t)(i := f i (procs t i))\<rparr>)"
  shows "forK is body s = Inr ((), s\<lparr>procs := \<lambda>i. if i \<in> set is then f i (procs s i) else procs s i\<rparr>)"
  using assms
proof (induction "is" arbitrary: s)
  case Nil
  then show ?case by (simp add: returnK_def)
next
  case (Cons i "is")
  let ?t = "s\<lparr>procs := (procs s)(i := f i (procs s i))\<rparr>"
  have "forK is body ?t = Inr ((), ?t\<lparr>procs := \<lambda>k. if k \<in> set is then f k (procs ?t k) else procs ?t k\<rparr>)"
    using Cons.prems by (intro Cons.IH) (auto simp: mycpu_def)
  moreover have "(\<lambda>k. if k \<in> set is then f k (procs ?t k) else procs ?t k)
      = (\<lambda>k. if k \<in> set (i # is) then f k (procs s k) else procs s k)"
    using Cons.prems(1) by (auto simp: fun_eq_iff)
  moreover have "forK (i # is) body s = forK is body ?t"
    using Cons.prems(2) [OF refl, of i] by (simp only: forK.simps thenK_def bindK_def sum.case prod.case)
  ultimately show ?case by simp
qed

lemma wakeup_eq:
  "wakeup ch s = Inr ((), s\<lparr>procs := \<lambda>i. if woken s ch i
     then (procs s i)\<lparr>p_state := RUNNABLE\<rparr> else procs s i\<rparr>)"
proof -
  have "wakeup ch s = Inr ((), s\<lparr>procs := \<lambda>i. if i \<in> set [0..<NPROC]
      then (if c_proc (mycpu s) \<noteq> Some i \<and> p_state (procs s i) = SLEEPING \<and> p_chan (procs s i) = Some ch
            then (procs s i)\<lparr>p_state := RUNNABLE\<rparr> else procs s i) else procs s i\<rparr>)"
    unfolding wakeup_def
    by (rule forK_procs) (auto simp: kdefs myproc_def)
  also have "\<dots> = Inr ((), s\<lparr>procs := \<lambda>i. if woken s ch i
     then (procs s i)\<lparr>p_state := RUNNABLE\<rparr> else procs s i\<rparr>)"
    by (intro arg_cong [where f = "\<lambda>p. Inr ((), s\<lparr>procs := p\<rparr>)"]) (auto simp: woken_def fun_eq_iff)
  finally show ?thesis .
qed

section \<open>Locks of processes\<close>

definition locks_free :: "'x kproc_scheme \<Rightarrow> bool" where
  "locks_free s \<longleftrightarrow> (\<forall>i. \<not> lk_locked (p_lock (procs s i))) \<and> (\<forall>h. c_noff (cpus s h) = 0)"

text \<open>Two states that differ only in saved interrupt flags and lock owners.\<close>

definition same_sched :: "'x kproc_scheme \<Rightarrow> 'x kproc_scheme \<Rightarrow> bool" where
  "same_sched s t \<longleftrightarrow> hartid t = hartid s
     \<and> (\<forall>i. p_state (procs t i) = p_state (procs s i) \<and> p_chan (procs t i) = p_chan (procs s i))
     \<and> (\<forall>h. c_proc (cpus t h) = c_proc (cpus s h) \<and> c_next (cpus t h) = c_next (cpus s h))"

lemma same_sched_trans: "same_sched s t \<Longrightarrow> same_sched t u \<Longrightarrow> same_sched s u"
  by (simp add: same_sched_def)

text \<open>The state in which the executing hart holds the lock of process \<open>i\<close>, all others are free.\<close>

definition holds :: "'x kproc_scheme \<Rightarrow> nat \<Rightarrow> bool" where
  "holds s i \<longleftrightarrow> lk_locked (p_lock (procs s i)) \<and> lk_cpu (p_lock (procs s i)) = Some (hartid s)
     \<and> (\<forall>j. j \<noteq> i \<longrightarrow> \<not> lk_locked (p_lock (procs s j)))
     \<and> c_noff (mycpu s) = 1 \<and> \<not> c_sie (mycpu s) \<and> (\<forall>h. h \<noteq> hartid s \<longrightarrow> c_noff (cpus s h) = 0)"

lemma plock_acquire_free:
  assumes "locks_free s"
  shows "\<exists>t. plock_acquire i s = Inr ((), t) \<and> holds t i \<and> same_sched s t"
  using assms
  by (auto simp: plock_acquire_def acquire_def kdefs test_and_set_def Let_def locks_free_def holds_def
      same_sched_def)

lemma plock_release_holds:
  assumes "holds s i"
  shows "\<exists>t. plock_release i s = Inr ((), t) \<and> locks_free t \<and> same_sched s t"
  using assms
  by (auto simp: plock_release_def release_def kdefs lock_release_def Let_def locks_free_def holds_def
      same_sched_def)

section \<open>Switching between processes and schedulers\<close>

text \<open>
  The atomic steps of a hart: the scheduler chooses a process, which continues after the
  switch in \<open>sched\<close> or starts in \<open>forkret\<close> (both release its lock); the current process
  yields, sleeps or exits and the scheduler releases its lock.
\<close>

datatype resumption = Resume_yield bool | Resume_sleep bool | Resume_forkret

definition resume :: "resumption \<Rightarrow> ('x kproc_scheme, unit) km" where
  "resume r = (case r of
     Resume_yield intena \<Rightarrow> yield_in intena
   | Resume_sleep intena \<Rightarrow> sleep_in intena
   | Resume_forkret \<Rightarrow> bindK curproc plock_release)"

definition dispatch :: "resumption \<Rightarrow> ('x kproc_scheme, nat option) km" where
  "dispatch r = (bindK scheduler (\<lambda>i.
    thenK ((if i = None then returnK () else resume r)) (
    returnK i)))"

definition switch_out :: "('x kproc_scheme, bool) km \<Rightarrow> ('x kproc_scheme, unit) km" where
  "switch_out out = (bindK curproc (\<lambda>i.
    thenK out (
    scheduler_back i)))"

text \<open>The end of \<open>exit\<close>: the process becomes a zombie and never continues.\<close>

definition exit_out :: "int \<Rightarrow> ('x kproc_scheme, bool) km" where
  "exit_out status = (bindK curproc (\<lambda>i.
    thenK (plock_acquire i) (
    thenK (set_proc i (\<lambda>p. p\<lparr>p_xstate := status, p_state := ZOMBIE\<rparr>)) (
    sched))))"

inductive sched_step :: "kproc \<Rightarrow> kproc \<Rightarrow> bool" where
  hart: "sched_step s (s\<lparr>hartid := h\<rparr>)"
| dispatch: "c_proc (mycpu s) = None \<Longrightarrow> dispatch r s = Inr (i, t) \<Longrightarrow> sched_step s t"
| yield: "switch_out yield_out s = Inr ((), t) \<Longrightarrow> sched_step s t"
| sleep: "switch_out (sleep_out ch) s = Inr ((), t) \<Longrightarrow> sched_step s t"
| exit: "switch_out (exit_out status) s = Inr ((), t) \<Longrightarrow> sched_step s t"
| wakeup: "wakeup ch s = Inr ((), t) \<Longrightarrow> sched_step s t"
| kill: "kill pid s = Inr (r, t) \<Longrightarrow> sched_step s t"

definition sched_inv :: "'x kproc_scheme \<Rightarrow> bool" where
  "sched_inv s \<longleftrightarrow> locks_free s
     \<and> (\<forall>h i. c_proc (cpus s h) = Some i \<longrightarrow> i < NPROC \<and> p_state (procs s i) = RUNNING)
     \<and> (\<forall>h h' i. c_proc (cpus s h) = Some i \<longrightarrow> c_proc (cpus s h') = Some i \<longrightarrow> h = h')
     \<and> (\<forall>i. p_state (procs s i) = RUNNING \<longrightarrow> (\<exists>h. c_proc (cpus s h) = Some i))"

text \<open>From \<open>s\<close> the scheduler of the executing hart has switched to process \<open>i\<close>, giving \<open>t\<close>.\<close>

definition picked :: "'x kproc_scheme \<Rightarrow> 'x kproc_scheme \<Rightarrow> nat \<Rightarrow> bool" where
  "picked s t i \<longleftrightarrow> p_state (procs s i) = RUNNABLE \<and> holds t i \<and> hartid t = hartid s
     \<and> (\<forall>k. p_state (procs t k) = (if k = i then RUNNING else p_state (procs s k)))
     \<and> (\<forall>h. c_proc (cpus t h) = (if h = hartid s then Some i else c_proc (cpus s h)))
     \<and> c_next (mycpu t) = Suc i"

lemma picked_same: "same_sched s u \<Longrightarrow> picked u v i \<Longrightarrow> picked s v i"
  by (simp add: same_sched_def picked_def)

lemma scheduler_scan_free:
  assumes "locks_free s"
  shows "\<exists>r t. scheduler_scan is s = Inr (r, t) \<and>
    (case r of
       None \<Rightarrow> locks_free t \<and> same_sched s t \<and> (\<forall>i \<in> set is. p_state (procs s i) \<noteq> RUNNABLE)
     | Some i \<Rightarrow> picked s t i \<and>
         (\<exists>pre post. is = pre @ i # post \<and> (\<forall>k \<in> set pre. p_state (procs s k) \<noteq> RUNNABLE)))"
  using assms
proof (induction "is" arbitrary: s)
  case Nil
  then show ?case by (simp add: returnK_def same_sched_def)
next
  case (Cons i "is")
  obtain t where t: "plock_acquire i s = Inr ((), t)" "holds t i" "same_sched s t"
    using plock_acquire_free [OF Cons.prems] by blast
  show ?case
  proof (cases "p_state (procs s i) = RUNNABLE")
    case True
    define u where "u = t\<lparr>procs := (procs t)(i := (procs t i)\<lparr>p_state := RUNNING\<rparr>),
      cpus := (cpus t)(hartid t := (cpus t (hartid t))\<lparr>c_proc := Some i, c_next := Suc i\<rparr>)\<rparr>"
    have "p_state (procs t i) = RUNNABLE" using True t(3) by (simp add: same_sched_def)
    then have "scheduler_scan (i # is) s = Inr (Some i, u)"
      using t(1) by (simp add: kdefs u_def)
    moreover have "holds u i" using t(2) by (auto simp: u_def holds_def mycpu_def)
    moreover from this have "picked s u i"
      using t(3) True by (auto simp: picked_def u_def same_sched_def mycpu_def)
    moreover have "\<exists>pre post. i # is = pre @ i # post \<and> (\<forall>k \<in> set pre. p_state (procs s k) \<noteq> RUNNABLE)"
      by (intro exI [of _ "[]"] exI [of _ "is"]) simp
    ultimately show ?thesis by (intro exI [of _ "Some i"] exI [of _ u]) (simp only: option.case simp_thms)
  next
    case False
    obtain u where u: "plock_release i t = Inr ((), u)" "locks_free u" "same_sched t u"
      using plock_release_holds [OF t(2)] by blast
    have su: "same_sched s u" using t(3) u(3) by (rule same_sched_trans)
    have "p_state (procs t i) \<noteq> RUNNABLE" using False t(3) by (simp add: same_sched_def)
    then have eq: "scheduler_scan (i # is) s = scheduler_scan is u" using t(1) u(1) by (simp add: kdefs)
    obtain r v where v: "scheduler_scan is u = Inr (r, v)"
      "case r of
       None \<Rightarrow> locks_free v \<and> same_sched u v \<and> (\<forall>i \<in> set is. p_state (procs u i) \<noteq> RUNNABLE)
     | Some k \<Rightarrow> picked u v k \<and>
         (\<exists>pre post. is = pre @ k # post \<and> (\<forall>j \<in> set pre. p_state (procs u j) \<noteq> RUNNABLE))"
      using Cons.IH [OF u(2)] by blast
    show ?thesis
    proof (cases r)
      case None
      then show ?thesis using v eq su False by (auto simp: same_sched_def)
    next
      case (Some k)
      then obtain pre post where pp: "is = pre @ k # post"
        "\<forall>j \<in> set pre. p_state (procs u j) \<noteq> RUNNABLE" "picked u v k"
        using v(2) by auto
      have "i # is = (i # pre) @ k # post" "\<forall>j \<in> set (i # pre). p_state (procs s j) \<noteq> RUNNABLE"
        using pp su False by (auto simp: same_sched_def)
      moreover have "picked s v k" using su pp(3) by (rule picked_same)
      ultimately have "\<exists>pre post. i # is = pre @ k # post \<and> (\<forall>j \<in> set pre. p_state (procs s j) \<noteq> RUNNABLE)"
        by blast
      with \<open>picked s v k\<close> show ?thesis using v(1) eq Some by simp
    qed
  qed
qed

lemma upt_split:
  assumes "[l..<h] = pre @ i # post"
  shows "l \<le> i \<and> i < h \<and> set pre = {l..<i}"
proof -
  have n: "length pre < h - l" using arg_cong [OF assms, of length] by simp
  then have "[l..<h] ! length pre = l + length pre" by simp
  then have i: "i = l + length pre" using assms by (simp add: nth_append)
  have "pre = take (length pre) [l..<h]" using assms by simp
  also have "\<dots> = [l..<l + length pre]" using n by (simp add: take_upt)
  finally have "set pre = {l..<l + length pre}" by (metis set_upt)
  then show ?thesis using n i by simp
qed

lemma scheduler_free:
  assumes "locks_free s"
  shows "\<exists>r t. scheduler s = Inr (r, t) \<and>
    (case r of
       None \<Rightarrow> locks_free t \<and> hartid t = hartid s \<and> c_next (mycpu t) = 0
         \<and> (\<forall>k. p_state (procs t k) = p_state (procs s k)) \<and> (\<forall>h. c_proc (cpus t h) = c_proc (cpus s h))
         \<and> (\<forall>k. c_next (mycpu s) \<le> k \<longrightarrow> k < NPROC \<longrightarrow> p_state (procs s k) \<noteq> RUNNABLE)
     | Some i \<Rightarrow> picked s t i \<and> c_next (mycpu s) \<le> i \<and> i < NPROC
         \<and> (\<forall>k. c_next (mycpu s) \<le> k \<longrightarrow> k < i \<longrightarrow> p_state (procs s k) \<noteq> RUNNABLE))"
proof -
  obtain r t where t: "scheduler_scan [c_next (mycpu s)..<NPROC] s = Inr (r, t)"
    "case r of
       None \<Rightarrow> locks_free t \<and> same_sched s t \<and> (\<forall>i \<in> set [c_next (mycpu s)..<NPROC]. p_state (procs s i) \<noteq> RUNNABLE)
     | Some i \<Rightarrow> picked s t i \<and> (\<exists>pre post. [c_next (mycpu s)..<NPROC] = pre @ i # post
         \<and> (\<forall>k \<in> set pre. p_state (procs s k) \<noteq> RUNNABLE))"
    using scheduler_scan_free [OF assms] by blast
  show ?thesis
  proof (cases r)
    case None
    then show ?thesis using t
      by (auto simp: scheduler_def kdefs locks_free_def same_sched_def)
  next
    case (Some i)
    then have "scheduler s = Inr (Some i, t)" using t(1) by (simp add: scheduler_def kdefs)
    moreover have "c_next (mycpu s) \<le> i" "i < NPROC" "picked s t i"
      "\<forall>k. c_next (mycpu s) \<le> k \<longrightarrow> k < i \<longrightarrow> p_state (procs s k) \<noteq> RUNNABLE"
      using t(2) Some by (auto dest: upt_split)
    ultimately show ?thesis by (intro exI [of _ "Some i"] exI [of _ t]) simp
  qed
qed

lemma resume_holds:
  assumes "holds s i" "c_proc (mycpu s) = Some i"
  shows "\<exists>t. resume r s = Inr ((), t) \<and> locks_free t \<and> hartid t = hartid s
    \<and> (\<forall>k. p_state (procs t k) = p_state (procs s k))
    \<and> (\<forall>h. c_proc (cpus t h) = c_proc (cpus s h) \<and> c_next (cpus t h) = c_next (cpus s h))"
proof -
  have rel: "\<exists>t. plock_release i u = Inr ((), t) \<and> locks_free t \<and> hartid t = hartid s
    \<and> (\<forall>k. p_state (procs t k) = p_state (procs s k))
    \<and> (\<forall>h. c_proc (cpus t h) = c_proc (cpus s h) \<and> c_next (cpus t h) = c_next (cpus s h))"
    if "holds u i" "hartid u = hartid s" "\<And>k. p_state (procs u k) = p_state (procs s k)"
      "\<And>h. c_proc (cpus u h) = c_proc (cpus s h) \<and> c_next (cpus u h) = c_next (cpus s h)" for u
    using plock_release_holds [OF that(1)] that(2-) by (auto simp: same_sched_def)
  have cur: "curproc u = Inr (i, u)" if "c_proc (mycpu u) = Some i" for u :: "'a kproc_scheme"
    using that by (simp add: curproc_def kdefs myproc_def)
  define v where "v b = s\<lparr>cpus := (cpus s)(hartid s := (cpus s (hartid s))\<lparr>c_intena := b\<rparr>)\<rparr>" for b
  define w where "w b = (v b)\<lparr>procs := (procs s)(i := (procs s i)\<lparr>p_chan := None\<rparr>)\<rparr>" for b
  have v: "holds (v b) i" "c_proc (mycpu (v b)) = Some i" for b
    using assms by (auto simp: v_def holds_def mycpu_def)
  have w: "holds (w b) i" for b using v(1) [of b] by (auto simp: w_def v_def holds_def mycpu_def)
  show ?thesis
  proof (cases r)
    case (Resume_yield b)
    then have "resume r s = plock_release i (v b)"
      using cur [OF v(2)] by (simp add: resume_def yield_in_def sched_in_def kdefs v_def)
    then show ?thesis using rel [OF v(1)] by (simp add: v_def)
  next
    case (Resume_sleep b)
    then have "resume r s = plock_release i (w b)"
      using cur [OF v(2)] by (simp add: resume_def sleep_in_def sched_in_def kdefs v_def w_def)
    then show ?thesis using rel [OF w] by (simp add: v_def w_def)
  next
    case Resume_forkret
    then have "resume r s = plock_release i s" using cur [OF assms(2)] by (simp add: resume_def bindK_def)
    then show ?thesis using rel [OF assms(1)] by simp
  qed
qed

lemma dispatch_free:
  assumes "locks_free s"
  shows "\<exists>i t. dispatch r s = Inr (i, t) \<and> locks_free t \<and> hartid t = hartid s \<and>
    (case i of
       None \<Rightarrow> c_next (mycpu t) = 0 \<and> (\<forall>k. p_state (procs t k) = p_state (procs s k))
         \<and> (\<forall>h. c_proc (cpus t h) = c_proc (cpus s h))
         \<and> (\<forall>k. c_next (mycpu s) \<le> k \<longrightarrow> k < NPROC \<longrightarrow> p_state (procs s k) \<noteq> RUNNABLE)
     | Some i \<Rightarrow> c_next (mycpu s) \<le> i \<and> i < NPROC \<and> p_state (procs s i) = RUNNABLE \<and> c_next (mycpu t) = Suc i
         \<and> (\<forall>k. p_state (procs t k) = (if k = i then RUNNING else p_state (procs s k)))
         \<and> (\<forall>h. c_proc (cpus t h) = (if h = hartid s then Some i else c_proc (cpus s h)))
         \<and> (\<forall>k. c_next (mycpu s) \<le> k \<longrightarrow> k < i \<longrightarrow> p_state (procs s k) \<noteq> RUNNABLE))"
proof -
  obtain i t where t: "scheduler s = Inr (i, t)" and i: "case i of
       None \<Rightarrow> locks_free t \<and> hartid t = hartid s \<and> c_next (mycpu t) = 0
         \<and> (\<forall>k. p_state (procs t k) = p_state (procs s k)) \<and> (\<forall>h. c_proc (cpus t h) = c_proc (cpus s h))
         \<and> (\<forall>k. c_next (mycpu s) \<le> k \<longrightarrow> k < NPROC \<longrightarrow> p_state (procs s k) \<noteq> RUNNABLE)
     | Some i \<Rightarrow> picked s t i \<and> c_next (mycpu s) \<le> i \<and> i < NPROC
         \<and> (\<forall>k. c_next (mycpu s) \<le> k \<longrightarrow> k < i \<longrightarrow> p_state (procs s k) \<noteq> RUNNABLE)"
    using scheduler_free [OF assms] by blast
  show ?thesis
  proof (cases i)
    case None
    then show ?thesis using t i by (auto simp: dispatch_def kdefs)
  next
    case (Some k)
    then have p: "picked s t k" using i by simp
    then have "holds t k" "c_proc (mycpu t) = Some k" by (simp_all add: picked_def mycpu_def)
    from resume_holds [OF this, of r] obtain u where u: "resume r t = Inr ((), u)" "locks_free u"
      "hartid u = hartid t" "\<forall>k. p_state (procs u k) = p_state (procs t k)"
      "\<forall>h. c_proc (cpus u h) = c_proc (cpus t h) \<and> c_next (cpus u h) = c_next (cpus t h)"
      by blast
    have "dispatch r s = Inr (Some k, u)" using t u(1) Some by (simp add: dispatch_def kdefs)
    then show ?thesis using u p i Some
      by (intro exI [of _ "Some k"] exI [of _ u]) (simp add: picked_def mycpu_def)
  qed
qed

lemma switch_out_free:
  assumes free: "locks_free s" and cur: "c_proc (mycpu s) = Some i"
    and out: "out = bindK curproc (\<lambda>i. thenK (plock_acquire i) (thenK (set_proc i f) sched))"
    and f: "\<And>p. p_lock (f p) = p_lock p" "\<And>p. p_state (f p) = st" "st \<noteq> RUNNING"
  shows "\<exists>t. switch_out out s = Inr ((), t) \<and> locks_free t \<and> hartid t = hartid s
    \<and> (\<forall>k. p_state (procs t k) = (if k = i then st else p_state (procs s k)))
    \<and> (\<forall>h. c_proc (cpus t h) = (if h = hartid s then None else c_proc (cpus s h)))
    \<and> (\<forall>h. c_next (cpus t h) = c_next (cpus s h)) \<and> (\<exists>p. p_chan (procs t i) = p_chan (f p))"
proof -
  obtain t where t: "plock_acquire i s = Inr ((), t)" "holds t i" "same_sched s t"
    using plock_acquire_free [OF free] by blast
  define u where "u = t\<lparr>procs := (procs t)(i := f (procs t i))\<rparr>"
  define v where "v = u\<lparr>cpus := (cpus u)(hartid u := (cpus u (hartid u))\<lparr>c_proc := None\<rparr>)\<rparr>"
  have hu: "holds u i" using t(2) f(1) by (auto simp: u_def holds_def mycpu_def)
  have cu: "c_proc (mycpu u) = Some i" using cur t(3) by (simp add: u_def same_sched_def mycpu_def)
  have "sched u = Inr (c_intena (mycpu u), u)"
    using hu cu f(2,3) by (simp add: sched_def curproc_def myproc_def kdefs holds_def u_def)
  then have "out s = Inr (c_intena (mycpu u), u)"
    using t(1) cur by (simp add: out curproc_def myproc_def kdefs u_def)
  then have eq: "switch_out out s = plock_release i v"
    using cur by (simp add: switch_out_def scheduler_back_def curproc_def myproc_def kdefs v_def)
  have "holds v i" using hu by (auto simp: v_def holds_def mycpu_def)
  then obtain w where w: "plock_release i v = Inr ((), w)" "locks_free w" "same_sched v w"
    using plock_release_holds by blast
  have "p_state (procs v k) = (if k = i then st else p_state (procs s k))" for k
    using t(3) f(2) by (simp add: v_def u_def same_sched_def)
  moreover have "c_proc (cpus v h) = (if h = hartid s then None else c_proc (cpus s h))"
    "c_next (cpus v h) = c_next (cpus s h)" "hartid v = hartid s" for h
    using t(3) by (simp_all add: v_def u_def same_sched_def)
  moreover have "p_chan (procs v i) = p_chan (f (procs t i))" by (simp add: v_def u_def)
  ultimately show ?thesis using w eq by (auto simp: same_sched_def)
qed

lemma sched_inv_switch:
  assumes "sched_inv s" "c_proc (mycpu s) = Some i" "locks_free t" "hartid t = hartid s" "st \<noteq> RUNNING"
    "\<forall>k. p_state (procs t k) = (if k = i then st else p_state (procs s k))"
    "\<forall>h. c_proc (cpus t h) = (if h = hartid s then None else c_proc (cpus s h))"
  shows "sched_inv t"
proof -
  have inj: "c_proc (cpus s h) = Some i \<Longrightarrow> h = hartid s" for h
    using assms(1,2) unfolding sched_inv_def mycpu_def by blast
  show ?thesis
    unfolding sched_inv_def
  proof (intro conjI allI impI)
    show "locks_free t" by fact
    fix h k
    assume *: "c_proc (cpus t h) = Some k"
    then have h: "h \<noteq> hartid s" "c_proc (cpus s h) = Some k" using assms(7) by (auto split: if_splits)
    then have "k \<noteq> i" using inj by blast
    then show "k < NPROC" "p_state (procs t k) = RUNNING"
      using h assms(1,6) unfolding sched_inv_def by auto
    fix h'
    assume "c_proc (cpus t h') = Some k"
    then show "h = h'" using * assms(1,7) unfolding sched_inv_def by (metis option.distinct(1))
  next
    fix k
    assume "p_state (procs t k) = RUNNING"
    then have k: "k \<noteq> i" "p_state (procs s k) = RUNNING" using assms(5,6) by (auto split: if_splits)
    then obtain h where h: "c_proc (cpus s h) = Some k" using assms(1) unfolding sched_inv_def by blast
    then have "h \<noteq> hartid s" using k(1) assms(2) by (auto simp: mycpu_def)
    then show "\<exists>h. c_proc (cpus t h) = Some k" using h assms(7) by auto
  qed
qed

lemma sched_inv_dispatch:
  assumes "sched_inv s" "c_proc (mycpu s) = None" "locks_free t" "hartid t = hartid s"
    "i < NPROC" "p_state (procs s i) = RUNNABLE"
    "\<forall>k. p_state (procs t k) = (if k = i then RUNNING else p_state (procs s k))"
    "\<forall>h. c_proc (cpus t h) = (if h = hartid s then Some i else c_proc (cpus s h))"
  shows "sched_inv t"
proof -
  have no: "c_proc (cpus s h) \<noteq> Some i" for h
    using assms(1,6) unfolding sched_inv_def by auto
  show ?thesis
    unfolding sched_inv_def
  proof (intro conjI allI impI)
    show "locks_free t" by fact
    fix h k
    assume *: "c_proc (cpus t h) = Some k"
    then show "k < NPROC" "p_state (procs t k) = RUNNING"
      using assms(1,5,7,8) unfolding sched_inv_def by (auto split: if_splits)
    fix h'
    assume "c_proc (cpus t h') = Some k"
    with * show "h = h'" using assms(1,8) no [of h] no [of h'] unfolding sched_inv_def
      by (cases "h = hartid s"; cases "h' = hartid s") auto
  next
    fix k
    assume r: "p_state (procs t k) = RUNNING"
    show "\<exists>h. c_proc (cpus t h) = Some k"
    proof (cases "k = i")
      case False
      then have "p_state (procs s k) = RUNNING" using r assms(7) by simp
      then obtain h where h: "c_proc (cpus s h) = Some k" using assms(1) unfolding sched_inv_def by blast
      then have "h \<noteq> hartid s" using assms(2) by (auto simp: mycpu_def)
      then show ?thesis using h assms(8) by auto
    qed (use assms(8) in auto)
  qed
qed

lemma sched_inv_states:
  assumes "sched_inv s" "cpus t = cpus s" "\<And>i. p_lock (procs t i) = p_lock (procs s i)"
    "\<And>i. p_state (procs t i) = RUNNING \<longleftrightarrow> p_state (procs s i) = RUNNING"
  shows "sched_inv t"
  using assms unfolding sched_inv_def locks_free_def by auto

lemma switch_out_cur: "switch_out out s = Inr ((), t) \<Longrightarrow> \<exists>i. c_proc (mycpu s) = Some i"
  by (cases "c_proc (mycpu s)") (auto simp: switch_out_def curproc_def myproc_def kdefs)

lemma sched_inv_out:
  assumes inv: "sched_inv s" and t: "switch_out out s = Inr ((), t)"
    and out: "out = bindK curproc (\<lambda>i. thenK (plock_acquire i) (thenK (set_proc i f) sched))"
    and f: "\<And>p. p_lock (f p) = p_lock p" "\<And>p. p_state (f p) = st" "st \<noteq> RUNNING"
  shows "sched_inv t"
proof -
  obtain i where i: "c_proc (mycpu s) = Some i" using switch_out_cur [OF t] by blast
  have free: "locks_free s" using inv by (simp add: sched_inv_def)
  show ?thesis
    using switch_out_free [OF free i out f] t by (intro sched_inv_switch [OF inv i, of t st]) (auto simp: f(3))
qed

definition kill_proc :: "proc \<Rightarrow> proc" where
  "kill_proc p = (if p_state p = SLEEPING then p\<lparr>p_killed := 1, p_state := RUNNABLE\<rparr> else p\<lparr>p_killed := 1\<rparr>)"

lemma kill_proc_simps [simp]:
  "p_lock (kill_proc p) = p_lock p" "p_state (kill_proc p) = RUNNING \<longleftrightarrow> p_state p = RUNNING"
  by (simp_all add: kill_proc_def)

lemma kill_eq:
  "kill pid s = (case find (\<lambda>i. p_pid (procs s i) = pid) [0..<NPROC] of
     None \<Rightarrow> Inr (- 1, s)
   | Some i \<Rightarrow> Inr (0, s\<lparr>procs := (procs s)(i := kill_proc (procs s i))\<rparr>))"
  by (simp add: kill_def find_proc_def kdefs Let_def kill_proc_def split: option.split)

lemma sched_inv_step:
  assumes "sched_inv s" "sched_step s t"
  shows "sched_inv t"
  using assms(2)
proof cases
  case (hart h)
  then show ?thesis using assms(1) by (simp add: sched_inv_def locks_free_def)
next
  case (dispatch r i)
  have free: "locks_free s" using assms(1) by (simp add: sched_inv_def)
  show ?thesis
  proof (cases i)
    case None
    then show ?thesis using dispatch_free [OF free, of r] dispatch assms(1) by (auto simp: sched_inv_def)
  next
    case (Some k)
    then show ?thesis using dispatch_free [OF free, of r] dispatch assms(1)
      by (intro sched_inv_dispatch [of s t k]) auto
  qed
next
  case yield
  show ?thesis by (rule sched_inv_out [OF assms(1) yield yield_out_def, where st = RUNNABLE]) simp_all
next
  case (sleep ch)
  show ?thesis by (rule sched_inv_out [OF assms(1) sleep sleep_out_def, where st = SLEEPING]) simp_all
next
  case (exit status)
  show ?thesis by (rule sched_inv_out [OF assms(1) exit exit_out_def, where st = ZOMBIE]) simp_all
next
  case (wakeup ch)
  then have t: "t = s\<lparr>procs := \<lambda>i. if woken s ch i
     then (procs s i)\<lparr>p_state := RUNNABLE\<rparr> else procs s i\<rparr>" by (simp add: wakeup_eq)
  show ?thesis unfolding t by (rule sched_inv_states [OF assms(1)]) (simp_all add: woken_def)
next
  case (kill pid r)
  then have t: "t = s \<or> (\<exists>i. t = s\<lparr>procs := (procs s)(i := kill_proc (procs s i))\<rparr>)"
    by (auto simp: kill_eq split: option.splits)
  show ?thesis
  proof (cases "t = s")
    case False
    then obtain i where i: "t = s\<lparr>procs := (procs s)(i := kill_proc (procs s i))\<rparr>" using t by blast
    show ?thesis unfolding i by (rule sched_inv_states [OF assms(1)]) simp_all
  qed (simp add: assms(1))
qed

text \<open>Nothing a hart does next can panic.\<close>

lemma sched_no_panic:
  assumes inv: "sched_inv s"
  shows "\<exists>i t. dispatch r s = Inr (i, t)"
    and "c_proc (mycpu s) = Some i \<Longrightarrow> \<exists>t. switch_out yield_out s = Inr ((), t)"
    and "c_proc (mycpu s) = Some i \<Longrightarrow> \<exists>t. switch_out (sleep_out ch) s = Inr ((), t)"
    and "c_proc (mycpu s) = Some i \<Longrightarrow> \<exists>t. switch_out (exit_out status) s = Inr ((), t)"
proof -
  have free: "locks_free s" using inv by (simp add: sched_inv_def)
  show "\<exists>i t. dispatch r s = Inr (i, t)" using dispatch_free [OF free] by blast
  assume i: "c_proc (mycpu s) = Some i"
  show "\<exists>t. switch_out yield_out s = Inr ((), t)"
    using switch_out_free [OF free i yield_out_def, where st = RUNNABLE] by auto
  show "\<exists>t. switch_out (sleep_out ch) s = Inr ((), t)"
    using switch_out_free [OF free i sleep_out_def [of ch], where st = SLEEPING] by auto
  show "\<exists>t. switch_out (exit_out status) s = Inr ((), t)"
    using switch_out_free [OF free i exit_out_def [of status], where st = ZOMBIE] by auto
qed

section \<open>Properties\<close>



definition no_proc :: proc where
  "no_proc = \<lparr>p_lock = initlock ''proc'', p_state = UNUSED, p_chan = None, p_killed = 0, p_xstate = 0,
     p_pid = 0, p_parent = None, p_kstack = 0, p_sz = 0, p_pagetable = 0, p_trapframe = 0,
     p_context = \<lparr>ctx_ra = 0, ctx_sp = 0\<rparr>, p_ofile = replicate NOFILE None, p_cwd = None,
     p_name = replicate 16 0\<rparr>"

definition idle_cpu :: cpu where
  "idle_cpu = \<lparr>c_proc = None, c_noff = 0, c_intena = False, c_sie = True, c_next = 0\<rparr>"

text \<open>A machine with one runnable process, in slot 0, and idle CPUs.\<close>

definition boot :: "nat \<Rightarrow> kproc" where
  "boot n = \<lparr>mem = (\<lambda>_. 0), freelist = 0, kend = KERNBASE, hartid = 0, cpus = (\<lambda>_. idle_cpu\<lparr>c_next := n\<rparr>),
     procs = (\<lambda>_. no_proc)(0 := no_proc\<lparr>p_state := RUNNABLE, p_pid := 1\<rparr>), initproc = Some 0, nextpid = 2,
     ticks = 0, trampoline = 0x80007000, forkret_addr = 0x80001000\<rparr>"

lemma boot_facts: "locks_free (boot n)" "c_proc (cpus (boot n) h) = None" "p_state (procs (boot n) i) \<noteq> RUNNING"
  "c_next (mycpu (boot n)) = n" "p_state (procs (boot n) i) = RUNNABLE \<longleftrightarrow> i = 0"
  by (simp_all add: boot_def locks_free_def no_proc_def idle_cpu_def initlock_def mycpu_def)

lemma boot_dispatch: "\<exists>t. sched_step\<^sup>*\<^sup>* (boot 0) t \<and> p_state (procs t 0) = RUNNING \<and> c_proc (mycpu t) = Some 0"
proof -
  obtain i t where t: "dispatch Resume_forkret (boot 0) = Inr (i, t)" "hartid t = hartid (boot 0)" and i: "case i of
       None \<Rightarrow> p_state (procs (boot 0) 0) \<noteq> RUNNABLE
     | Some i \<Rightarrow> p_state (procs (boot 0) i) = RUNNABLE
         \<and> (\<forall>k. p_state (procs t k) = (if k = i then RUNNING else p_state (procs (boot 0) k)))
         \<and> (\<forall>h. c_proc (cpus t h) = (if h = hartid (boot 0) then Some i else c_proc (cpus (boot 0) h)))"
    using dispatch_free [OF boot_facts(1) [of 0], of Resume_forkret]
    by (fastforce simp: boot_facts NPROC_def split: option.splits)
  have "sched_step (boot 0) t"
    using sched_step.dispatch [OF _ t(1)] by (simp add: mycpu_def boot_facts)
  moreover have "i = Some 0"
    using i boot_facts(5) [of 0 0] by (cases i) (auto simp: NPROC_def boot_facts dest: spec [of _ 0])
  then have "p_state (procs t 0) = RUNNING" "c_proc (mycpu t) = Some 0"
    using i t(2) by (simp_all add: mycpu_def)
  ultimately show ?thesis by blast
qed



definition busy :: "nat \<Rightarrow> kproc" where
  "busy i = (boot 0)\<lparr>cpus := (\<lambda>_. idle_cpu)(0 := idle_cpu\<lparr>c_proc := Some i\<rparr>),
     procs := (\<lambda>_. no_proc)(i := no_proc\<lparr>p_state := RUNNING, p_pid := 1\<rparr>)\<rparr>"


text \<open>How many more choices the scheduler of a CPU makes before it comes to slot \<open>i\<close>.\<close>

definition distance :: "nat \<Rightarrow> nat \<Rightarrow> nat" where
  "distance i n = (if n \<le> i then i - n else NPROC - n + 1 + i)"

lemma dispatch_distance:
  assumes "locks_free s" "p_state (procs s i) = RUNNABLE" "i < NPROC" "dispatch r s = Inr (k, t)"
  shows "k = Some i \<or> distance i (c_next (mycpu t)) < distance i (c_next (mycpu s))"
proof -
  from dispatch_free [OF assms(1), of r] assms(4) show ?thesis
    using assms(2,3) by (cases k) (auto simp: distance_def not_le not_less split: if_splits)
qed

lemma distance_descends:
  assumes "i < NPROC"
    and "\<And>k. k \<le> m \<Longrightarrow> locks_free (\<sigma> k) \<and> p_state (procs (\<sigma> k) i) = RUNNABLE"
    and "\<And>k. k < m \<Longrightarrow> \<exists>t. dispatch (r k) (\<sigma> k) = Inr (chosen k, t)
      \<and> c_next (mycpu (\<sigma> (Suc k))) = c_next (mycpu t)"
    and "\<And>k. k < m \<Longrightarrow> chosen k \<noteq> Some i"
  shows "distance i (c_next (mycpu (\<sigma> m))) + m \<le> distance i (c_next (mycpu (\<sigma> 0)))"
  using assms
proof (induction m)
  case (Suc m)
  obtain t where t: "dispatch (r m) (\<sigma> m) = Inr (chosen m, t)"
    "c_next (mycpu (\<sigma> (Suc m))) = c_next (mycpu t)"
    using Suc.prems(3) [of m] by auto
  have "distance i (c_next (mycpu t)) < distance i (c_next (mycpu (\<sigma> m)))"
    using dispatch_distance [OF _ _ Suc.prems(1) t(1)] Suc.prems(2) [of m] Suc.prems(4) [of m] by auto
  moreover have "distance i (c_next (mycpu (\<sigma> m))) + m \<le> distance i (c_next (mycpu (\<sigma> 0)))"
    using Suc.prems by (intro Suc.IH) auto
  ultimately show ?case using t(2) by simp
qed simp

text \<open>C25: the scheduler is fair: along any sequence of choices of one CPU, with any changes to
  the process table between them, a process that stays runnable is chosen within
  \<open>NPROC + 1\<close> choices.\<close>

theorem scheduler_bounded_wait:
  assumes "i < NPROC"
    and "\<forall>k \<le> NPROC. locks_free (\<sigma> k) \<and> p_state (procs (\<sigma> k) i) = RUNNABLE"
    and "\<forall>k \<le> NPROC. \<exists>t. dispatch (r k) (\<sigma> k) = Inr (chosen k, t)
      \<and> c_next (mycpu (\<sigma> (Suc k))) = c_next (mycpu t)"
  shows "\<exists>k \<le> NPROC. chosen k = Some i"
proof (rule ccontr)
  assume no: "\<not> ?thesis"
  have "distance i (c_next (mycpu (\<sigma> NPROC))) + NPROC \<le> distance i (c_next (mycpu (\<sigma> 0)))"
    using assms no by (intro distance_descends [where r = r and chosen = chosen]) auto
  also have "\<dots> \<le> NPROC" using assms(1) by (auto simp: distance_def)
  finally have "distance i (c_next (mycpu (\<sigma> NPROC))) = 0" by simp
  moreover have "\<exists>t. dispatch (r NPROC) (\<sigma> NPROC) = Inr (chosen NPROC, t)" using assms(3) by auto
  ultimately show False
    using dispatch_distance [OF _ _ assms(1), of "\<sigma> NPROC"] assms(2) no by fastforce
qed

theorem scheduler_bounded_wait_witness:
  "\<exists>chosen. (\<forall>k. \<exists>t. dispatch Resume_forkret (boot (k mod 2)) = Inr (chosen k, t)
      \<and> c_next (mycpu (boot (Suc k mod 2))) = c_next (mycpu t))
    \<and> (\<exists>k \<le> NPROC. chosen k = Some 0)"
proof -
  define chosen :: "nat \<Rightarrow> nat option" where "chosen k = (if k mod 2 = 0 then Some 0 else None)" for k
  have nxt: "\<exists>t. dispatch Resume_forkret (boot (k mod 2)) = Inr (chosen k, t)
      \<and> c_next (mycpu (boot (Suc k mod 2))) = c_next (mycpu t)" for k
  proof -
    obtain i t where t: "dispatch Resume_forkret (boot (k mod 2)) = Inr (i, t)" "case i of
       None \<Rightarrow> c_next (mycpu t) = 0 \<and> (\<forall>j. k mod 2 \<le> j \<longrightarrow> j < NPROC \<longrightarrow> j \<noteq> 0)
     | Some i \<Rightarrow> k mod 2 \<le> i \<and> i = 0 \<and> c_next (mycpu t) = Suc i"
      using dispatch_free [OF boot_facts(1) [of "k mod 2"], of Resume_forkret]
      by (auto simp: boot_facts split: option.splits)
    have "k mod 2 = 0 \<or> k mod 2 = 1" by linarith
    then have "i = chosen k" "c_next (mycpu t) = Suc k mod 2"
      using t(2) by (cases i; auto simp: chosen_def NPROC_def mod_Suc)+
    then show ?thesis using t(1) by (auto simp: boot_facts)
  qed
  have "\<exists>k \<le> NPROC. chosen k = Some 0"
    by (rule scheduler_bounded_wait [of 0 "\<lambda>k. boot (k mod 2)" "\<lambda>_. Resume_forkret"])
      (use nxt boot_facts in \<open>auto simp: NPROC_def\<close>)
  with nxt show ?thesis by blast
qed

end
