(* ===== verification/Vm_Frame.thy ===== *)
theory Vm_Frame
  imports Vm
begin

text \<open>
  The memory functions touch nothing but the physical memory and the free list: a frame
  calculus (\<open>kmem_only\<close>) with one rule per combinator, and the fact for every function of
  \<open>kernel/vm.c\<close>.
\<close>

definition kmem_only :: "('x kmem_scheme, 'a) km \<Rightarrow> bool" where
  "kmem_only m \<longleftrightarrow> (\<forall>s. wlpK m (\<lambda>_. kmem_frame s) s)"

named_theorems kframe \<open>code that changes only memory and free list\<close>

lemma kmem_onlyD: "kmem_only m \<Longrightarrow> m s = Inr (x, t) \<Longrightarrow> kmem_frame s t"
  by (auto simp: kmem_only_def wlpK_def dest: spec [of _ s])

lemma kmem_onlyI: "(\<And>s x t. m s = Inr (x, t) \<Longrightarrow> kmem_frame s t) \<Longrightarrow> kmem_only m"
  by (auto simp: kmem_only_def wlpK_def split: sum.split)

lemma kmem_only_returnK [kframe]: "kmem_only (returnK x)"
  by (simp add: kmem_only_def wp)

lemma kmem_only_panicK [kframe]: "kmem_only (panicK x)"
  by (simp add: kmem_only_def wp)

lemma kmem_only_blockK [kframe]: "kmem_only (blockK x)"
  by (simp add: kmem_only_def wp)

lemma kmem_only_getK [kframe]: "kmem_only (getK f)"
  by (simp add: kmem_only_def wp)

lemma kmem_only_mem [kframe]: "kmem_only (modifyK (\<lambda>s. s\<lparr>mem := f s\<rparr>))"
  by (simp add: kmem_only_def wp)

lemma kmem_only_bindK [kframe]:
  assumes "kmem_only m" "\<And>x. kmem_only (f x)"
  shows "kmem_only (bindK m f)"
proof (rule kmem_onlyI)
  fix s x t
  assume "bindK m f s = Inr (x, t)"
  then obtain y u where "m s = Inr (y, u)" "f y u = Inr (x, t)" by (auto simp: bindK_def split: sum.splits)
  then show "kmem_frame s t" using assms by (blast intro: kmem_frame_trans dest: kmem_onlyD)
qed

lemma kmem_only_thenK [kframe]: "kmem_only m \<Longrightarrow> kmem_only k \<Longrightarrow> kmem_only (thenK m k)"
  unfolding thenK_def by (rule kmem_only_bindK)

lemma kmem_only_if [kframe]: "kmem_only m \<Longrightarrow> kmem_only n \<Longrightarrow> kmem_only (if b then m else n)"
  by simp

lemma kmem_only_let [kframe]: "(\<And>x. x = e \<Longrightarrow> kmem_only (f x)) \<Longrightarrow> kmem_only (let x = e in f x)"
  by simp

lemma kmem_only_forK [kframe]: "(\<And>i. kmem_only (body i)) \<Longrightarrow> kmem_only (forK is body)"
  by (induction "is") (auto intro: kframe)

lemma kmem_only_kalloc [kframe]: "kmem_only kalloc"
  by (simp add: kmem_only_def kalloc_frame)

lemma kmem_only_kfree [kframe]: "kmem_only (kfree pa)"
  by (simp add: kmem_only_def kfree_frame)

lemma kmem_only_read64 [kframe]: "kmem_only (read64 a)"
  unfolding read64_def by (rule kframe)

lemma kmem_only_write64 [kframe]: "kmem_only (write64 a v)"
  unfolding write64_def by (rule kframe)

lemma kmem_only_zero_page [kframe]: "kmem_only (zero_page p)"
  unfolding zero_page_def by (rule kframe)

lemma kmem_only_walk_level [kframe]: "kmem_only (walk_level l pt va alloc)"
  by (induction l arbitrary: pt) (auto simp: Let_def intro!: kframe simp del: PTE_V_def)

lemma kmem_only_walk [kframe]: "kmem_only (walk pt va alloc)"
  unfolding walk_def by (intro kframe)

lemma kmem_only_walkaddr [kframe]: "kmem_only (walkaddr pt va)"
  unfolding walkaddr_def by (intro kframe)

text \<open>
  Loops: unfolded once, with the frame of the next iteration, which runs only below \<open>MAXVA\<close>.
\<close>

lemma next_below: "unat a < unat MAXVA \<Longrightarrow> unat MAXVA - unat (a + PGSIZE) < unat MAXVA - unat a"
  using unat_next_page [of a] by linarith

lemma kmem_only_walk_bind:
  assumes "unat a < unat MAXVA \<Longrightarrow> \<forall>x. kmem_only (f x)"
  shows "kmem_only (bindK (walk pt a alloc) f)"
proof (cases "unat a < unat MAXVA")
  case True
  then show ?thesis using assms by (intro kframe) auto
next
  case False
  then show ?thesis
    by (intro kmem_onlyI) (auto simp: bindK_def split: sum.splits dest: walk_returns)
qed

lemma kmem_only_mappages_loop [kframe]: "kmem_only (mappages_loop pt a lst pa perm)"
proof (induction "unat MAXVA - unat a" arbitrary: a pa rule: less_induct)
  case (less a pa)
  have eq: "mappages_loop pt a lst pa perm = bindK (walk pt a True) (\<lambda>pte.
       if pte = 0 then returnK (- 1)
       else bindK (read64 pte) (\<lambda>v.
         if v AND PTE_V \<noteq> 0 then panicK ''mappages: remap''
         else thenK (write64 pte (PA2PTE pa OR perm OR PTE_V))
                (if a = lst then returnK 0
                 else mappages_loop pt (a + PGSIZE) lst (pa + PGSIZE) perm)))"
    by (rule ext) (rule mappages_loop.simps)
  show ?case unfolding eq
    by (rule kmem_only_walk_bind) (use less next_below [of a] in \<open>auto intro!: kframe simp del: MAXVA_def PGSIZE_def PTE_V_def\<close>)
qed

lemma kmem_only_mappages [kframe]: "kmem_only (mappages pt va sz pa perm)"
  unfolding mappages_def by (intro kframe)

lemma kmem_only_uvmunmap_loop [kframe]: "kmem_only (uvmunmap_loop pt a stop do_free)"
proof (induction "unat MAXVA - unat a" arbitrary: a rule: less_induct)
  case (less a)
  have eq: "uvmunmap_loop pt a stop do_free = (if a < stop then
        bindK (walk pt a False) (\<lambda>pte.
          if pte = 0 then panicK ''uvmunmap: walk''
          else bindK (read64 pte) (\<lambda>v.
            if v AND PTE_V = 0 then panicK ''uvmunmap: not mapped''
            else if PTE_FLAGS v = PTE_V then panicK ''uvmunmap: not a leaf''
            else thenK (if do_free then kfree (PTE2PA v) else returnK ())
                   (thenK (write64 pte 0) (uvmunmap_loop pt (a + PGSIZE) stop do_free))))
      else returnK ())"
    by (rule ext) (simp add: uvmunmap_loop.simps [of pt a] del: PGSIZE_def PTE_V_def)
  show ?case unfolding eq
    by (intro kmem_only_if kmem_only_walk_bind)
      (use less next_below [of a] in \<open>auto intro!: kframe simp del: MAXVA_def PGSIZE_def PTE_V_def\<close>)
qed

lemma kmem_only_uvmunmap [kframe]: "kmem_only (uvmunmap pt va n do_free)"
  unfolding uvmunmap_def by (intro kframe)

lemma kmem_only_uvmcreate [kframe]: "kmem_only uvmcreate"
  unfolding uvmcreate_def by (intro kframe)

lemma kmem_only_uvmfirst [kframe]: "kmem_only (uvmfirst pt src)"
  unfolding uvmfirst_def by (intro kframe)

lemma kmem_only_uvmdealloc [kframe]: "kmem_only (uvmdealloc pt oldsz newsz)"
  unfolding uvmdealloc_def Let_def by (intro kframe)

lemma kmem_only_mappages_bind:
  assumes "unat a < unat MAXVA \<Longrightarrow> \<forall>x. kmem_only (f x)"
  shows "kmem_only (bindK (mappages pt a sz pa perm) f)"
proof (cases "unat a < unat MAXVA")
  case True
  then show ?thesis using assms by (intro kframe) auto
next
  case False
  then show ?thesis
    by (intro kmem_onlyI) (auto simp: bindK_def split: sum.splits dest: mappages_returns)
qed

lemma kmem_only_uvmalloc_loop [kframe]: "kmem_only (uvmalloc_loop pt a oldsz newsz xperm)"
proof (induction "unat MAXVA - unat a" arbitrary: a rule: less_induct)
  case (less a)
  have eq: "uvmalloc_loop pt a oldsz newsz xperm = (if a < newsz then
        bindK kalloc (\<lambda>page.
          if page = 0 then thenK (uvmdealloc pt a oldsz) (returnK 0)
          else thenK (zero_page page)
            (bindK (mappages pt a PGSIZE page (PTE_R OR PTE_U OR xperm)) (\<lambda>r.
              if r \<noteq> 0
              then thenK (kfree page) (thenK (uvmdealloc pt a oldsz) (returnK 0))
              else uvmalloc_loop pt (a + PGSIZE) oldsz newsz xperm)))
      else returnK newsz)"
    by (rule ext) (simp add: uvmalloc_loop.simps [of pt a] del: PGSIZE_def PTE_R_def PTE_U_def)
  show ?case unfolding eq
    by (intro kmem_only_if kmem_only_bindK [of kalloc] kmem_only_thenK [of "zero_page _"]
        kmem_only_mappages_bind kmem_only_kalloc kmem_only_zero_page)
      (use less next_below [of a] in \<open>auto intro!: kframe simp del: MAXVA_def PGSIZE_def PTE_R_def PTE_U_def\<close>)
qed

lemma kmem_only_uvmalloc [kframe]: "kmem_only (uvmalloc pt oldsz newsz xperm)"
  unfolding uvmalloc_def by (intro kframe)

lemma kmem_only_freewalk_depth [kframe]: "kmem_only (freewalk_depth d pt)"
  by (induction d arbitrary: pt) (auto intro!: kframe simp del: PTE_V_def PTE_R_def PTE_W_def PTE_X_def)

lemma kmem_only_freewalk [kframe]: "kmem_only (freewalk pt)"
  unfolding freewalk_def by (intro kframe)

lemma kmem_only_uvmfree [kframe]: "kmem_only (uvmfree pt sz)"
  unfolding uvmfree_def by (intro kframe)

lemma kmem_only_uvmclear [kframe]: "kmem_only (uvmclear pt va)"
  unfolding uvmclear_def by (intro kframe)

lemma kmem_only_copyout [kframe]: "kmem_only (copyout pt va src)"
proof (induction "length src" arbitrary: va src rule: less_induct)
  case less
  let ?n = "copy_chunk va (length src)"
  have eq: "copyout pt va src = (if src \<noteq> [] then
        (let va0 = PGROUNDDOWN va in
         if va0 \<ge> MAXVA then returnK (- 1)
         else bindK (walk pt va0 False) (\<lambda>pte.
           if pte = 0 then returnK (- 1)
           else bindK (read64 pte) (\<lambda>v.
             if v AND PTE_V = 0 \<or> v AND PTE_U = 0 \<or> v AND PTE_W = 0 then returnK (- 1)
             else thenK
               (modifyK (\<lambda>s. s\<lparr>mem := write_mem (mem s) (PTE2PA v + (va - va0)) (take ?n src)\<rparr>))
               (copyout pt (va0 + PGSIZE) (drop ?n src)))))
      else returnK 0)"
    by (rule ext) (simp add: copyout.simps [of pt va] Let_def del: MAXVA_def PGSIZE_def PTE_V_def PTE_U_def PTE_W_def)
  have "length (drop ?n src) < length src" if "src \<noteq> []"
    using that copy_chunk_pos [of "length src" va] by simp
  then show ?case unfolding eq Let_def
    by (cases "src = []")
      (auto intro!: kframe less simp del: MAXVA_def PGSIZE_def PTE_V_def PTE_U_def PTE_W_def length_drop)
qed

end
