(* ===== verification/Proc_Table.thy ===== *)
theory Proc_Table
  imports Proc_Sched Vm_Frame
begin

text \<open>
  Properties of process creation, \<open>kill\<close> and \<open>wait\<close> of \<open>kernel/proc.c\<close>: which slot and which
  pid a new process gets, what \<open>kill\<close> marks, and what \<open>wait\<close> returns.
\<close>

lemma kmem_frame_procs:
  assumes "kmem_frame s t"
  shows "procs t = procs s" "nextpid t = nextpid s" "cpus t = cpus s" "hartid t = hartid s"
    "initproc t = initproc s"
proof -
  have t: "t = s\<lparr>mem := mem t, freelist := freelist t\<rparr>" using assms by (simp add: kmem_frame_def)
  show "procs t = procs s" by (subst t) simp
  show "nextpid t = nextpid s" by (subst t) simp
  show "cpus t = cpus s" by (subst t) simp
  show "hartid t = hartid s" by (subst t) simp
  show "initproc t = initproc s" by (subst t) simp
qed

lemma kmem_only_get_proc [kframe]: "kmem_only (get_proc i)"
  unfolding get_proc_def by (rule kframe)

lemma kmem_only_proc_pagetable [kframe]: "kmem_only (proc_pagetable i)"
  unfolding proc_pagetable_def by (intro kframe)

lemma kmem_only_proc_freepagetable [kframe]: "kmem_only (proc_freepagetable pt sz)"
  unfolding proc_freepagetable_def by (intro kframe)

lemma bindK_Inr: "bindK m f s = Inr (x, t) \<longleftrightarrow> (\<exists>y u. m s = Inr (y, u) \<and> f y u = Inr (x, t))"
  by (auto simp: bindK_def split: sum.splits)

lemma thenK_Inr: "thenK m k s = Inr (x, t) \<longleftrightarrow> (\<exists>y u. m s = Inr (y, u) \<and> k u = Inr (x, t))"
  by (simp add: thenK_def bindK_Inr)

lemma allocproc_slot:
  assumes "allocproc s = Inr (Some i, t)"
  shows "i < NPROC \<and> p_state (procs s i) = UNUSED \<and> (\<forall>k < i. p_state (procs s k) \<noteq> UNUSED)
    \<and> p_state (procs t i) = USED \<and> p_pid (procs t i) = nextpid s \<and> nextpid t = nextpid s + 1
    \<and> p_killed (procs t i) = p_killed (procs s i) \<and> p_trapframe (procs t i) \<noteq> 0
    \<and> p_pagetable (procs t i) \<noteq> 0 \<and> (\<forall>k. k \<noteq> i \<longrightarrow> procs t k = procs s k)"
proof -
  obtain j where j: "find (\<lambda>i. p_state (procs s i) = UNUSED) [0..<NPROC] = Some j"
    using assms by (cases "find (\<lambda>i. p_state (procs s i) = UNUSED) [0..<NPROC]")
      (auto simp: allocproc_def find_proc_def kdefs)
  then have slot: "j < NPROC" "p_state (procs s j) = UNUSED" "\<forall>k < j. p_state (procs s k) \<noteq> UNUSED"
    by (auto simp: find_Some_iff)
  define s1 where "s1 = s\<lparr>nextpid := nextpid s + 1,
    procs := (procs s)(j := (procs s j)\<lparr>p_pid := nextpid s, p_state := USED\<rparr>)\<rparr>"
  have "\<exists>tf s2 pt s3. kalloc s1 = Inr (tf, s2) \<and> tf \<noteq> 0
      \<and> proc_pagetable j (s2\<lparr>procs := (procs s2)(j := (procs s2 j)\<lparr>p_trapframe := tf\<rparr>)\<rparr>) = Inr (pt, s3)
      \<and> pt \<noteq> 0 \<and> i = j
      \<and> procs t = (procs s3)(j := (procs s3 j)\<lparr>p_pagetable := pt,
          p_context := \<lparr>ctx_ra = forkret_addr s3, ctx_sp = p_kstack (procs s3 j) + PGSIZE\<rparr>\<rparr>)
      \<and> nextpid t = nextpid s3"
    using assms j
    by (simp add: allocproc_def find_proc_def allocpid_def set_proc_def returnK_def getK_def modifyK_def
        bindK_Inr thenK_Inr s1_def del: PGSIZE_def split: if_splits)
      (auto simp: bindK_Inr thenK_Inr returnK_def)
  then obtain tf s2 pt s3 where s2: "kalloc s1 = Inr (tf, s2)" "tf \<noteq> 0"
    and s3: "proc_pagetable j (s2\<lparr>procs := (procs s2)(j := (procs s2 j)\<lparr>p_trapframe := tf\<rparr>)\<rparr>) = Inr (pt, s3)"
    and "pt \<noteq> 0" "i = j"
    and t: "procs t = (procs s3)(j := (procs s3 j)\<lparr>p_pagetable := pt,
          p_context := \<lparr>ctx_ra = forkret_addr s3, ctx_sp = p_kstack (procs s3 j) + PGSIZE\<rparr>\<rparr>)"
      "nextpid t = nextpid s3" by blast
  have "procs s2 = procs s1" "nextpid s2 = nextpid s1"
    using kmem_frame_procs [OF kmem_onlyD [OF kmem_only_kalloc s2(1)]] by simp_all
  moreover have "procs s3 = (procs s2)(j := (procs s2 j)\<lparr>p_trapframe := tf\<rparr>)" "nextpid s3 = nextpid s2"
    using kmem_frame_procs [OF kmem_onlyD [OF kmem_only_proc_pagetable s3]] by simp_all
  ultimately show ?thesis using slot s2(2) \<open>pt \<noteq> 0\<close> \<open>i = j\<close> t by (simp add: s1_def)
qed



lemma wait_scan_none:
  assumes "\<forall>k \<in> set is. p_parent (procs s k) = Some p \<longrightarrow> p_state (procs s k) \<noteq> ZOMBIE"
  shows "wait_scan p addr is hk s = Inr ((None, hk \<or> (\<exists>k \<in> set is. p_parent (procs s k) = Some p)), s)"
  using assms by (induction "is" arbitrary: hk) (auto simp: kdefs)

text \<open>when no child of the caller is a zombie, \<open>wait\<close> changes nothing: it returns -1 when the
  caller has no children or was killed, and otherwise goes to sleep.\<close>

theorem wait_without_zombie:
  assumes "c_proc (mycpu s) = Some p"
    and "\<forall>k < NPROC. p_parent (procs s k) = Some p \<longrightarrow> p_state (procs s k) \<noteq> ZOMBIE"
  shows "wait addr s =
    (if (\<exists>k < NPROC. p_parent (procs s k) = Some p) \<and> p_killed (procs s p) = 0
     then Inl (Blocked ''wait'') else Inr (- 1, s))"
proof -
  have "wait_scan p addr [0..<NPROC] False s
      = Inr ((None, \<exists>k < NPROC. p_parent (procs s k) = Some p), s)"
    using wait_scan_none [of "[0..<NPROC]" s p addr False] assms(2) by auto
  then show ?thesis
    using assms(1) by (auto simp: wait_def curproc_def myproc_def killed_def kdefs)
qed

theorem wait_without_zombie_witness:
  "wait 0 (busy 3) =
    (if (\<exists>k < NPROC. p_parent (procs (busy 3) k) = Some 3) \<and> p_killed (procs (busy 3) 3) = 0
     then Inl (Blocked ''wait'') else Inr (- 1, busy 3))"
  by (rule wait_without_zombie) (simp_all add: busy_def boot_def no_proc_def idle_cpu_def mycpu_def)

end
