(* ===== verification/Sleeplock.thy ===== *)
theory Sleeplock
  imports Proc_Sched
begin

text \<open>
  Sleep locks (\<open>kernel/sleeplock.c\<close>). The spin lock inside a sleep lock protects each
  function, which is therefore one atomic step; waiting for a lock that is held is \<open>Blocked\<close>.
  The functions take the lock and return it updated, its owner stores it back.
\<close>

record sleeplock =
  sl_locked :: bool
  sl_lk :: spinlock
  sl_name :: string
  sl_pid :: int

definition initsleeplock :: "string \<Rightarrow> sleeplock" where
  "initsleeplock name = \<lparr>sl_locked = False, sl_lk = initlock ''sleep lock'', sl_name = name, sl_pid = 0\<rparr>"

definition acquiresleep :: "sleeplock \<Rightarrow> ('x kproc_scheme, sleeplock) km" where
  "acquiresleep lk = (if sl_locked lk then blockK ''sleep lock'' else
    bindK curproc (\<lambda>i.
    bindK (get_proc i) (\<lambda>p.
    returnK (lk\<lparr>sl_locked := True, sl_pid := p_pid p\<rparr>))))"

definition releasesleep :: "chan \<Rightarrow> sleeplock \<Rightarrow> ('x kproc_scheme, sleeplock) km" where
  "releasesleep ch lk = (thenK (wakeup ch) (
    returnK (lk\<lparr>sl_locked := False, sl_pid := 0\<rparr>)))"

definition holdingsleep :: "sleeplock \<Rightarrow> ('x kproc_scheme, bool) km" where
  "holdingsleep lk = (if \<not> sl_locked lk then returnK False else
    bindK curproc (\<lambda>i.
    bindK (get_proc i) (\<lambda>p.
    returnK (sl_pid lk = p_pid p))))"

declare initsleeplock_def [kdefs] acquiresleep_def [kdefs] holdingsleep_def [kdefs]

text \<open>What another component sees of the process table: the calling process.\<close>

definition current :: "'x kproc_scheme \<Rightarrow> nat \<Rightarrow> bool" where
  "current s i \<longleftrightarrow> c_proc (mycpu s) = Some i"

lemma curproc_current: "current s i \<Longrightarrow> curproc s = Inr (i, s)"
  by (simp add: current_def curproc_def myproc_def kdefs)

lemma acquiresleep_free:
  "current s i \<Longrightarrow> \<not> sl_locked lk \<Longrightarrow>
    acquiresleep lk s = Inr (lk\<lparr>sl_locked := True, sl_pid := p_pid (procs s i)\<rparr>, s)"
  by (simp add: acquiresleep_def bindK_def curproc_current get_proc_def getK_def returnK_def)

lemma holdingsleep_eq:
  "current s i \<Longrightarrow> holdingsleep lk s = Inr (sl_locked lk \<and> sl_pid lk = p_pid (procs s i), s)"
  by (simp add: holdingsleep_def bindK_def curproc_current get_proc_def getK_def returnK_def)

text \<open>\<open>wakeup\<close> only touches the states of sleeping processes.\<close>

definition wake :: "chan \<Rightarrow> 'x kproc_scheme \<Rightarrow> 'x kproc_scheme" where
  "wake ch s = s\<lparr>procs := \<lambda>i. if woken s ch i then (procs s i)\<lparr>p_state := RUNNABLE\<rparr> else procs s i\<rparr>"

lemma wakeup_wake: "wakeup ch s = Inr ((), wake ch s)"
  by (simp add: wakeup_eq wake_def)

lemma p_pid_wake [simp]: "p_pid (procs (wake ch s) i) = p_pid (procs s i)"
  by (simp add: wake_def)

lemma current_wake [simp]: "current (wake ch s) i = current s i"
  by (simp add: wake_def current_def mycpu_def)

lemma releasesleep_eq:
  "releasesleep ch lk s = Inr (lk\<lparr>sl_locked := False, sl_pid := 0\<rparr>, wake ch s)"
  by (simp add: releasesleep_def thenK_def bindK_def wakeup_wake returnK_def)

text \<open>a process that has acquired a free sleep lock holds it, another process does not and
  blocks on it; after the release the lock is free again for any process, and the sleepers on
  it have been woken.\<close>

theorem sleeplock_ownership:
  assumes "current s i" "\<not> sl_locked lk" "current s' j" "p_pid (procs s' j) \<noteq> p_pid (procs s i)"
  shows "\<exists>lk'. acquiresleep lk s = Inr (lk', s) \<and> holdingsleep lk' s = Inr (True, s)
    \<and> holdingsleep lk' s' = Inr (False, s') \<and> acquiresleep lk' s' = Inl (Blocked ''sleep lock'')
    \<and> (\<exists>lk'' t. releasesleep ch lk' s = Inr (lk'', t) \<and> \<not> sl_locked lk''
        \<and> (\<forall>k. woken s ch k \<longrightarrow> p_state (procs t k) = RUNNABLE)
        \<and> (\<exists>lk3. acquiresleep lk'' s' = Inr (lk3, s')))"
  using assms
  by (simp add: acquiresleep_free holdingsleep_eq releasesleep_eq wake_def)
    (simp add: acquiresleep_def blockK_def)

theorem sleeplock_ownership_witness:
  "\<exists>lk'. acquiresleep (initsleeplock ''b'') (busy 3) = Inr (lk', busy 3) \<and> holdingsleep lk' (busy 3) = Inr (True, busy 3)
    \<and> acquiresleep lk' ((busy 4)\<lparr>procs := (\<lambda>_. no_proc)(4 := no_proc\<lparr>p_pid := 2\<rparr>)\<rparr>) = Inl (Blocked ''sleep lock'')"
proof -
  have "current (busy 3) 3" "current ((busy 4)\<lparr>procs := (\<lambda>_. no_proc)(4 := no_proc\<lparr>p_pid := 2\<rparr>)\<rparr>) 4"
    by (simp_all add: current_def busy_def boot_def mycpu_def)
  from sleeplock_ownership [OF this(1) _ this(2), of "initsleeplock ''b''" ChanLog] show ?thesis
    by (simp add: initsleeplock_def busy_def boot_def) blast
qed

end
