(* ===== verification/Ring.thy ===== *)
theory Ring
  imports Prelude
begin

text \<open>
  Ring buffers: an array indexed by two free-running word counters modulo its capacity, as
  pipes, the console and the UART use them. The locale holds for every capacity that divides
  the range of the counters, so that the index does not jump when a counter wraps around.
\<close>

definition ring_contents :: "nat \<Rightarrow> 'a list \<Rightarrow> 'w::len word \<Rightarrow> 'w word \<Rightarrow> 'a list" where
  "ring_contents cap buf r w = map (\<lambda>i. buf ! ((unat r + i) mod cap)) [0..<unat (w - r)]"

definition ring_ok :: "nat \<Rightarrow> 'a list \<Rightarrow> 'w::len word \<Rightarrow> 'w word \<Rightarrow> bool" where
  "ring_ok cap buf r w \<longleftrightarrow> length buf = cap \<and> unat (w - r) \<le> cap"

lemma length_ring_contents [simp]: "length (ring_contents cap buf r w) = unat (w - r)"
  by (simp add: ring_contents_def)

lemma ring_contents_empty [simp]: "ring_contents cap buf r r = []"
  by (simp add: ring_contents_def)

locale ring =
  fixes cap :: nat and counter :: "'w::len itself"
  assumes cap_pos: "0 < cap" and cap_small: "cap < 2 ^ LENGTH('w)" and cap_dvd: "cap dvd 2 ^ LENGTH('w)"
begin

lemma index_mod: "unat (x + y :: 'w word) mod cap = (unat x + unat y) mod cap"
  using cap_dvd by (simp add: unat_word_ariths mod_mod_cancel)

lemma index_Suc: "unat (x + 1 :: 'w word) mod cap = Suc (unat x) mod cap"
  using index_mod [of x 1] by (cases "LENGTH('w) = 1") (auto simp: unat_1)

lemma index_le: "(unat r + unat (w - r)) mod cap = unat (w :: 'w word) mod cap"
  using index_mod [of r "w - r"] by simp

lemma index_inj_le:
  assumes "i \<le> j" "j < cap" "(a + i) mod cap = (a + j) mod cap"
  shows "i = j"
proof -
  have "cap dvd (a + j) - (a + i)"
    using assms by (metis add_le_cancel_left mod_eq_dvd_iff_nat)
  then have "cap dvd j - i" by simp
  then show ?thesis using assms by (auto dest: dvd_imp_le)
qed

lemma index_inj:
  assumes "i < cap" "j < cap" "(a + i) mod cap = (a + j) mod cap"
  shows "i = j"
  using index_inj_le [of i j a] index_inj_le [of j i a] assms by (cases "i \<le> j") auto

lemma count_Suc:
  assumes "unat (w - r :: 'w word) < cap"
  shows "unat (w + 1 - r) = Suc (unat (w - r))"
proof -
  have "Suc (unat (w - r)) < 2 ^ LENGTH('w)" using assms cap_small by simp
  then have "unat (w - r + 1) = Suc (unat (w - r))"
    by (simp add: unat_word_ariths)
  then show ?thesis by (simp add: algebra_simps)
qed

lemma count_pred:
  assumes "w \<noteq> (r :: 'w word)"
  shows "unat (w - r) = Suc (unat (w - (r + 1)))"
proof -
  have "w - r \<noteq> 0" using assms by simp
  then have "unat (w - r - 1) = unat (w - r) - 1" "0 < unat (w - r)"
    by (simp_all add: unat_minus_one unat_gt_0)
  then show ?thesis by (simp add: diff_diff_eq)
qed

lemma contents_put:
  assumes "ring_ok cap buf r (w :: 'w word)" "unat (w - r) < cap"
  shows "ring_contents cap (buf[unat w mod cap := x]) r (w + 1) = ring_contents cap buf r w @ [x]"
proof -
  have same: "buf[unat w mod cap := x] ! ((unat r + i) mod cap) = buf ! ((unat r + i) mod cap)"
    if "i < unat (w - r)" for i
    using that assms index_inj [of i "unat (w - r)" "unat r"] index_le [of r w]
    by (metis less_irrefl less_trans nth_list_update_neq)
  have new: "buf[unat w mod cap := x] ! ((unat r + unat (w - r)) mod cap) = x"
    using assms cap_pos by (simp add: index_le ring_ok_def)
  show ?thesis unfolding ring_contents_def count_Suc [OF assms(2)]
    using same new by simp
qed

lemma ok_put:
  assumes "ring_ok cap buf r (w :: 'w word)" "unat (w - r) < cap"
  shows "ring_ok cap (buf[unat w mod cap := x]) r (w + 1)"
  using assms count_Suc [of w r] by (simp add: ring_ok_def)

lemma contents_get:
  assumes "w \<noteq> (r :: 'w word)"
  shows "ring_contents cap buf r w = buf ! (unat r mod cap) # ring_contents cap buf (r + 1) w"
proof -
  have "(unat (r + 1) + i) mod cap = (unat r + Suc i) mod cap" for i
    using index_Suc [of r] by (metis add_Suc_right add_Suc mod_add_left_eq)
  then show ?thesis
    unfolding ring_contents_def count_pred [OF assms]
    by (simp add: upt_conv_Cons map_Suc_upt [symmetric] comp_def del: upt_Suc)
qed

lemma ok_get:
  assumes "ring_ok cap buf r (w :: 'w word)" "w \<noteq> r"
  shows "ring_ok cap buf (r + 1) w"
  using assms count_pred [of w r] by (simp add: ring_ok_def)

lemma full_iff:
  assumes "ring_ok cap buf r (w :: 'w word)"
  shows "unat (w - r) < cap \<longleftrightarrow> w \<noteq> r + of_nat cap"
proof -
  have "w = r + of_nat cap \<longleftrightarrow> w - r = of_nat cap"
    by (auto simp: algebra_simps)
  also have "\<dots> \<longleftrightarrow> unat (w - r) = cap"
    using cap_small by (simp add: word_unat_eq_iff unat_of_nat)
  finally show ?thesis using assms by (auto simp: ring_ok_def)
qed

lemma contents_append:
  assumes "unat (w - r) + unat (e - w) = unat (e - r :: 'w word)"
  shows "ring_contents cap buf r e = ring_contents cap buf r w @ ring_contents cap buf w e"
proof -
  have "(unat w + i) mod cap = (unat r + (unat (w - r) + i)) mod cap" for i
    by (metis add.assoc index_le mod_add_left_eq)
  moreover have "[0..<a + b] = [0..<a] @ map (\<lambda>i. a + i) [0..<b]" for a b :: nat
    by (induction b) auto
  ultimately show ?thesis
    unfolding ring_contents_def assms [symmetric] by (simp add: comp_def)
qed

lemma count_last:
  assumes "w \<noteq> (r :: 'w word)"
  shows "unat (w - r) = Suc (unat (w - 1 - r))"
  using count_pred [OF assms] by (simp add: diff_diff_eq add.commute)

lemma contents_last:
  assumes "w \<noteq> (r :: 'w word)"
  shows "ring_contents cap buf r (w - 1) = butlast (ring_contents cap buf r w)"
    and "ring_contents cap buf r w = butlast (ring_contents cap buf r w) @ [buf ! (unat (w - 1) mod cap)]"
proof -
  have "ring_contents cap buf r w = ring_contents cap buf r (w - 1) @ [buf ! (unat (w - 1) mod cap)]"
    unfolding ring_contents_def count_last [OF assms] using index_le [of r "w - 1"] by simp
  then show "ring_contents cap buf r (w - 1) = butlast (ring_contents cap buf r w)"
    "ring_contents cap buf r w = butlast (ring_contents cap buf r w) @ [buf ! (unat (w - 1) mod cap)]"
    by simp_all
qed

end

end
