(* ===== verification/Uart.thy ===== *)
theory Uart
  imports Sleeplock Ring
begin

text \<open>
  The 16550 UART driver (\<open>kernel/uart.c\<close>). The device is part of the state: the bytes it has
  received and the kernel has not read (\<open>uart_rx\<close>), the bytes it has been given to send
  (\<open>uart_out\<close>), and how many more it takes before its transmit register is full
  (\<open>uart_room\<close>, raised by the device as it sends). The state of the console and of \<open>printf\<close>
  is in the same record.
\<close>

section \<open>State\<close>

datatype dev_read = Consoleread
datatype dev_write = Consolewrite

record kcons = kproc +
  uart_rx :: bytes
  uart_out :: bytes
  uart_room :: nat
  uart_regs :: "nat \<Rightarrow> u8"
  uart_divisor :: "nat \<Rightarrow> u8"
  uart_tx_buf :: bytes
  uart_tx_w :: u64
  uart_tx_r :: u64
  panicked :: bool
  pr_locking :: bool
  cons_buf :: bytes
  cons_r :: u32
  cons_w :: u32
  cons_e :: u32
  cons_rawmode :: int
  devsw :: "nat \<Rightarrow> dev_read option \<times> dev_write option"

section \<open>Registers\<close>

definition RHR :: nat where "RHR = 0"
definition THR :: nat where "THR = 0"
definition IER :: nat where "IER = 1"
definition IER_RX_ENABLE :: u8 where "IER_RX_ENABLE = 1"
definition IER_TX_ENABLE :: u8 where "IER_TX_ENABLE = 2"
definition FCR :: nat where "FCR = 2"
definition FCR_FIFO_ENABLE :: u8 where "FCR_FIFO_ENABLE = 1"
definition FCR_FIFO_CLEAR :: u8 where "FCR_FIFO_CLEAR = 6"
definition ISR :: nat where "ISR = 2"
definition LCR :: nat where "LCR = 3"
definition LCR_EIGHT_BITS :: u8 where "LCR_EIGHT_BITS = 3"
definition LCR_BAUD_LATCH :: u8 where "LCR_BAUD_LATCH = 128"
definition LSR :: nat where "LSR = 5"
definition LSR_RX_READY :: u8 where "LSR_RX_READY = 1"
definition LSR_TX_IDLE :: u8 where "LSR_TX_IDLE = 32"
definition UART_TX_BUF_SIZE :: nat where "UART_TX_BUF_SIZE = 32"

lemmas uart_consts = RHR_def THR_def IER_def FCR_def ISR_def LCR_def LSR_def IER_RX_ENABLE_def
  IER_TX_ENABLE_def FCR_FIFO_ENABLE_def FCR_FIFO_CLEAR_def LCR_EIGHT_BITS_def LCR_BAUD_LATCH_def
  LSR_RX_READY_def LSR_TX_IDLE_def UART_TX_BUF_SIZE_def

text \<open>
  Reading the receive register takes a byte; the line status register says whether there is
  one and whether the transmitter takes another. In baud-latch mode registers 0 and 1 are
  the divisor, and clearing the FIFOs drops what was received.
\<close>

definition ReadReg :: "nat \<Rightarrow> ('x kcons_scheme, u8) km" where
  "ReadReg reg = (if reg = RHR then (bindK (getK uart_rx) (\<lambda>rx.
    thenK (modifyK (\<lambda>s. s\<lparr>uart_rx := tl rx\<rparr>)) (
    returnK (case rx of [] \<Rightarrow> 0 | c # _ \<Rightarrow> c))))
     else if reg = LSR then
       getK (\<lambda>s. (if uart_rx s \<noteq> [] then LSR_RX_READY else 0) OR (if 0 < uart_room s then LSR_TX_IDLE else 0))
     else getK (\<lambda>s. uart_regs s reg))"

definition WriteReg :: "nat \<Rightarrow> u8 \<Rightarrow> ('x kcons_scheme, unit) km" where
  "WriteReg reg v = modifyK (\<lambda>s.
     if reg \<le> 1 \<and> uart_regs s LCR AND LCR_BAUD_LATCH \<noteq> 0
     then s\<lparr>uart_divisor := (uart_divisor s)(reg := v)\<rparr>
     else if reg = THR then s\<lparr>uart_out := uart_out s @ [v], uart_room := uart_room s - 1\<rparr>
     else if reg = FCR \<and> v AND FCR_FIFO_CLEAR \<noteq> 0 then s\<lparr>uart_regs := (uart_regs s)(reg := v), uart_rx := []\<rparr>
     else s\<lparr>uart_regs := (uart_regs s)(reg := v)\<rparr>)"

definition uartinit :: "('x kcons_scheme, unit) km" where
  "uartinit = (thenK (WriteReg IER 0) (
    thenK (WriteReg LCR LCR_BAUD_LATCH) (
    thenK (WriteReg 0 3) (
    thenK (WriteReg 1 0) (
    thenK (WriteReg LCR LCR_EIGHT_BITS) (
    thenK (WriteReg FCR (FCR_FIFO_ENABLE OR FCR_FIFO_CLEAR)) (
    WriteReg IER (IER_TX_ENABLE OR IER_RX_ENABLE))))))))"

section \<open>Sending\<close>

text \<open>The loop of \<open>uartstart\<close>; each round takes a byte from the buffer, so that the number of
  bytes in it, plus one round to see that it is empty, is enough.\<close>

fun uartstart_loop :: "nat \<Rightarrow> ('x kcons_scheme, unit) km" where
  "uartstart_loop 0 = undefK ''uartstart''"
| "uartstart_loop (Suc fuel) = (bindK (getK uart_tx_w) (\<lambda>w.
  bindK (getK uart_tx_r) (\<lambda>r.
  if w = r then (thenK (ReadReg ISR) (
    returnK ())) else
  bindK (ReadReg LSR) (\<lambda>lsr.
  if lsr AND LSR_TX_IDLE = 0 then returnK () else
  bindK (getK uart_tx_buf) (\<lambda>buf.
  let c = buf ! (unat r mod UART_TX_BUF_SIZE) in
  thenK (modifyK (\<lambda>s. s\<lparr>uart_tx_r := r + 1\<rparr>)) (
  thenK (wakeup ChanUart) (
  thenK (WriteReg THR c) (
  uartstart_loop fuel))))))))"

definition uartstart :: "('x kcons_scheme, unit) km" where
  "uartstart = (bindK (getK (\<lambda>s. unat (uart_tx_w s - uart_tx_r s))) (\<lambda>n.
    uartstart_loop (Suc n)))"

definition uartputc :: "u8 \<Rightarrow> ('x kcons_scheme, unit) km" where
  "uartputc c = (bindK (getK panicked) (\<lambda>pan.
    if pan then blockK ''panicked'' else
    bindK (getK uart_tx_w) (\<lambda>w.
    bindK (getK uart_tx_r) (\<lambda>r.
    if w = r + of_nat UART_TX_BUF_SIZE then blockK ''uart_tx_r'' else
    thenK (modifyK (\<lambda>s. s\<lparr>uart_tx_buf := (uart_tx_buf s)[unat w mod UART_TX_BUF_SIZE := c]\<rparr>)) (
    thenK (modifyK (\<lambda>s. s\<lparr>uart_tx_w := w + 1\<rparr>)) (
    uartstart))))))"

text \<open>The busy wait for the transmitter, which the device ends by sending a byte.\<close>

definition uart_wait_idle :: "('x kcons_scheme, unit) km" where
  "uart_wait_idle = modifyK (\<lambda>s. if uart_room s = 0 then s\<lparr>uart_room := 1\<rparr> else s)"

definition uartputc_sync :: "u8 \<Rightarrow> ('x kcons_scheme, unit) km" where
  "uartputc_sync c = (thenK push_off (
    bindK (getK panicked) (\<lambda>pan.
    if pan then blockK ''panicked'' else
    thenK uart_wait_idle (
    thenK (WriteReg THR c) (
    pop_off)))))"

section \<open>Receiving\<close>

definition uartgetc :: "('x kcons_scheme, int) km" where
  "uartgetc = (bindK (ReadReg LSR) (\<lambda>lsr.
    if lsr AND 1 = 0 then returnK (- 1) else
    bindK (ReadReg RHR) (\<lambda>c.
    returnK (uint c))))"

declare ReadReg_def [kdefs] WriteReg_def [kdefs] uartinit_def [kdefs] uartgetc_def [kdefs]
  uart_wait_idle_def [kdefs]

section \<open>The transmit buffer is a queue\<close>

interpretation uart_ring: ring UART_TX_BUF_SIZE "TYPE(64)"
  by unfold_locales (simp_all add: UART_TX_BUF_SIZE_def)

definition uart_queue :: "'x kcons_scheme \<Rightarrow> bytes" where
  "uart_queue s = ring_contents UART_TX_BUF_SIZE (uart_tx_buf s) (uart_tx_r s) (uart_tx_w s)"

definition uart_ok :: "'x kcons_scheme \<Rightarrow> bool" where
  "uart_ok s \<longleftrightarrow> ring_ok UART_TX_BUF_SIZE (uart_tx_buf s) (uart_tx_r s) (uart_tx_w s)
     \<and> uart_regs s LCR AND LCR_BAUD_LATCH = 0"

lemma lsr_tx_idle:
  "((if b then LSR_RX_READY else 0) OR (if 0 < n then LSR_TX_IDLE else 0)) AND LSR_TX_IDLE = 0 \<longleftrightarrow> n = 0"
  for n :: nat
  by (simp add: uart_consts)

lemma lsr_rx_ready:
  "((if b then LSR_RX_READY else 0) OR (if c then LSR_TX_IDLE else 0)) AND 1 = 0 \<longleftrightarrow> \<not> b"
  by (simp add: uart_consts)

lemma wake_fields [simp]:
  "uart_tx_w (wake ch s) = uart_tx_w s" "uart_tx_r (wake ch s) = uart_tx_r s" "uart_tx_buf (wake ch s) = uart_tx_buf s"
  "uart_out (wake ch s) = uart_out s" "uart_room (wake ch s) = uart_room s" "uart_regs (wake ch s) = uart_regs s"
  "uart_rx (wake ch s) = uart_rx s" "panicked (wake ch s) = panicked s"
  by (simp_all add: wake_def)

lemma uartstart_loop_sends:
  assumes "uart_ok s" "length (uart_queue s) < fuel"
  shows "\<exists>t. uartstart_loop fuel s = Inr ((), t) \<and> uart_ok t
    \<and> uart_out t @ uart_queue t = uart_out s @ uart_queue s
    \<and> (uart_queue t = [] \<or> uart_room t = 0)"
  using assms
proof (induction fuel arbitrary: s)
  case (Suc fuel)
  show ?case
  proof (cases "uart_tx_w s = uart_tx_r s \<or> uart_room s = 0")
    case True
    then show ?thesis using Suc.prems(1)
      by (auto simp: kdefs uart_queue_def lsr_tx_idle [simplified] uart_consts)
  next
    case False
    then have ne: "uart_tx_w s \<noteq> uart_tx_r s" and room: "0 < uart_room s" by auto
    define u where "u = (let v = wake ChanUart (s\<lparr>uart_tx_r := uart_tx_r s + 1\<rparr>) in
      v\<lparr>uart_out := uart_out v @ [uart_tx_buf s ! (unat (uart_tx_r s) mod UART_TX_BUF_SIZE)], uart_room := uart_room v - 1\<rparr>)"
    have q: "uart_queue s = uart_tx_buf s ! (unat (uart_tx_r s) mod UART_TX_BUF_SIZE) # uart_queue u"
      using uart_ring.contents_get [OF ne] by (simp add: u_def uart_queue_def Let_def)
    have ok: "uart_ok u"
      using Suc.prems(1) uart_ring.ok_get [OF _ ne, of "uart_tx_buf s"] by (simp add: u_def uart_ok_def Let_def)
    have step: "uartstart_loop (Suc fuel) s = uartstart_loop fuel u"
      using ne room Suc.prems(1)
      by (simp add: kdefs wakeup_wake u_def Let_def uart_ok_def uart_consts)
    from Suc.IH [OF ok] Suc.prems(2) q obtain t where
      "uartstart_loop fuel u = Inr ((), t)" "uart_ok t" "uart_out t @ uart_queue t = uart_out u @ uart_queue u"
      "uart_queue t = [] \<or> uart_room t = 0" by auto
    with step q show ?thesis by (auto simp: u_def Let_def)
  qed
qed simp

lemma uartstart_sends:
  assumes "uart_ok s"
  shows "\<exists>t. uartstart s = Inr ((), t) \<and> uart_ok t \<and> uart_out t @ uart_queue t = uart_out s @ uart_queue s
    \<and> (uart_queue t = [] \<or> uart_room t = 0)"
  using uartstart_loop_sends [OF assms, of "Suc (length (uart_queue s))"]
  by (simp add: uartstart_def bindK_def getK_def uart_queue_def)


definition quiet_uart :: kcons where
  "quiet_uart = kproc.extend (boot 0) \<lparr>uart_rx = [], uart_out = [], uart_room = 1, uart_regs = (\<lambda>_. 0),
     uart_divisor = (\<lambda>_. 0), uart_tx_buf = replicate 32 0, uart_tx_w = 0, uart_tx_r = 0, panicked = False,
     pr_locking = True, cons_buf = replicate 128 0, cons_r = 0, cons_w = 0, cons_e = 0, cons_rawmode = 0,
     devsw = (\<lambda>_. (None, None))\<rparr>"


end
