(* ===== verification/Printf.thy ===== *)
theory Printf
  imports Uart
begin

text \<open>
  Formatted kernel output (\<open>kernel/printf.c\<close>, \<open>consputc\<close> of \<open>kernel/console.c\<close> and
  \<open>procdump\<close> of \<open>kernel/proc.c\<close>). A format is an Isabelle string without its terminating NUL,
  the variable arguments are a list of tagged values; a missing argument, an argument of the
  wrong type and a store beyond \<open>buf[16]\<close> of \<open>printint\<close> are undefined behaviour, \<open>Undef\<close>.
\<close>

section \<open>Output\<close>

definition BACKSPACE :: int where "BACKSPACE = 0x100"

definition consputc :: "int \<Rightarrow> ('x kcons_scheme, unit) km" where
  "consputc c = (if c = BACKSPACE then (thenK (uartputc_sync 8) (
    thenK (uartputc_sync 32) (
    uartputc_sync 8)))
     else uartputc_sync (word_of_int c))"

definition digits :: bytes where
  "digits = map of_char ''0123456789abcdef''"

text \<open>The digits of \<open>x\<close>, least significant first, as the \<open>do\<close> loop stores them.\<close>

function digit_loop :: "nat \<Rightarrow> nat \<Rightarrow> bytes" where
  "digit_loop base x = digits ! (x mod base) #
     (if base \<le> 1 \<or> x div base = 0 then [] else digit_loop base (x div base))"
  by auto
termination by (relation "measure snd") (auto intro!: div_less_dividend simp: div_greater_zero_iff)

declare digit_loop.simps [simp del]

definition printint :: "u64 \<Rightarrow> nat \<Rightarrow> bool \<Rightarrow> ('x kcons_scheme, unit) km" where
  "printint xx base sign = (
     let neg = sign \<and> sint xx < 0;
         x = (if neg then - xx else xx);
         buf = digit_loop base (unat x) @ (if neg then [of_char (CHR ''-'')] else [])
     in if length buf > 16 then undefK ''printint: buf''
        else forK (rev buf) (\<lambda>c. consputc (uint c)))"

definition printptr :: "u64 \<Rightarrow> ('x kcons_scheme, unit) km" where
  "printptr x = (thenK (consputc (of_char (CHR ''0''))) (
    thenK (consputc (of_char (CHR ''x''))) (
    forK [0..<16] (\<lambda>i. consputc (uint (digits ! unat (drop_bit 60 (push_bit (4 * i) x))))))))"

section \<open>printf\<close>

datatype parg = AInt u32 | AU64 u64 | AStr "bytes option"

definition arg_int :: "parg list \<Rightarrow> ('x kcons_scheme, u64) km" where
  "arg_int args = (case args of AInt v # _ \<Rightarrow> returnK (scast v) | _ \<Rightarrow> undefK ''va_arg'')"

definition arg_u64 :: "parg list \<Rightarrow> ('x kcons_scheme, u64) km" where
  "arg_u64 args = (case args of AU64 v # _ \<Rightarrow> returnK v | _ \<Rightarrow> undefK ''va_arg'')"

definition arg_str :: "parg list \<Rightarrow> ('x kcons_scheme, bytes) km" where
  "arg_str args = (case args of
       AStr (Some s) # _ \<Rightarrow> returnK (takeWhile (\<lambda>c. c \<noteq> 0) s)
     | AStr None # _ \<Rightarrow> returnK (map of_char ''(null)'')
     | _ \<Rightarrow> undefK ''va_arg'')"

definition fmt_at :: "string \<Rightarrow> nat \<Rightarrow> char" where
  "fmt_at f i = (if i < length f then f ! i else CHR 0x00)"

text \<open>What follows a \<open>%\<close>: the number of format characters used and the arguments left, or
  \<open>None\<close> at the end of the format.\<close>

definition printf_directive :: "string \<Rightarrow> parg list \<Rightarrow> ('x kcons_scheme, (nat \<times> parg list) option) km" where
  "printf_directive r args = (
     let c0 = fmt_at r 0; c1 = fmt_at r 1; c2 = fmt_at r 2 in
     if c0 = CHR ''d'' then (bindK (arg_int args) (\<lambda>v.
       thenK (printint v 10 True) (
       returnK (Some (1, tl args)))))
     else if c0 = CHR ''l'' \<and> c1 = CHR ''d'' then (bindK (arg_u64 args) (\<lambda>v.
       thenK (printint v 10 True) (
       returnK (Some (2, tl args)))))
     else if c0 = CHR ''l'' \<and> c1 = CHR ''l'' \<and> c2 = CHR ''d'' then (bindK (arg_u64 args) (\<lambda>v.
       thenK (printint v 10 True) (
       returnK (Some (3, tl args)))))
     else if c0 = CHR ''u'' then (bindK (arg_int args) (\<lambda>v.
       thenK (printint v 10 False) (
       returnK (Some (1, tl args)))))
     else if c0 = CHR ''l'' \<and> c1 = CHR ''u'' then (bindK (arg_u64 args) (\<lambda>v.
       thenK (printint v 10 False) (
       returnK (Some (2, tl args)))))
     else if c0 = CHR ''l'' \<and> c1 = CHR ''l'' \<and> c2 = CHR ''u'' then (bindK (arg_u64 args) (\<lambda>v.
       thenK (printint v 10 False) (
       returnK (Some (3, tl args)))))
     else if c0 = CHR ''x'' then (bindK (arg_int args) (\<lambda>v.
       thenK (printint v 16 False) (
       returnK (Some (1, tl args)))))
     else if c0 = CHR ''l'' \<and> c1 = CHR ''x'' then (bindK (arg_u64 args) (\<lambda>v.
       thenK (printint v 16 False) (
       returnK (Some (2, tl args)))))
     else if c0 = CHR ''l'' \<and> c1 = CHR ''l'' \<and> c2 = CHR ''x'' then (bindK (arg_u64 args) (\<lambda>v.
       thenK (printint v 16 False) (
       returnK (Some (3, tl args)))))
     else if c0 = CHR ''p'' then (bindK (arg_u64 args) (\<lambda>v.
       thenK (printptr v) (
       returnK (Some (1, tl args)))))
     else if c0 = CHR ''s'' then (bindK (arg_str args) (\<lambda>str.
       thenK (forK str (\<lambda>c. consputc (uint c))) (
       returnK (Some (1, tl args)))))
     else if c0 = CHR ''%'' then (thenK (consputc (of_char (CHR ''%''))) (
       returnK (Some (1, args))))
     else if c0 = CHR 0x00 then returnK None
     else (thenK (consputc (of_char (CHR ''%''))) (
       thenK (consputc (of_char c0)) (
       returnK (Some (1, args))))))"

function printf_loop :: "string \<Rightarrow> parg list \<Rightarrow> ('x kcons_scheme, unit) km" where
  "printf_loop [] args = returnK ()"
| "printf_loop (cx # r) args = (if cx \<noteq> CHR ''%'' then thenK (consputc (of_char cx)) (printf_loop r args)
     else bindK (printf_directive r args) (\<lambda>d.
       case d of None \<Rightarrow> returnK () | Some (n, args') \<Rightarrow> printf_loop (drop n r) args'))"
  by pat_completeness auto
termination by (relation "measure (\<lambda>(f, _). length f)") auto

definition printf :: "string \<Rightarrow> parg list \<Rightarrow> ('x kcons_scheme, int) km" where
  "printf fmt args = (thenK (printf_loop fmt args) (
    returnK 0))"

text \<open>\<open>panic\<close> up to its endless loop, and the initialisation.\<close>

definition panic :: "string \<Rightarrow> ('x kcons_scheme, unit) km" where
  "panic msg = (thenK (modifyK (\<lambda>s. s\<lparr>pr_locking := False\<rparr>)) (
    thenK (printf ''panic: '' []) (
    thenK (printf (''%s'' @ [CHR 0x0A]) [AStr (Some (map of_char msg))]) (
    modifyK (\<lambda>s. s\<lparr>panicked := True\<rparr>)))))"

definition printfinit :: "('x kcons_scheme, unit) km" where
  "printfinit = modifyK (\<lambda>s. s\<lparr>pr_locking := True\<rparr>)"

section \<open>Process listing\<close>

fun state_name :: "procstate \<Rightarrow> string" where
  "state_name UNUSED = ''unused''"
| "state_name USED = ''used''"
| "state_name SLEEPING = ''sleep ''"
| "state_name RUNNABLE = ''runble''"
| "state_name RUNNING = ''run   ''"
| "state_name ZOMBIE = ''zombie''"

definition procdump :: "('x kcons_scheme, unit) km" where
  "procdump = (thenK (printf [CHR 0x0A] []) (
    forK [0..<NPROC] (\<lambda>i. (bindK (get_proc i) (\<lambda>p.
      if p_state p = UNUSED then returnK () else
      thenK (printf ''%d %s %s'' [AInt (word_of_int (p_pid p)), AStr (Some (map of_char (state_name (p_state p)))), AStr (Some (p_name p))]) (
      thenK (printf [CHR 0x0A] []) (
      returnK ())))))))"

section \<open>Output only appends to what the UART sends\<close>

text \<open>Printing \<open>bs\<close> from \<open>s\<close> gives \<open>t\<close>: the bytes are sent, and apart from the transmitter and
  the saved interrupt flag of the CPUs nothing changes.\<close>

definition same_cpu :: "cpu \<Rightarrow> cpu \<Rightarrow> bool" where
  "same_cpu c d \<longleftrightarrow> c_noff c = c_noff d \<and> c_sie c = c_sie d \<and> c_proc c = c_proc d \<and> c_next c = c_next d"

definition emits :: "bytes \<Rightarrow> 'x kcons_scheme \<Rightarrow> 'x kcons_scheme \<Rightarrow> bool" where
  "emits bs s t \<longleftrightarrow> (\<exists>room cs. t = s\<lparr>cpus := cs, uart_out := uart_out s @ bs, uart_room := room\<rparr>
     \<and> (\<forall>h. same_cpu (cs h) (cpus s h)))"

text \<open>The console works: no panic, baud-latch mode left, matched \<open>push_off\<close> calls.\<close>

definition cons_live :: "'x kcons_scheme \<Rightarrow> bool" where
  "cons_live s \<longleftrightarrow> \<not> panicked s \<and> uart_regs s LCR AND LCR_BAUD_LATCH = 0
     \<and> 0 \<le> c_noff (mycpu s) \<and> (0 < c_noff (mycpu s) \<longrightarrow> \<not> c_sie (mycpu s))"

lemma emits_refl: "emits [] s s"
  unfolding emits_def same_cpu_def by (intro exI [of _ "uart_room s"] exI [of _ "cpus s"]) simp

lemma emits_trans: "emits bs s t \<Longrightarrow> emits cs t u \<Longrightarrow> emits (bs @ cs) s u"
  unfolding emits_def same_cpu_def by (elim exE conjE, intro exI conjI) auto

lemma emits_live: "emits bs s t \<Longrightarrow> cons_live s \<Longrightarrow> cons_live t"
  unfolding emits_def same_cpu_def cons_live_def mycpu_def by (elim exE conjE) simp

lemma emits_out: "emits bs s t \<Longrightarrow> uart_out t = uart_out s @ bs"
  by (auto simp: emits_def)

lemma uartputc_sync_emits:
  assumes "cons_live s"
  shows "wpK (uartputc_sync c) (\<lambda>_. emits [c] s) s"
proof -
  have "\<exists>cs room. uartputc_sync c s = Inr ((), s\<lparr>uart_out := uart_out s @ [c], uart_room := room, cpus := cs\<rparr>)
      \<and> (\<forall>h. same_cpu (cs h) (cpus s h))"
    using assms by (cases "c_noff (mycpu s) = 0"; cases "c_sie (mycpu s)")
      (auto simp: uartputc_sync_def cons_live_def kdefs uart_consts same_cpu_def,
        (intro exI conjI, rule refl, simp)+)
  then obtain cs room where t: "uartputc_sync c s = Inr ((), s\<lparr>uart_out := uart_out s @ [c], uart_room := room, cpus := cs\<rparr>)"
    and cs: "\<forall>h. same_cpu (cs h) (cpus s h)" by blast
  have "s\<lparr>uart_out := uart_out s @ [c], uart_room := room, cpus := cs\<rparr> = s\<lparr>cpus := cs, uart_out := uart_out s @ [c], uart_room := room\<rparr>"
    by simp
  with cs have "emits [c] s (s\<lparr>uart_out := uart_out s @ [c], uart_room := room, cpus := cs\<rparr>)"
    unfolding emits_def by blast
  with t show ?thesis by (simp add: wpK_def)
qed

lemma emits_step:
  assumes "wpK m (\<lambda>_. emits bs s) s" "\<And>t. emits bs s t \<Longrightarrow> wpK k (\<lambda>x. emits cs t) t"
  shows "wpK (thenK m k) (\<lambda>x. emits (bs @ cs) s) s"
  unfolding wp
  by (rule wpK_mono [OF assms(1)]) (rule wpK_mono [OF assms(2)], auto intro: emits_trans)

lemma consputc_emits:
  assumes "cons_live s" "0 \<le> c" "c < 256"
  shows "wpK (consputc c) (\<lambda>_. emits [word_of_int c] s) s"
  using uartputc_sync_emits [OF assms(1)] assms(2,3) by (simp add: consputc_def BACKSPACE_def)

lemma consputc_backspace:
  assumes "cons_live s"
  shows "wpK (consputc BACKSPACE) (\<lambda>_. emits [8, 32, 8] s) s"
  using emits_step [OF uartputc_sync_emits [OF assms] emits_step [OF uartputc_sync_emits uartputc_sync_emits]]
    emits_live [OF _ emits_live [OF _ assms]] emits_live [OF _ assms]
  by (simp add: consputc_def)

lemma forK_consputc_emits:
  assumes "cons_live s"
  shows "wpK (forK bs (\<lambda>c. consputc (uint c))) (\<lambda>_. emits bs s) s"
  using assms
proof (induction bs arbitrary: s)
  case Nil
  then show ?case by (simp add: wp emits_refl)
next
  case (Cons b bs)
  have "uint b < 256" using uint_lt2p [of b] by simp
  then have "wpK (consputc (uint b)) (\<lambda>_. emits [b] s) s"
    using consputc_emits [OF Cons.prems, of "uint b"] by simp
  from emits_step [OF this Cons.IH] Cons.prems show ?case
    using emits_live by (fastforce simp: thenK_def)
qed

section \<open>Numerals\<close>

definition digit_value :: "u8 \<Rightarrow> nat" where
  "digit_value c = (if c \<le> 57 then unat c - 48 else unat c - 87)"

definition num_value :: "nat \<Rightarrow> bytes \<Rightarrow> nat" where
  "num_value base ds = foldl (\<lambda>v c. v * base + digit_value c) 0 ds"

text \<open>What \<open>printint\<close> prints.\<close>

definition int_text :: "u64 \<Rightarrow> nat \<Rightarrow> bool \<Rightarrow> bytes" where
  "int_text xx base sign = (if sign \<and> sint xx < 0
     then of_char (CHR ''-'') # rev (digit_loop base (unat (- xx))) else rev (digit_loop base (unat xx)))"

lemma digit_value_digits: "d < 16 \<Longrightarrow> digit_value (digits ! d) = d"
proof -
  have "\<forall>d \<in> set [0..<16]. digit_value (digits ! d) = d" by code_simp
  then show "d < 16 \<Longrightarrow> digit_value (digits ! d) = d" by auto
qed

lemma num_value_digit_loop:
  assumes "2 \<le> base" "base \<le> 16"
  shows "num_value base (rev (digit_loop base x)) = x"
  using assms
proof (induction base x rule: digit_loop.induct)
  case (1 base x)
  have "digit_value (digits ! (x mod base)) = x mod base"
    using 1(2,3) by (intro digit_value_digits) (meson less_le_trans mod_less_divisor zero_less_numeral)
  moreover have "num_value base (rev (digit_loop base (x div base))) = x div base" if "x div base \<noteq> 0"
    using 1 that by simp
  ultimately show ?case
    using 1(2) by (subst digit_loop.simps) (simp add: num_value_def div_eq_0_iff)
qed

lemma length_digit_loop:
  assumes "2 \<le> base"
  shows "length (digit_loop base x) \<le> Suc k \<longleftrightarrow> x < base ^ Suc k"
  using assms
proof (induction k arbitrary: x)
  case 0
  then show ?case by (subst digit_loop.simps) (auto simp: div_eq_0_iff digit_loop.simps [of _ "x div base"])
next
  case (Suc k)
  have "x < base ^ Suc (Suc k) \<longleftrightarrow> x div base < base ^ Suc k"
    using Suc.prems by (simp add: div_less_iff_less_mult mult.commute mult.left_commute)
  with Suc show ?case
    by (subst digit_loop.simps) (auto simp: div_eq_0_iff)
qed

lemma digit_loop_digits:
  assumes "2 \<le> base" "base \<le> 16"
  shows "set (digit_loop base x) \<subseteq> set digits"
  using assms
proof (induction base x rule: digit_loop.induct)
  case (1 base x)
  have "length digits = 16" by (simp add: digits_def)
  moreover have "x mod base < 16"
    using 1(2,3) by (meson less_le_trans mod_less_divisor zero_less_numeral)
  ultimately have "x mod base < length digits" by simp
  with 1 show ?case by (subst digit_loop.simps) auto
qed

lemma digit_loop_ne: "digit_loop base x \<noteq> []"
  by (subst digit_loop.simps) simp

lemma printint_emits:
  assumes "cons_live s" "length (int_text xx base sign) \<le> 16"
  shows "wpK (printint xx base sign) (\<lambda>_. emits (int_text xx base sign) s) s"
  using forK_consputc_emits [OF assms(1), of "int_text xx base sign"] assms(2)
  by (auto simp: printint_def int_text_def Let_def)

lemma printint_overflows:
  assumes "16 < length (int_text xx base sign)"
  shows "printint xx base sign s = Inl (Undef ''printint: buf'')"
  using assms by (auto simp: printint_def int_text_def Let_def undefK_def)

lemma unat_neg_sint: "sint (xx :: u64) < 0 \<Longrightarrow> int (unat (- xx)) = - sint xx"
proof -
  assume neg: "sint xx < 0"
  have "- (2 ^ 63) \<le> sint xx" using sint_ge [of xx] by simp
  moreover have "uint (- xx) = (- sint xx) mod 2 ^ 64"
    unfolding uint_word_ariths(4) by (simp only: uint_sint take_bit_eq_mod mod_minus_eq) simp
  ultimately have "uint (- xx) = - sint xx" using neg by simp
  then show ?thesis by simp
qed

text \<open>C34: in base 10 and 16 \<open>printint\<close> prints the numeral of its argument, with a minus sign and
  the absolute value when a signed argument is negative, whenever the numeral fits in
  \<open>buf[16]\<close>: from \<open>-(10^15 - 1)\<close> to \<open>10^16 - 1\<close> in base 10; beyond that it stores past the end
  of \<open>buf\<close>.\<close>

theorem printint_correct:
  assumes "cons_live s" "base = 10 \<or> base = 16"
  shows "if (if sign \<and> sint xx < 0 then - sint xx < int base ^ 15 else uint xx < int base ^ 16)
    then \<exists>t ds. printint xx base sign s = Inr ((), t) \<and> ds \<noteq> [] \<and> set ds \<subseteq> set digits
      \<and> uart_out t = uart_out s @ (if sign \<and> sint xx < 0 then of_char (CHR ''-'') # ds else ds)
      \<and> int (num_value base ds) = (if sign \<and> sint xx < 0 then - sint xx else uint xx)
    else printint xx base sign s = Inl (Undef ''printint: buf'')"
proof -
  define neg where "neg = (sign \<and> sint xx < 0)"
  define x where "x = (if neg then unat (- xx) else unat xx)"
  define ds where "ds = rev (digit_loop base x)"
  have x: "int x = (if neg then - sint xx else uint xx)"
    using unat_neg_sint by (auto simp: x_def neg_def)
  have itext: "int_text xx base sign = (if neg then of_char (CHR ''-'') # ds else ds)"
    by (auto simp: int_text_def neg_def ds_def x_def)
  have ds: "ds \<noteq> []" "set ds \<subseteq> set digits" "num_value base ds = x"
    using assms(2) digit_loop_digits [of base x] num_value_digit_loop [of base x] by (auto simp: ds_def digit_loop_ne)
  have fits: "length (int_text xx base sign) \<le> 16 \<longleftrightarrow> (if neg then int x < int base ^ 15 else int x < int base ^ 16)"
    using length_digit_loop [of base x 14] length_digit_loop [of base x 15] assms(2)
    by (auto simp: itext ds_def)
  show ?thesis
  proof (cases "length (int_text xx base sign) \<le> 16")
    case True
    from wpK_obtain [OF printint_emits [OF assms(1) True]] obtain t where
      "printint xx base sign s = Inr ((), t)" "uart_out t = uart_out s @ int_text xx base sign"
      by (metis (full_types) emits_out old.unit.exhaust)
    then show ?thesis using True fits ds x by (auto simp: itext neg_def)
  next
    case False
    then show ?thesis using fits printint_overflows [of xx base sign s] x by (auto simp: neg_def)
  qed
qed

theorem printint_correct_witness:
  "(\<exists>t ds. printint (- 42) 10 True quiet_uart = Inr ((), t) \<and> uart_out t = of_char (CHR ''-'') # ds \<and> num_value 10 ds = 42)
    \<and> printint (2 ^ 62) 10 False quiet_uart = Inl (Undef ''printint: buf'')"
proof -
  have live: "cons_live quiet_uart" "uart_out quiet_uart = []"
    by (simp_all add: cons_live_def quiet_uart_def kproc.defs boot_def mycpu_def idle_cpu_def)
  show ?thesis
    using printint_correct [OF live(1), of 10 True "- 42"] printint_correct [OF live(1), of 10 False "2 ^ 62"] live(2)
    by auto
qed

section \<open>procdump\<close>

lemma emits_ex_step:
  assumes "wpK m (\<lambda>_ t. \<exists>bs. emits bs s t) s" "\<And>t bs. emits bs s t \<Longrightarrow> wpK k (\<lambda>x u. \<exists>cs. emits cs t u) t"
  shows "wpK (thenK m k) (\<lambda>x u. \<exists>bs. emits bs s u) s"
  unfolding wp
proof (rule wpK_mono [OF assms(1)])
  fix x t
  assume "\<exists>bs. emits bs s t"
  then obtain bs where bs: "emits bs s t" by blast
  show "wpK k (\<lambda>x u. \<exists>bs. emits bs s u) t"
    by (rule wpK_mono [OF assms(2) [OF bs]]) (use bs emits_trans in blast)
qed

lemma emits_ex_refl: "wpK (returnK x) (\<lambda>_ t. \<exists>bs. emits bs s t) s"
  unfolding wp using emits_refl by blast

lemma int_text_int: "length (int_text (scast (v :: u32)) 10 True) \<le> 16"
proof -
  have "sint (scast v :: u64) = sint v" by (rule sint_up_scast) (simp add: is_up)
  then have b: "- (2 ^ 31) \<le> sint (scast v :: u64)" "sint (scast v :: u64) < 2 ^ 31"
    using sint_ge [of v] sint_lt [of v] by auto
  show ?thesis
  proof (cases "sint (scast v :: u64) < 0")
    case True
    have "int (unat (- scast v :: u64)) \<le> 2 ^ 31" unfolding unat_neg_sint [OF True] using b(1) by simp
    then have "int (unat (- scast v :: u64)) < int (10 ^ Suc 14)" by (rule le_less_trans) simp
    then have "unat (- scast v :: u64) < 10 ^ Suc 14" by (simp only: of_nat_less_iff)
    with True show ?thesis using length_digit_loop [of 10 "unat (- scast v :: u64)" 14] by (simp add: int_text_def)
  next
    case False
    then have "uint (scast v :: u64) = sint (scast v :: u64)" using b(2)
      by (simp add: uint_sint take_bit_int_eq_self_iff)
    then have "unat (scast v :: u64) < 10 ^ Suc 15" using b unat_eq_nat_uint [of "scast v :: u64"] by simp
    with False show ?thesis using length_digit_loop [of 10 "unat (scast v :: u64)" 15] by (simp add: int_text_def)
  qed
qed

lemma consputc_char_emits:
  assumes "cons_live s"
  shows "wpK (consputc (of_char c)) (\<lambda>_ t. \<exists>bs. emits bs s t) s"
proof -
  have "(of_char c :: int) = of_char c mod 256" by (simp only: of_char_mod_256)
  then have "0 \<le> (of_char c :: int)" "(of_char c :: int) < 256"
    by (metis pos_mod_sign zero_less_numeral, metis pos_mod_bound zero_less_numeral)
  from consputc_emits [OF assms this] show ?thesis by (rule wpK_mono) blast
qed

lemma printf_loop_plain:
  assumes "cons_live s" "CHR ''%'' \<notin> set f"
  shows "wpK (printf_loop f args) (\<lambda>_ t. \<exists>bs. emits bs s t) s"
  using assms
proof (induction f arbitrary: s)
  case Nil
  then show ?case using emits_refl by (auto simp: wp)
next
  case (Cons c f)
  then have "wpK (thenK (consputc (of_char c)) (printf_loop f args)) (\<lambda>_ t. \<exists>bs. emits bs s t) s"
    by (intro emits_ex_step consputc_char_emits) (auto intro: emits_live)
  with Cons.prems show ?case by auto
qed

lemma printf_loop_int:
  fixes s :: "'x kcons_scheme"
  assumes "cons_live s" "\<And>t :: 'x kcons_scheme. cons_live t \<Longrightarrow> wpK (printf_loop f args) (\<lambda>_ u. \<exists>bs. emits bs t u) t"
  shows "wpK (printf_loop (CHR ''%'' # CHR ''d'' # f) (AInt v # args)) (\<lambda>_ t. \<exists>bs. emits bs s t) s"
proof -
  have "wpK (thenK (printint (scast v) 10 True) (printf_loop f args)) (\<lambda>_ t. \<exists>bs. emits bs s t) s"
    using assms emits_live
    by (intro emits_ex_step) (auto intro: wpK_mono [OF printint_emits [OF assms(1) int_text_int]])
  then show ?thesis by (simp add: printf_directive_def fmt_at_def arg_int_def wp)
qed

lemma printf_loop_str:
  fixes s :: "'x kcons_scheme"
  assumes "cons_live s" "\<And>t :: 'x kcons_scheme. cons_live t \<Longrightarrow> wpK (printf_loop f args) (\<lambda>_ u. \<exists>bs. emits bs t u) t"
  shows "wpK (printf_loop (CHR ''%'' # CHR ''s'' # f) (AStr (Some str) # args)) (\<lambda>_ t. \<exists>bs. emits bs s t) s"
proof -
  have "wpK (thenK (forK (takeWhile (\<lambda>c. c \<noteq> 0) str) (\<lambda>c. consputc (uint c))) (printf_loop f args))
    (\<lambda>_ t. \<exists>bs. emits bs s t) s"
    using assms emits_live
    by (intro emits_ex_step) (auto intro: wpK_mono [OF forK_consputc_emits [OF assms(1)]])
  then show ?thesis by (simp add: printf_directive_def fmt_at_def arg_str_def wp)
qed

lemma printf_loop_char:
  fixes s :: "'x kcons_scheme"
  assumes "cons_live s" "c \<noteq> CHR ''%''" "\<And>t :: 'x kcons_scheme. cons_live t \<Longrightarrow> wpK (printf_loop f args) (\<lambda>_ u. \<exists>bs. emits bs t u) t"
  shows "wpK (printf_loop (c # f) args) (\<lambda>_ t. \<exists>bs. emits bs s t) s"
proof -
  have "wpK (thenK (consputc (of_char c)) (printf_loop f args)) (\<lambda>_ t. \<exists>bs. emits bs s t) s"
    using assms by (intro emits_ex_step consputc_char_emits) (auto intro: emits_live)
  with assms(2) show ?thesis by simp
qed

lemma printf_emits:
  assumes "wpK (printf_loop f args) (\<lambda>_ t. \<exists>bs. emits bs s t) s"
  shows "wpK (printf f args) (\<lambda>_ t. \<exists>bs. emits bs s t) s"
  using assms by (simp add: printf_def wp)

lemma procdump_emits:
  assumes "cons_live s"
  shows "wpK procdump (\<lambda>_ t. \<exists>bs. emits bs s t) s"
proof -
  have nl: "wpK (printf [CHR 0x0A] []) (\<lambda>_ u. \<exists>bs. emits bs t u) t" if "cons_live t" for t :: "'a kcons_scheme"
    using that by (intro printf_emits printf_loop_plain) auto
  have line: "wpK (printf ''%d %s %s'' [AInt v, AStr (Some a), AStr (Some b)]) (\<lambda>_ u. \<exists>bs. emits bs t u) t"
    if "cons_live t" for t :: "'a kcons_scheme" and v a b
    using that by (intro printf_emits printf_loop_int printf_loop_char printf_loop_str printf_loop_plain) auto
  have "wpK (forK is (\<lambda>i. bindK (get_proc i) (\<lambda>p. if p_state p = UNUSED then returnK ()
       else thenK (printf ''%d %s %s'' [AInt (word_of_int (p_pid p)), AStr (Some (map of_char (state_name (p_state p)))), AStr (Some (p_name p))])
         (thenK (printf [CHR 0x0A] []) (returnK ()))))) (\<lambda>_ u. \<exists>bs. emits bs t u) t"
    if "cons_live t" for t :: "'a kcons_scheme" and "is"
    using that
  proof (induction "is" arbitrary: t)
    case Nil
    then show ?case using emits_refl by (auto simp: wp)
  next
    case (Cons i "is")
    show ?case unfolding forK.simps
    proof (rule emits_ex_step)
      show "wpK (bindK (get_proc i) (\<lambda>p. if p_state p = UNUSED then returnK ()
       else thenK (printf ''%d %s %s'' [AInt (word_of_int (p_pid p)), AStr (Some (map of_char (state_name (p_state p)))), AStr (Some (p_name p))])
         (thenK (printf [CHR 0x0A] []) (returnK ())))) (\<lambda>_ u. \<exists>bs. emits bs t u) t"
        unfolding get_proc_def wpK_bindK wpK_getK wpK_if using Cons.prems
        by (auto intro!: emits_ex_step emits_ex_refl line nl intro: emits_live)
    qed (use Cons emits_live in blast)
  qed
  then show ?thesis
    unfolding procdump_def using assms nl by (intro emits_ex_step) (auto intro: emits_live)
qed

end
