(* ===== verification/Console.thy ===== *)
theory Console
  imports Printf Vm_Frame
begin

text \<open>
  The console (\<open>kernel/console.c\<close>) and the UART interrupt that feeds it: line editing, the raw
  mode added to it, and the \<open>read\<close> and \<open>write\<close> of the console device. A loop that may sleep in
  the middle of its work returns \<open>Sleep\<close> with its local variables; running it again from
  them is what the process does when it is woken.
\<close>

section \<open>Code\<close>

definition INPUT_BUF_SIZE :: nat where "INPUT_BUF_SIZE = 128"

definition CONSOLE :: nat where "CONSOLE = 1"

text \<open>Control-x.\<close>

definition Control :: "char \<Rightarrow> int" where
  "Control x = of_char x - of_char (CHR ''@'')"

datatype 'l run = Ret int | Sleep 'l

text \<open>\<open>consolewrite\<close> from index \<open>i\<close> on, with \<open>k\<close> bytes left.\<close>

fun consolewrite_loop :: "bool \<Rightarrow> u64 \<Rightarrow> nat \<Rightarrow> nat \<Rightarrow> ('x kcons_scheme, nat run) km" where
  "consolewrite_loop user_src src i 0 = returnK (Ret (int i))"
| "consolewrite_loop user_src src i (Suc k) = (bindK (either_copyin user_src (src + of_nat i) 1) (\<lambda>(r, cs).
  if r = - 1 then returnK (Ret (int i)) else
  bindK (getK (\<lambda>s. uart_tx_w s = uart_tx_r s + of_nat UART_TX_BUF_SIZE \<and> \<not> panicked s)) (\<lambda>full.
  if full then returnK (Sleep i) else
  thenK (uartputc (hd cs)) (
  consolewrite_loop user_src src (Suc i) k))))"

definition consolewrite :: "bool \<Rightarrow> u64 \<Rightarrow> int \<Rightarrow> ('x kcons_scheme, nat run) km" where
  "consolewrite user_src src n = consolewrite_loop user_src src 0 (nat n)"

text \<open>\<open>consoleread\<close> with \<open>n\<close> of \<open>target\<close> bytes left to read.\<close>

fun consoleread_loop :: "bool \<Rightarrow> u64 \<Rightarrow> nat \<Rightarrow> nat \<Rightarrow> ('x kcons_scheme, (u64 \<times> nat) run) km" where
  "consoleread_loop user_dst dst target 0 = returnK (Ret (int target))"
| "consoleread_loop user_dst dst target (Suc n) = (bindK (getK cons_r) (\<lambda>r.
  bindK (getK cons_w) (\<lambda>w.
  if r = w then (bindK curproc (\<lambda>p.
    bindK (killed p) (\<lambda>k.
    returnK (if k \<noteq> 0 then Ret (- 1) else Sleep (dst, Suc n))))) else
  bindK (getK (\<lambda>s. cons_buf s ! (unat r mod INPUT_BUF_SIZE))) (\<lambda>c.
  thenK (modifyK (\<lambda>s. s\<lparr>cons_r := r + 1\<rparr>)) (
  if uint c = Control (CHR ''D'') then (thenK ((if Suc n < target then modifyK (\<lambda>s. s\<lparr>cons_r := cons_r s - 1\<rparr>) else returnK ())) (
    returnK (Ret (int target - int (Suc n))))) else
  bindK (either_copyout user_dst dst [c]) (\<lambda>e.
  if e = - 1 then returnK (Ret (int target - int (Suc n))) else
  if c = of_char (CHR 0x0A) then returnK (Ret (int target - int n)) else
  consoleread_loop user_dst (dst + 1) target n))))))"

definition consoleread :: "bool \<Rightarrow> u64 \<Rightarrow> int \<Rightarrow> ('x kcons_scheme, (u64 \<times> nat) run) km" where
  "consoleread user_dst dst n = (if n \<le> 0 then returnK (Ret 0)
     else consoleread_loop user_dst dst (nat n) (nat n))"

text \<open>The loop of control-U: it ends after at most \<open>e - w\<close> rounds, when \<open>e = w\<close>.\<close>

fun kill_line_loop :: "nat \<Rightarrow> ('x kcons_scheme, unit) km" where
  "kill_line_loop 0 = returnK ()"
| "kill_line_loop (Suc fuel) = (bindK (getK cons_e) (\<lambda>e.
  bindK (getK cons_w) (\<lambda>w.
  bindK (getK cons_buf) (\<lambda>buf.
  if e = w \<or> buf ! (unat (e - 1) mod INPUT_BUF_SIZE) = of_char (CHR 0x0A) then returnK () else
  thenK (modifyK (\<lambda>s. s\<lparr>cons_e := e - 1\<rparr>)) (
  thenK (consputc BACKSPACE) (
  kill_line_loop fuel))))))"

text \<open>\<open>cons.buf[cons.e++ % INPUT_BUF_SIZE] = c\<close>, and making the input available.\<close>

definition cons_store :: "int \<Rightarrow> ('x kcons_scheme, unit) km" where
  "cons_store c = modifyK (\<lambda>s. s\<lparr>cons_buf := (cons_buf s)[unat (cons_e s) mod INPUT_BUF_SIZE := word_of_int c],
     cons_e := cons_e s + 1\<rparr>)"

definition cons_commit :: "('x kcons_scheme, unit) km" where
  "cons_commit = (thenK (modifyK (\<lambda>s. s\<lparr>cons_w := cons_e s\<rparr>)) (
    wakeup ChanCons))"

definition consoleintr :: "int \<Rightarrow> ('x kcons_scheme, unit) km" where
  "consoleintr c = (
     if c = Control (CHR ''P'') then procdump
     else if c = Control (CHR ''U'') then (bindK (getK (\<lambda>s. unat (cons_e s - cons_w s))) (\<lambda>n.
       kill_line_loop n))
     else if c = Control (CHR ''H'') \<or> c = 0x7f then (bindK (getK cons_rawmode) (\<lambda>raw.
       if raw = 0 then (bindK (getK (\<lambda>s. cons_e s \<noteq> cons_w s)) (\<lambda>ne.
         if \<not> ne then returnK () else
         thenK (modifyK (\<lambda>s. s\<lparr>cons_e := cons_e s - 1\<rparr>)) (
         consputc BACKSPACE))) else
       thenK (cons_store c) (
       cons_commit)))
     else (bindK (getK (\<lambda>s. unat (cons_e s - cons_r s) < INPUT_BUF_SIZE)) (\<lambda>room.
       if \<not> (c \<noteq> 0 \<and> room) then returnK () else
       let c = (if c = of_char (CHR 0x0D) then of_char (CHR 0x0A) else c) in
       thenK (cons_store c) (
       bindK (getK cons_rawmode) (\<lambda>raw.
       if raw \<noteq> 0 then cons_commit else
       thenK (consputc c) (
       bindK (getK (\<lambda>s. unat (cons_e s - cons_r s) = INPUT_BUF_SIZE)) (\<lambda>full.
       (if c = of_char (CHR 0x0A) \<or> c = Control (CHR ''D'') \<or> full then cons_commit else returnK ()))))))))"

definition consoleinit :: "('x kcons_scheme, unit) km" where
  "consoleinit = (thenK uartinit (
    modifyK (\<lambda>s. s\<lparr>devsw := (devsw s)(CONSOLE := (Some Consoleread, Some Consolewrite))\<rparr>)))"

definition console_set_rawmode :: "int \<Rightarrow> ('x kcons_scheme, unit) km" where
  "console_set_rawmode on = modifyK (\<lambda>s. s\<lparr>cons_rawmode := on\<rparr>)"

text \<open>The interrupt handler of \<open>uart.c\<close>; one round per received byte, and one to see that there
  is none left.\<close>

fun uartintr_loop :: "nat \<Rightarrow> ('x kcons_scheme, unit) km" where
  "uartintr_loop 0 = undefK ''uartintr''"
| "uartintr_loop (Suc fuel) = (bindK uartgetc (\<lambda>c.
  if c = - 1 then returnK () else
  thenK (consoleintr c) (
  uartintr_loop fuel)))"

definition uartintr :: "('x kcons_scheme, unit) km" where
  "uartintr = (bindK (getK (\<lambda>s. length (uart_rx s))) (\<lambda>n.
    thenK (uartintr_loop (Suc n)) (
    uartstart)))"

section \<open>The line editor\<close>

text \<open>What the console promises: the bytes a reader may take, and the line being edited.\<close>

record tty =
  tty_input :: bytes
  tty_line :: bytes

definition tty_step :: "bool \<Rightarrow> int \<Rightarrow> tty \<Rightarrow> tty" where
  "tty_step raw c d = (
     if c = 16 then d
     else if c = 21 then d\<lparr>tty_line := rev (dropWhile (\<lambda>x. x \<noteq> 10) (rev (tty_line d)))\<rparr>
     else if (c = 8 \<or> c = 127) \<and> \<not> raw then d\<lparr>tty_line := butlast (tty_line d)\<rparr>
     else if c = 0 \<or> INPUT_BUF_SIZE \<le> length (tty_input d @ tty_line d) then d
     else let c = (if c = 13 then 10 else c); l = tty_line d @ [word_of_int c] in
       if raw \<or> c = 10 \<or> c = 4 \<or> length (tty_input d @ l) = INPUT_BUF_SIZE
       then \<lparr>tty_input = tty_input d @ l, tty_line = []\<rparr>
       else d\<lparr>tty_line := l\<rparr>)"

interpretation cons_ring: ring INPUT_BUF_SIZE "TYPE(32)"
  by unfold_locales (simp_all add: INPUT_BUF_SIZE_def)

definition cons_tty :: "'x kcons_scheme \<Rightarrow> tty" where
  "cons_tty s = \<lparr>tty_input = ring_contents INPUT_BUF_SIZE (cons_buf s) (cons_r s) (cons_w s),
     tty_line = ring_contents INPUT_BUF_SIZE (cons_buf s) (cons_w s) (cons_e s)\<rparr>"

definition cons_ok :: "'x kcons_scheme \<Rightarrow> bool" where
  "cons_ok s \<longleftrightarrow> ring_ok INPUT_BUF_SIZE (cons_buf s) (cons_r s) (cons_e s)
     \<and> unat (cons_w s - cons_r s) + unat (cons_e s - cons_w s) = unat (cons_e s - cons_r s)"

lemma control_keys [simp]: "Control (CHR ''D'') = 4" "Control (CHR ''H'') = 8" "Control (CHR ''P'') = 16" "Control (CHR ''U'') = 21"
  by (simp_all add: Control_def)


definition cons_whole :: "'x kcons_scheme \<Rightarrow> bytes" where
  "cons_whole s = ring_contents INPUT_BUF_SIZE (cons_buf s) (cons_r s) (cons_e s)"

lemma cons_tty_whole:
  assumes "cons_ok s"
  shows "cons_tty s = \<lparr>tty_input = take (unat (cons_w s - cons_r s)) (cons_whole s),
    tty_line = drop (unat (cons_w s - cons_r s)) (cons_whole s)\<rparr>"
  using assms cons_ring.contents_append [of "cons_w s" "cons_r s" "cons_e s" "cons_buf s"]
  by (simp add: cons_ok_def cons_tty_def cons_whole_def)

lemma length_cons_whole: "length (cons_whole s) = unat (cons_e s - cons_r s)"
  by (simp add: cons_whole_def)

lemma emits_cons:
  assumes "emits bs s t"
  shows "cons_tty t = cons_tty s" "cons_ok t = cons_ok s" "cons_r t = cons_r s" "cons_w t = cons_w s"
    "cons_e t = cons_e s" "cons_buf t = cons_buf s" "cons_rawmode t = cons_rawmode s"
  using assms by (auto simp: emits_def cons_tty_def cons_ok_def)

text \<open>The three changes the handler makes: store a byte, drop the last byte, make all available.\<close>

lemma cons_store_tty:
  assumes "cons_ok s" "unat (cons_e s - cons_r s) < INPUT_BUF_SIZE"
    and "t = s\<lparr>cons_buf := (cons_buf s)[unat (cons_e s) mod INPUT_BUF_SIZE := b], cons_e := cons_e s + 1\<rparr>"
  shows "cons_ok t" "cons_tty t = (cons_tty s)\<lparr>tty_line := tty_line (cons_tty s) @ [b]\<rparr>"
proof -
  have ring: "ring_ok INPUT_BUF_SIZE (cons_buf s) (cons_r s) (cons_e s)"
    using assms(1) by (simp add: cons_ok_def)
  have e: "unat (cons_e s + 1 - cons_r s) = Suc (unat (cons_e s - cons_r s))"
    by (rule cons_ring.count_Suc [OF assms(2)])
  have "unat (cons_e s - cons_w s) < INPUT_BUF_SIZE" using assms(1,2) by (simp add: cons_ok_def)
  then have l: "unat (cons_e s + 1 - cons_w s) = Suc (unat (cons_e s - cons_w s))"
    by (rule cons_ring.count_Suc)
  show ok: "cons_ok t"
    using assms(1) e l cons_ring.ok_put [OF ring assms(2)] by (simp add: cons_ok_def assms(3))
  have "cons_whole t = cons_whole s @ [b]"
    using cons_ring.contents_put [OF ring assms(2)] by (simp add: cons_whole_def assms(3))
  then show "cons_tty t = (cons_tty s)\<lparr>tty_line := tty_line (cons_tty s) @ [b]\<rparr>"
    using cons_tty_whole [OF ok] cons_tty_whole [OF assms(1)] assms(1)
    by (simp add: assms(3) cons_ok_def length_cons_whole)
qed

lemma cons_erase_tty:
  assumes "cons_ok s" "cons_e s \<noteq> cons_w s" "t = s\<lparr>cons_e := cons_e s - 1\<rparr>"
  shows "cons_ok t" "cons_tty t = (cons_tty s)\<lparr>tty_line := butlast (tty_line (cons_tty s))\<rparr>"
    "tty_line (cons_tty s) = butlast (tty_line (cons_tty s)) @ [cons_buf s ! (unat (cons_e s - 1) mod INPUT_BUF_SIZE)]"
proof -
  have l: "unat (cons_e s - cons_w s) = Suc (unat (cons_e s - 1 - cons_w s))"
    using assms(2) by (rule cons_ring.count_last)
  with assms(1) have "cons_e s \<noteq> cons_r s" by (auto simp: cons_ok_def)
  then have e: "unat (cons_e s - cons_r s) = Suc (unat (cons_e s - 1 - cons_r s))"
    by (rule cons_ring.count_last)
  show ok: "cons_ok t" using assms(1) e l by (simp add: cons_ok_def assms(3) ring_ok_def)
  show "cons_tty t = (cons_tty s)\<lparr>tty_line := butlast (tty_line (cons_tty s))\<rparr>"
    "tty_line (cons_tty s) = butlast (tty_line (cons_tty s)) @ [cons_buf s ! (unat (cons_e s - 1) mod INPUT_BUF_SIZE)]"
    using cons_ring.contents_last [OF assms(2), of "cons_buf s"] by (simp_all add: cons_tty_def assms(3))
qed

lemma cons_commit_tty:
  assumes "cons_ok s"
  shows "wpK cons_commit (\<lambda>_ t. cons_ok t \<and> cons_rawmode t = cons_rawmode s \<and> (cons_live t = cons_live s)
    \<and> cons_tty t = \<lparr>tty_input = tty_input (cons_tty s) @ tty_line (cons_tty s), tty_line = []\<rparr>) s"
proof -
  define t where "t = wake ChanCons (s\<lparr>cons_w := cons_e s\<rparr>)"
  have run: "cons_commit s = Inr ((), t)"
    by (simp add: cons_commit_def kdefs wakeup_wake t_def)
  have "cons_ok t" using assms by (simp add: t_def wake_def cons_ok_def)
  moreover have "cons_tty t = \<lparr>tty_input = cons_whole s, tty_line = []\<rparr>"
    by (simp add: t_def wake_def cons_tty_def cons_whole_def)
  moreover have "cons_rawmode t = cons_rawmode s" "cons_live t = cons_live s"
    by (simp_all add: t_def wake_def cons_live_def mycpu_def)
  ultimately show ?thesis using run cons_tty_whole [OF assms] by (simp add: wpK_def)
qed

lemma length_tty_line: "length (tty_line (cons_tty s)) = unat (cons_e s - cons_w s)"
  by (simp add: cons_tty_def)

text \<open>What the handler guarantees of a step to \<open>t\<close> that leaves the terminal \<open>d\<close>.\<close>

definition tty_done :: "'x kcons_scheme \<Rightarrow> tty \<Rightarrow> 'x kcons_scheme \<Rightarrow> bool" where
  "tty_done s d t \<longleftrightarrow> cons_ok t \<and> cons_live t \<and> cons_rawmode t = cons_rawmode s \<and> cons_tty t = d"

lemma tty_done_emits: "emits bs u t \<Longrightarrow> tty_done s d u \<Longrightarrow> tty_done s d t"
  by (simp add: tty_done_def emits_cons emits_live)

lemma consputc_done:
  assumes "tty_done s d u" "0 \<le> c" "c \<le> BACKSPACE"
  shows "wpK (consputc c) (\<lambda>_. tty_done s d) u"
proof -
  have live: "cons_live u" using assms(1) by (simp add: tty_done_def)
  have "wpK (consputc c) (\<lambda>_ t. \<exists>bs. emits bs u t) u"
  proof (cases "c = BACKSPACE")
    case True
    show ?thesis unfolding True by (rule wpK_mono [OF consputc_backspace [OF live]]) (rule exI)
  next
    case False
    then have "c < 256" using assms(3) by (simp add: BACKSPACE_def)
    from consputc_emits [OF live assms(2) this] show ?thesis by (rule wpK_mono) (rule exI)
  qed
  then show ?thesis by (rule wpK_mono) (use tty_done_emits assms(1) in blast)
qed

lemma kill_line_done:
  assumes "tty_done s d u" "length (tty_line d) = fuel"
  shows "wpK (kill_line_loop fuel) (\<lambda>_. tty_done s (d\<lparr>tty_line := rev (dropWhile (\<lambda>x. x \<noteq> 10) (rev (tty_line d)))\<rparr>)) u"
  using assms
proof (induction fuel arbitrary: u d)
  case 0
  then show ?case by (cases d) (simp add: wp)
next
  case (Suc fuel)
  define b where "b = cons_buf u ! (unat (cons_e u - 1) mod INPUT_BUF_SIZE)"
  have u: "cons_ok u" "cons_tty u = d" "cons_live u" using Suc.prems(1) by (simp_all add: tty_done_def)
  have ne: "cons_e u \<noteq> cons_w u" using Suc.prems(2) length_tty_line [of u] u(2) by auto
  define v where "v = u\<lparr>cons_e := cons_e u - 1\<rparr>"
  note erase = cons_erase_tty [OF u(1) ne v_def, folded b_def, unfolded u(2)]
  have line: "rev (tty_line d) = b # rev (butlast (tty_line d))"
    using arg_cong [OF erase(3), of rev] by simp
  have v: "tty_done s (d\<lparr>tty_line := butlast (tty_line d)\<rparr>) v"
    using erase(1,2) Suc.prems(1) by (auto simp: tty_done_def v_def cons_live_def mycpu_def)
  show ?case
  proof (cases "b = 10")
    case True
    then have "rev (dropWhile (\<lambda>x. x \<noteq> 10) (rev (tty_line d))) = tty_line d" using line by (metis (mono_tags, lifting) dropWhile.simps(2) rev_rev_ident)
    with True Suc.prems(1) show ?thesis by (simp add: wp b_def [symmetric])
  next
    case False
    have "wpK (consputc BACKSPACE) (\<lambda>_. wpK (kill_line_loop fuel)
        (\<lambda>_. tty_done s (d\<lparr>tty_line := rev (dropWhile (\<lambda>x. x \<noteq> 10) (rev (tty_line d)))\<rparr>))) v"
    proof (rule wpK_mono [OF consputc_done [OF v]])
      fix x t
      assume "tty_done s (d\<lparr>tty_line := butlast (tty_line d)\<rparr>) t"
      have dw: "dropWhile (\<lambda>x. x \<noteq> 10) (rev (tty_line d)) = dropWhile (\<lambda>x. x \<noteq> 10) (rev (butlast (tty_line d)))"
        by (subst line) (simp add: False)
      from Suc.IH [OF \<open>tty_done s (d\<lparr>tty_line := butlast (tty_line d)\<rparr>) t\<close>] Suc.prems(2)
      show "wpK (kill_line_loop fuel) (\<lambda>_. tty_done s (d\<lparr>tty_line := rev (dropWhile (\<lambda>x. x \<noteq> 10) (rev (tty_line d)))\<rparr>)) t"
        unfolding dw by simp
    qed (simp_all add: BACKSPACE_def)
    with False ne show ?thesis by (simp add: wp b_def [symmetric] v_def)
  qed
qed

lemma erase_done:
  assumes "cons_ok s" "cons_live s"
  shows "wpK (bindK (getK (\<lambda>s. cons_e s \<noteq> cons_w s)) (\<lambda>ne. if \<not> ne then returnK () else
      thenK (modifyK (\<lambda>s. s\<lparr>cons_e := cons_e s - 1\<rparr>)) (consputc BACKSPACE)))
    (\<lambda>_. tty_done s ((cons_tty s)\<lparr>tty_line := butlast (tty_line (cons_tty s))\<rparr>)) s"
proof (cases "cons_e s = cons_w s")
  case True
  then show ?thesis using assms by (simp add: wp tty_done_def cons_tty_def)
next
  case False
  note e = cons_erase_tty [OF assms(1) False refl]
  have "tty_done s ((cons_tty s)\<lparr>tty_line := butlast (tty_line (cons_tty s))\<rparr>) (s\<lparr>cons_e := cons_e s - 1\<rparr>)"
    unfolding tty_done_def e(2) using e(1) assms(2) by (simp add: cons_live_def mycpu_def)
  from consputc_done [OF this, of BACKSPACE] False show ?thesis by (simp add: wp BACKSPACE_def)
qed

lemma store_done:
  assumes "cons_ok s" "cons_live s" "unat (cons_e s - cons_r s) < INPUT_BUF_SIZE"
  shows "wpK (cons_store c) (\<lambda>_ t. tty_done s ((cons_tty s)\<lparr>tty_line := tty_line (cons_tty s) @ [word_of_int c]\<rparr>) t) s"
proof -
  note st = cons_store_tty [OF assms(1,3) refl, of "word_of_int c"]
  show ?thesis
    unfolding cons_store_def wp tty_done_def using st assms(2) by (simp add: cons_live_def mycpu_def)
qed

lemma commit_done:
  assumes "tty_done s d u"
  shows "wpK cons_commit (\<lambda>_. tty_done s \<lparr>tty_input = tty_input d @ tty_line d, tty_line = []\<rparr>) u"
proof -
  have "cons_ok u" "cons_live u" "cons_rawmode u = cons_rawmode s" "cons_tty u = d"
    using assms by (simp_all add: tty_done_def)
  then show ?thesis
    using cons_commit_tty [of u] unfolding tty_done_def by (auto elim: wpK_mono)
qed

lemma default_done:
  assumes "cons_ok s" "cons_live s" "0 \<le> c" "c < 256" "unat (cons_e s - cons_r s) < INPUT_BUF_SIZE"
    and "d = (cons_tty s)\<lparr>tty_line := tty_line (cons_tty s) @ [word_of_int c]\<rparr>"
  shows "wpK (thenK (cons_store c) (bindK (getK cons_rawmode) (\<lambda>raw. if raw \<noteq> 0 then cons_commit else
      thenK (consputc c) (bindK (getK (\<lambda>s. unat (cons_e s - cons_r s) = INPUT_BUF_SIZE)) (\<lambda>full.
        if c = 10 \<or> c = 4 \<or> full then cons_commit else returnK ())))))
    (\<lambda>_. tty_done s (if cons_rawmode s \<noteq> 0 \<or> c = 10 \<or> c = 4 \<or> length (tty_input d @ tty_line d) = INPUT_BUF_SIZE
      then \<lparr>tty_input = tty_input d @ tty_line d, tty_line = []\<rparr> else d)) s"
  unfolding wpK_thenK wpK_bindK wpK_getK
proof (rule wpK_mono [OF store_done [OF assms(1,2,5)]])
  fix x t
  assume t: "tty_done s ((cons_tty s)\<lparr>tty_line := tty_line (cons_tty s) @ [word_of_int c]\<rparr>) t"
  then have raw: "cons_rawmode t = cons_rawmode s" by (simp add: tty_done_def)
  have d: "tty_done s d t" using t assms(6) by simp
  have full: "(unat (cons_e u - cons_r u) = INPUT_BUF_SIZE) = (length (tty_input d @ tty_line d) = INPUT_BUF_SIZE)"
    if "tty_done s d u" for u
    using that unfolding tty_done_def cons_ok_def by (auto simp: cons_tty_def)
  show "wpK (if cons_rawmode t \<noteq> 0 then cons_commit else thenK (consputc c)
        (bindK (getK (\<lambda>s. unat (cons_e s - cons_r s) = INPUT_BUF_SIZE)) (\<lambda>full. if c = 10 \<or> c = 4 \<or> full then cons_commit else returnK ())))
     (\<lambda>_. tty_done s (if cons_rawmode s \<noteq> 0 \<or> c = 10 \<or> c = 4 \<or> length (tty_input d @ tty_line d) = INPUT_BUF_SIZE
      then \<lparr>tty_input = tty_input d @ tty_line d, tty_line = []\<rparr> else d)) t"
  proof (cases "cons_rawmode s \<noteq> 0")
    case True
    then show ?thesis using commit_done [OF d] raw by simp
  next
    case False
    have "wpK (consputc c) (\<lambda>_. wpK (bindK (getK (\<lambda>s. unat (cons_e s - cons_r s) = INPUT_BUF_SIZE))
          (\<lambda>full. if c = 10 \<or> c = 4 \<or> full then cons_commit else returnK ()))
        (\<lambda>_. tty_done s (if c = 10 \<or> c = 4 \<or> length (tty_input d @ tty_line d) = INPUT_BUF_SIZE
          then \<lparr>tty_input = tty_input d @ tty_line d, tty_line = []\<rparr> else d))) t"
    proof (rule wpK_mono [OF consputc_done [OF d assms(3)]])
      show "c \<le> BACKSPACE" using assms(4) by (simp add: BACKSPACE_def)
      fix y u
      assume u: "tty_done s d u"
      show "wpK (bindK (getK (\<lambda>s. unat (cons_e s - cons_r s) = INPUT_BUF_SIZE))
          (\<lambda>full. if c = 10 \<or> c = 4 \<or> full then cons_commit else returnK ()))
        (\<lambda>_. tty_done s (if c = 10 \<or> c = 4 \<or> length (tty_input d @ tty_line d) = INPUT_BUF_SIZE
          then \<lparr>tty_input = tty_input d @ tty_line d, tty_line = []\<rparr> else d)) u"
        unfolding wpK_bindK wpK_getK full [OF u] wpK_if wpK_returnK using commit_done [OF u] u by auto
    qed
    with False raw show ?thesis by (simp add: wpK_thenK)
  qed
qed

lemma consoleintr_done:
  assumes "cons_ok s" "cons_live s" "0 \<le> c" "c < 256"
    and "cons_rawmode s \<noteq> 0 \<and> (c = 8 \<or> c = 127) \<longrightarrow> unat (cons_e s - cons_r s) < INPUT_BUF_SIZE"
  shows "wpK (consoleintr c) (\<lambda>_. tty_done s (tty_step (cons_rawmode s \<noteq> 0) c (cons_tty s))) s"
proof -
  have s: "tty_done s (cons_tty s) s" using assms by (simp add: tty_done_def)
  have len: "length (tty_input (cons_tty s) @ tty_line (cons_tty s)) = unat (cons_e s - cons_r s)"
    using assms(1) by (simp add: cons_ok_def cons_tty_def)
  consider "c = 16" | "c = 21" | "(c = 8 \<or> c = 127) \<and> cons_rawmode s = 0" | "(c = 8 \<or> c = 127) \<and> cons_rawmode s \<noteq> 0"
    | "c \<noteq> 16 \<and> c \<noteq> 21 \<and> c \<noteq> 8 \<and> c \<noteq> 127" by blast
  then show ?thesis
  proof cases
    case 1
    have "wpK procdump (\<lambda>_. tty_done s (cons_tty s)) s"
      by (rule wpK_mono [OF procdump_emits [OF assms(2)]]) (use tty_done_emits [OF _ s] in blast)
    with 1 show ?thesis by (simp add: consoleintr_def tty_step_def)
  next
    case 2
    then show ?thesis using kill_line_done [OF s refl]
      by (simp add: consoleintr_def tty_step_def wp length_tty_line)
  next
    case 3
    then show ?thesis using erase_done [OF assms(1,2)]
      by (auto simp: consoleintr_def tty_step_def wpK_bindK wpK_getK)
  next
    case 4
    then have room: "unat (cons_e s - cons_r s) < INPUT_BUF_SIZE" using assms(5) by blast
    have "wpK (thenK (cons_store c) cons_commit) (\<lambda>_. tty_done s \<lparr>tty_input = tty_input (cons_tty s)
        @ tty_line (cons_tty s) @ [word_of_int c], tty_line = []\<rparr>) s"
      unfolding wpK_thenK by (rule wpK_mono [OF store_done [OF assms(1,2) room]]) (drule commit_done, simp)
    with 4 room len show ?thesis
      by (auto simp: consoleintr_def tty_step_def wpK_bindK wpK_getK Let_def)
  next
    case 5
    define c' where "c' = (if c = 13 then 10 else c)"
    have "0 \<le> c'" "c' < 256" using assms(3,4) by (auto simp: c'_def)
    note run = default_done [OF assms(1,2) this _ refl]
    show ?thesis
    proof (cases "c = 0 \<or> \<not> unat (cons_e s - cons_r s) < INPUT_BUF_SIZE")
      case True
      with 5 s len show ?thesis by (auto simp: consoleintr_def tty_step_def wp)
    next
      case False
      then have step: "tty_step (cons_rawmode s \<noteq> 0) c (cons_tty s) = (let d = (cons_tty s)\<lparr>tty_line := tty_line (cons_tty s) @ [word_of_int c']\<rparr> in
        if cons_rawmode s \<noteq> 0 \<or> c' = 10 \<or> c' = 4 \<or> length (tty_input d @ tty_line d) = INPUT_BUF_SIZE
        then \<lparr>tty_input = tty_input d @ tty_line d, tty_line = []\<rparr> else d)"
        using 5 len by (auto simp: tty_step_def Let_def c'_def)
      from run False 5 show ?thesis unfolding step Let_def
        by (cases "c = 13") (simp_all add: consoleintr_def wpK_bindK [of "getK (\<lambda>s. unat (cons_e s - cons_r s) < INPUT_BUF_SIZE)"]
            wpK_getK c'_def cong del: if_weak_cong)
    qed
  qed
qed


lemma quiet_cons: "cons_ok quiet_uart" "cons_live quiet_uart" "cons_rawmode quiet_uart = 0"
  "cons_tty quiet_uart = \<lparr>tty_input = [], tty_line = []\<rparr>"
  by (simp_all add: cons_ok_def cons_live_def cons_tty_def ring_ok_def quiet_uart_def kproc.defs boot_def
      mycpu_def idle_cpu_def INPUT_BUF_SIZE_def)


text \<open>C40: in raw mode the handler stores an erase character without looking for room: with 128
  unread bytes it overwrites the oldest of them, and the buffer is no longer well formed.\<close>

theorem raw_erase_overwrites:
  assumes "cons_ok s" "cons_rawmode s \<noteq> 0" "unat (cons_e s - cons_r s) = INPUT_BUF_SIZE" "c = 8 \<or> c = 127"
  shows "\<exists>t. consoleintr c s = Inr ((), t) \<and> cons_r t = cons_r s \<and> unat (cons_w t - cons_r t) = INPUT_BUF_SIZE + 1
    \<and> cons_buf t ! (unat (cons_r t) mod INPUT_BUF_SIZE) = word_of_int c \<and> \<not> cons_ok t"
proof -
  define t where "t = wake ChanCons (s\<lparr>cons_buf := (cons_buf s)[unat (cons_e s) mod INPUT_BUF_SIZE := word_of_int c],
    cons_e := cons_e s + 1, cons_w := cons_e s + 1\<rparr>)"
  have run: "consoleintr c s = Inr ((), t)"
    using assms(2,4) by (auto simp: consoleintr_def cons_store_def cons_commit_def kdefs wakeup_wake t_def)
  have "cons_e s - cons_r s = 128"
    using assms(3) by (simp add: word_unat_eq_iff INPUT_BUF_SIZE_def)
  then have e: "cons_e s = cons_r s + 128" by (simp add: diff_eq_eq add.commute)
  have same: "unat (cons_e s) mod INPUT_BUF_SIZE = unat (cons_r s) mod INPUT_BUF_SIZE"
    using cons_ring.index_mod [of "cons_r s" 128] by (simp add: e INPUT_BUF_SIZE_def)
  have len: "length (cons_buf s) = INPUT_BUF_SIZE" using assms(1) by (simp add: cons_ok_def ring_ok_def)
  have "unat (cons_e s + 1 - cons_r s) = 129" by (simp add: e)
  then show ?thesis
    using run same len by (auto simp: t_def wake_def cons_ok_def ring_ok_def INPUT_BUF_SIZE_def)
qed

lemma full_raw: "\<exists>s :: kcons. cons_ok s \<and> cons_rawmode s \<noteq> 0 \<and> unat (cons_e s - cons_r s) = INPUT_BUF_SIZE \<and> cons_r s = 0
    \<and> cons_buf s ! 0 = 0"
  by (rule exI [of _ "quiet_uart\<lparr>cons_rawmode := 1, cons_w := 128, cons_e := 128\<rparr>"])
    (simp add: cons_ok_def ring_ok_def quiet_uart_def kproc.defs INPUT_BUF_SIZE_def)

theorem raw_erase_overwrites_witness:
  "\<exists>(s :: kcons) t. cons_ok s \<and> cons_buf s ! 0 = 0 \<and> consoleintr 127 s = Inr ((), t) \<and> cons_r t = 0 \<and> cons_buf t ! 0 = 127 \<and> \<not> cons_ok t"
proof -
  obtain s :: kcons where s: "cons_ok s" "cons_rawmode s \<noteq> 0" "unat (cons_e s - cons_r s) = INPUT_BUF_SIZE" "cons_r s = 0" "cons_buf s ! 0 = 0"
    using full_raw by blast
  from raw_erase_overwrites [OF s(1-3), of 127] s show ?thesis by auto
qed

section \<open>Reading\<close>

text \<open>What a read of at most \<open>n\<close> bytes takes from the input: the bytes up to a newline, or up to
  an end-of-file mark, which is consumed only by a read that got nothing else; \<open>None\<close> when
  the reader has to wait.\<close>

fun tty_read :: "nat \<Rightarrow> bool \<Rightarrow> bytes \<Rightarrow> (bytes \<times> bytes) option" where
  "tty_read 0 fresh inp = Some ([], inp)"
| "tty_read (Suc n) fresh [] = None"
| "tty_read (Suc n) fresh (c # inp) = (
     if c = 4 then Some ([], if fresh then inp else c # inp)
     else if c = 10 then Some ([c], inp)
     else map_option (\<lambda>(d, rest). (c # d, rest)) (tty_read n False inp))"

lemma write_mem_Cons:
  assumes "Suc (length d) \<le> 2 ^ 64"
  shows "write_mem (write_mem m a [c]) (a + 1) d = write_mem m a (c # d)"
proof
  fix x :: u64
  have x: "x - (a + 1) = (x - a) - 1" by simp
  show "write_mem (write_mem m a [c]) (a + 1) d x = write_mem m a (c # d) x"
  proof (cases "x - a = 0")
    case True
    then have "unat (x - (a + 1)) = 2 ^ 64 - 1" unfolding x by (simp add: unsigned_minus_1_eq_mask mask_eq_exp_minus_1)
    with True assms show ?thesis by (simp add: write_mem_def)
  next
    case False
    then have "unat (x - a) = Suc (unat (x - (a + 1)))"
      unfolding x using unat_minus_one [of "x - a"] unat_gt_0 [of "x - a"] by simp
    then show ?thesis by (simp add: write_mem_def)
  qed
qed

lemma cons_take:
  assumes "cons_ok s" "cons_w s \<noteq> cons_r s" "t = s\<lparr>cons_r := cons_r s + 1\<rparr>"
  shows "cons_ok t" "tty_line (cons_tty t) = tty_line (cons_tty s)"
    "tty_input (cons_tty s) = cons_buf s ! (unat (cons_r s) mod INPUT_BUF_SIZE) # tty_input (cons_tty t)"
proof -
  have w: "unat (cons_w s - cons_r s) = Suc (unat (cons_w s - (cons_r s + 1)))"
    by (rule cons_ring.count_pred [OF assms(2)])
  with assms(1) have "cons_e s \<noteq> cons_r s" by (auto simp: cons_ok_def)
  then have "unat (cons_e s - cons_r s) = Suc (unat (cons_e s - (cons_r s + 1)))"
    by (rule cons_ring.count_pred)
  with w assms(1) show "cons_ok t" by (simp add: cons_ok_def ring_ok_def assms(3))
  show "tty_line (cons_tty t) = tty_line (cons_tty s)" by (simp add: cons_tty_def assms(3))
  show "tty_input (cons_tty s) = cons_buf s ! (unat (cons_r s) mod INPUT_BUF_SIZE) # tty_input (cons_tty t)"
    using cons_ring.contents_get [OF assms(2), of "cons_buf s"] by (simp add: cons_tty_def assms(3))
qed

lemma cons_empty: "cons_w s = cons_r s \<Longrightarrow> tty_input (cons_tty s) = []"
  by (simp add: cons_tty_def)

lemma tty_read_length: "tty_read n fresh inp = Some (d, rest) \<Longrightarrow> length d \<le> n"
  by (induction n fresh inp arbitrary: d rest rule: tty_read.induct) (auto split: if_splits)

lemma consoleread_loop_kernel:
  assumes "cons_ok s" "n \<le> target" "n < 2 ^ 63" "tty_read n (n = target) (tty_input (cons_tty s)) = Some (d, rest)"
  shows "\<exists>t. consoleread_loop False dst target n s = Inr (Ret (int target - int n + int (length d)), t)
    \<and> mem t = write_mem (mem s) dst d \<and> cons_ok t \<and> cons_tty t = (cons_tty s)\<lparr>tty_input := rest\<rparr>"
  using assms
proof (induction n arbitrary: s dst d)
  case 0
  then show ?case by (auto simp: returnK_def)
next
  case (Suc n)
  then have ne: "cons_w s \<noteq> cons_r s" using cons_empty [of s] by auto
  define c where "c = cons_buf s ! (unat (cons_r s) mod INPUT_BUF_SIZE)"
  define u where "u = s\<lparr>cons_r := cons_r s + 1\<rparr>"
  note u = cons_take [OF Suc.prems(1) ne u_def, folded c_def]
  have c4: "uint c = 4 \<longleftrightarrow> c = 4" by (simp add: word_uint_eq_iff)
  define v where "v = u\<lparr>mem := write_mem (mem s) dst [c]\<rparr>"
  have v: "cons_ok v" "cons_tty v = cons_tty u" "mem v = write_mem (mem s) dst [c]"
    using u(1) by (simp_all add: v_def cons_ok_def cons_tty_def)
  have tty: "(cons_tty u)\<lparr>tty_input := x\<rparr> = (cons_tty s)\<lparr>tty_input := x\<rparr>" for x
    using u(2) by simp
  have tty': "(cons_tty s)\<lparr>tty_input := tty_input (cons_tty u)\<rparr> = cons_tty u"
    unfolding tty [symmetric] by simp
  consider "c = 4" | "c = 10" | "c \<noteq> 4" "c \<noteq> 10" by blast
  then show ?case
  proof cases
    case 1
    then have d: "d = []" "rest = (if Suc n = target then tty_input (cons_tty u) else tty_input (cons_tty s))"
      using Suc.prems(4) u(3) by (auto split: if_splits)
    have "consoleread_loop False dst target (Suc n) s = Inr (Ret (int target - int (Suc n)), if Suc n < target then s else u)"
      using ne 1 by (simp add: kdefs c_def [symmetric] c4 u_def)
    then show ?thesis using d u(1) Suc.prems(1,2) tty' by (cases "Suc n = target") (simp_all add: u_def)
  next
    case 2
    then have d: "d = [c]" "rest = tty_input (cons_tty u)"
      using Suc.prems(4) u(3) by auto
    have "consoleread_loop False dst target (Suc n) s = Inr (Ret (int target - int n), v)"
      using ne 2 by (simp add: kdefs c_def [symmetric] c4 u_def v_def either_copyout_def)
    then show ?thesis using d v tty' by simp
  next
    case 3
    then obtain d' where d: "d = c # d'" "tty_read n False (tty_input (cons_tty u)) = Some (d', rest)"
      using Suc.prems(4) u(3) by auto
    have len: "Suc (length d') \<le> 2 ^ 64" using tty_read_length [OF d(2)] Suc.prems(3) by simp
    have step: "consoleread_loop False dst target (Suc n) s = consoleread_loop False (dst + 1) target n v"
      using ne 3 by (simp add: kdefs c_def [symmetric] c4 u_def v_def either_copyout_def)
    have "n \<le> target" "n < 2 ^ 63" "(n = target) = False" using Suc.prems(2,3) by auto
    from Suc.IH [OF v(1) this(1,2)] d(2) obtain t where
      "consoleread_loop False (dst + 1) target n v = Inr (Ret (int target - int n + int (length d')), t)"
      "mem t = write_mem (mem v) (dst + 1) d'" "cons_ok t" "cons_tty t = (cons_tty v)\<lparr>tty_input := rest\<rparr>"
      unfolding v(2) \<open>(n = target) = False\<close> by blast
    then show ?thesis
      unfolding step v(2,3) tty write_mem_Cons [OF len] using d(1) by (intro exI [of _ t]) simp
  qed
qed



end
