(* ===== verification/Disk.thy ===== *)
theory Disk
  imports Console
begin

text \<open>
  Disk buffers (\<open>kernel/buf.h\<close>) and the virtio disk driver (\<open>kernel/virtio_disk.c\<close>,
  \<open>kernel/virtio.h\<close>). The driver shares descriptors and two rings with the device. The device
  is part of the state: it takes requests from the available ring in order, transfers one
  block, stores the status byte and adds an entry to the used ring, as the virtio
  specification says; the model keeps the history of the blocks it has written. A transfer
  is always one block of two sectors.
\<close>

section \<open>State\<close>

definition BSIZE :: nat where "BSIZE = 1024"
definition NUM :: nat where "NUM = 8"
definition MAXOPBLOCKS :: nat where "MAXOPBLOCKS = 10"
definition NBUF :: nat where "NBUF = MAXOPBLOCKS * 3"

text \<open>A \<open>struct buf *\<close> is an index; \<open>NBUF\<close> is the list head \<open>bcache.head\<close>.\<close>

record buf =
  b_valid :: bool
  b_disk :: bool
  b_dev :: u32
  b_blockno :: u32
  b_lock :: sleeplock
  b_refcnt :: u32
  b_prev :: nat
  b_next :: nat
  b_data :: bytes

text \<open>The memory a descriptor points to: a command header, the data of a buffer, a status byte.\<close>

datatype dma = DmaNull | DmaOps nat | DmaData nat | DmaStatus nat

record virtq_desc =
  d_addr :: dma
  d_len :: u32
  d_flags :: u16
  d_next :: u16

record virtio_blk_req =
  r_type :: u32
  r_reserved :: u32
  r_sector :: u64

record vdisk =
  vd_desc :: "nat \<Rightarrow> virtq_desc"
  vd_avail_idx :: u16
  vd_avail_ring :: "nat \<Rightarrow> u16"
  vd_used_index :: u16
  vd_used_ring :: "nat \<Rightarrow> u32"
  vd_free :: "nat \<Rightarrow> bool"
  vd_used_idx :: u16
  vd_info_b :: "nat \<Rightarrow> nat option"
  vd_info_status :: "nat \<Rightarrow> u8"
  vd_ops :: "nat \<Rightarrow> virtio_blk_req"

text \<open>The device: how far it has read the available ring, the blocks on the medium, the writes
  it has made, its registers, and whether it refuses the negotiated features.\<close>

record blkdev =
  bd_seen :: u16
  bd_blocks :: "nat \<Rightarrow> bytes"
  bd_history :: "(nat \<times> bytes) list"
  bd_mmio :: "nat \<Rightarrow> u32"
  bd_refuse :: bool

record kdisk = kcons +
  bufs :: "nat \<Rightarrow> buf"
  disk :: vdisk
  blkdev :: blkdev

definition get_buf :: "nat \<Rightarrow> ('x kdisk_scheme, buf) km" where
  "get_buf b = getK (\<lambda>s. bufs s b)"

definition set_buf :: "nat \<Rightarrow> (buf \<Rightarrow> buf) \<Rightarrow> ('x kdisk_scheme, unit) km" where
  "set_buf b f = modifyK (\<lambda>s. s\<lparr>bufs := (bufs s)(b := f (bufs s b))\<rparr>)"

definition set_disk :: "(vdisk \<Rightarrow> vdisk) \<Rightarrow> ('x kdisk_scheme, unit) km" where
  "set_disk f = modifyK (\<lambda>s. s\<lparr>disk := f (disk s)\<rparr>)"

definition set_blkdev :: "(blkdev \<Rightarrow> blkdev) \<Rightarrow> ('x kdisk_scheme, unit) km" where
  "set_blkdev f = modifyK (\<lambda>s. s\<lparr>blkdev := f (blkdev s)\<rparr>)"

declare get_buf_def [kdefs] set_buf_def [kdefs] set_disk_def [kdefs] set_blkdev_def [kdefs]

section \<open>Registers and constants\<close>

definition VIRTIO_MMIO_MAGIC_VALUE :: nat where "VIRTIO_MMIO_MAGIC_VALUE = 0x000"
definition VIRTIO_MMIO_VERSION :: nat where "VIRTIO_MMIO_VERSION = 0x004"
definition VIRTIO_MMIO_DEVICE_ID :: nat where "VIRTIO_MMIO_DEVICE_ID = 0x008"
definition VIRTIO_MMIO_VENDOR_ID :: nat where "VIRTIO_MMIO_VENDOR_ID = 0x00c"
definition VIRTIO_MMIO_DEVICE_FEATURES :: nat where "VIRTIO_MMIO_DEVICE_FEATURES = 0x010"
definition VIRTIO_MMIO_DRIVER_FEATURES :: nat where "VIRTIO_MMIO_DRIVER_FEATURES = 0x020"
definition VIRTIO_MMIO_QUEUE_SEL :: nat where "VIRTIO_MMIO_QUEUE_SEL = 0x030"
definition VIRTIO_MMIO_QUEUE_NUM_MAX :: nat where "VIRTIO_MMIO_QUEUE_NUM_MAX = 0x034"
definition VIRTIO_MMIO_QUEUE_NUM :: nat where "VIRTIO_MMIO_QUEUE_NUM = 0x038"
definition VIRTIO_MMIO_QUEUE_READY :: nat where "VIRTIO_MMIO_QUEUE_READY = 0x044"
definition VIRTIO_MMIO_QUEUE_NOTIFY :: nat where "VIRTIO_MMIO_QUEUE_NOTIFY = 0x050"
definition VIRTIO_MMIO_INTERRUPT_STATUS :: nat where "VIRTIO_MMIO_INTERRUPT_STATUS = 0x060"
definition VIRTIO_MMIO_INTERRUPT_ACK :: nat where "VIRTIO_MMIO_INTERRUPT_ACK = 0x064"
definition VIRTIO_MMIO_STATUS :: nat where "VIRTIO_MMIO_STATUS = 0x070"
definition VIRTIO_MMIO_QUEUE_DESC_LOW :: nat where "VIRTIO_MMIO_QUEUE_DESC_LOW = 0x080"
definition VIRTIO_MMIO_QUEUE_DESC_HIGH :: nat where "VIRTIO_MMIO_QUEUE_DESC_HIGH = 0x084"
definition VIRTIO_MMIO_DRIVER_DESC_LOW :: nat where "VIRTIO_MMIO_DRIVER_DESC_LOW = 0x090"
definition VIRTIO_MMIO_DRIVER_DESC_HIGH :: nat where "VIRTIO_MMIO_DRIVER_DESC_HIGH = 0x094"
definition VIRTIO_MMIO_DEVICE_DESC_LOW :: nat where "VIRTIO_MMIO_DEVICE_DESC_LOW = 0x0a0"
definition VIRTIO_MMIO_DEVICE_DESC_HIGH :: nat where "VIRTIO_MMIO_DEVICE_DESC_HIGH = 0x0a4"
definition VIRTIO_CONFIG_S_ACKNOWLEDGE :: u32 where "VIRTIO_CONFIG_S_ACKNOWLEDGE = 1"
definition VIRTIO_CONFIG_S_DRIVER :: u32 where "VIRTIO_CONFIG_S_DRIVER = 2"
definition VIRTIO_CONFIG_S_DRIVER_OK :: u32 where "VIRTIO_CONFIG_S_DRIVER_OK = 4"
definition VIRTIO_CONFIG_S_FEATURES_OK :: u32 where "VIRTIO_CONFIG_S_FEATURES_OK = 8"
definition VIRTIO_BLK_F_RO :: nat where "VIRTIO_BLK_F_RO = 5"
definition VIRTIO_BLK_F_SCSI :: nat where "VIRTIO_BLK_F_SCSI = 7"
definition VIRTIO_BLK_F_CONFIG_WCE :: nat where "VIRTIO_BLK_F_CONFIG_WCE = 11"
definition VIRTIO_BLK_F_MQ :: nat where "VIRTIO_BLK_F_MQ = 12"
definition VIRTIO_F_ANY_LAYOUT :: nat where "VIRTIO_F_ANY_LAYOUT = 27"
definition VIRTIO_RING_F_INDIRECT_DESC :: nat where "VIRTIO_RING_F_INDIRECT_DESC = 28"
definition VIRTIO_RING_F_EVENT_IDX :: nat where "VIRTIO_RING_F_EVENT_IDX = 29"
definition VRING_DESC_F_NEXT :: u16 where "VRING_DESC_F_NEXT = 1"
definition VRING_DESC_F_WRITE :: u16 where "VRING_DESC_F_WRITE = 2"
definition VIRTIO_BLK_T_IN :: u32 where "VIRTIO_BLK_T_IN = 0"
definition VIRTIO_BLK_T_OUT :: u32 where "VIRTIO_BLK_T_OUT = 1"

lemmas virtio_consts = BSIZE_def NUM_def VRING_DESC_F_NEXT_def VRING_DESC_F_WRITE_def VIRTIO_BLK_T_IN_def
  VIRTIO_BLK_T_OUT_def VIRTIO_MMIO_INTERRUPT_ACK_def VIRTIO_MMIO_INTERRUPT_STATUS_def VIRTIO_MMIO_STATUS_def

definition mmio_read :: "nat \<Rightarrow> ('x kdisk_scheme, u32) km" where
  "mmio_read r = getK (\<lambda>s. bd_mmio (blkdev s) r)"

text \<open>A device that refuses the features clears the \<open>FEATURES_OK\<close> bit.\<close>

definition mmio_write :: "nat \<Rightarrow> u32 \<Rightarrow> ('x kdisk_scheme, unit) km" where
  "mmio_write r v = set_blkdev (\<lambda>d. d\<lparr>bd_mmio := (bd_mmio d)(r :=
     if r = VIRTIO_MMIO_STATUS \<and> bd_refuse d then v AND NOT VIRTIO_CONFIG_S_FEATURES_OK else v)\<rparr>)"

declare mmio_read_def [kdefs] mmio_write_def [kdefs]

definition no_desc :: virtq_desc where
  "no_desc = \<lparr>d_addr = DmaNull, d_len = 0, d_flags = 0, d_next = 0\<rparr>"

definition virtio_disk_init :: "('x kdisk_scheme, unit) km" where
  "virtio_disk_init = (bindK (mmio_read VIRTIO_MMIO_MAGIC_VALUE) (\<lambda>magic.
    bindK (mmio_read VIRTIO_MMIO_VERSION) (\<lambda>version.
    bindK (mmio_read VIRTIO_MMIO_DEVICE_ID) (\<lambda>device.
    bindK (mmio_read VIRTIO_MMIO_VENDOR_ID) (\<lambda>vendor.
    if magic \<noteq> 0x74726976 \<or> version \<noteq> 2 \<or> device \<noteq> 2 \<or> vendor \<noteq> 0x554d4551 then panicK ''could not find virtio disk'' else
    thenK (mmio_write VIRTIO_MMIO_STATUS 0) (
    let status = VIRTIO_CONFIG_S_ACKNOWLEDGE in
    thenK (mmio_write VIRTIO_MMIO_STATUS status) (
    let status = status OR VIRTIO_CONFIG_S_DRIVER in
    thenK (mmio_write VIRTIO_MMIO_STATUS status) (
    bindK (mmio_read VIRTIO_MMIO_DEVICE_FEATURES) (\<lambda>features.
    thenK (mmio_write VIRTIO_MMIO_DRIVER_FEATURES (foldl (\<lambda>f k. f AND NOT (push_bit k 1)) features
      [VIRTIO_BLK_F_RO, VIRTIO_BLK_F_SCSI, VIRTIO_BLK_F_CONFIG_WCE, VIRTIO_BLK_F_MQ, VIRTIO_F_ANY_LAYOUT,
      VIRTIO_RING_F_EVENT_IDX, VIRTIO_RING_F_INDIRECT_DESC])) (
    let status = status OR VIRTIO_CONFIG_S_FEATURES_OK in
    thenK (mmio_write VIRTIO_MMIO_STATUS status) (
    bindK (mmio_read VIRTIO_MMIO_STATUS) (\<lambda>status.
    if status AND VIRTIO_CONFIG_S_FEATURES_OK = 0 then panicK ''virtio disk FEATURES_OK unset'' else
    thenK (mmio_write VIRTIO_MMIO_QUEUE_SEL 0) (
    bindK (mmio_read VIRTIO_MMIO_QUEUE_READY) (\<lambda>ready.
    if ready \<noteq> 0 then panicK ''virtio disk should not be ready'' else
    bindK (mmio_read VIRTIO_MMIO_QUEUE_NUM_MAX) (\<lambda>mx.
    if mx = 0 then panicK ''virtio disk has no queue 0'' else
    if unat mx < NUM then panicK ''virtio disk max queue too short'' else
    bindK kalloc (\<lambda>desc.
    bindK kalloc (\<lambda>avail.
    bindK kalloc (\<lambda>used.
    if desc = 0 \<or> avail = 0 \<or> used = 0 then panicK ''virtio disk kalloc'' else
    thenK (zero_page desc) (
    thenK (zero_page avail) (
    thenK (zero_page used) (
    thenK (set_disk (\<lambda>d. d\<lparr>vd_desc := (\<lambda>_. no_desc), vd_avail_idx := 0, vd_avail_ring := (\<lambda>_. 0), vd_used_index := 0, vd_used_ring := (\<lambda>_. 0)\<rparr>)) (
    thenK (mmio_write VIRTIO_MMIO_QUEUE_NUM (of_nat NUM)) (
    thenK (mmio_write VIRTIO_MMIO_QUEUE_DESC_LOW (ucast desc)) (
    thenK (mmio_write VIRTIO_MMIO_QUEUE_DESC_HIGH (ucast (drop_bit 32 desc))) (
    thenK (mmio_write VIRTIO_MMIO_DRIVER_DESC_LOW (ucast avail)) (
    thenK (mmio_write VIRTIO_MMIO_DRIVER_DESC_HIGH (ucast (drop_bit 32 avail))) (
    thenK (mmio_write VIRTIO_MMIO_DEVICE_DESC_LOW (ucast used)) (
    thenK (mmio_write VIRTIO_MMIO_DEVICE_DESC_HIGH (ucast (drop_bit 32 used))) (
    thenK (mmio_write VIRTIO_MMIO_QUEUE_READY 1) (
    thenK (forK [0..<NUM] (\<lambda>i. set_disk (\<lambda>d. d\<lparr>vd_free := (vd_free d)(i := True)\<rparr>))) (
    mmio_write VIRTIO_MMIO_STATUS (status OR VIRTIO_CONFIG_S_DRIVER_OK))))))))))))))))))))))))))))))))"

section \<open>Descriptors\<close>

definition alloc_desc :: "('x kdisk_scheme, nat option) km" where
  "alloc_desc = (bindK (getK (\<lambda>s. find (vd_free (disk s)) [0..<NUM])) (\<lambda>r.
    case r of None \<Rightarrow> returnK None | Some i \<Rightarrow> (thenK (set_disk (\<lambda>d. d\<lparr>vd_free := (vd_free d)(i := False)\<rparr>)) (
      returnK (Some i)))))"

definition free_desc :: "nat \<Rightarrow> ('x kdisk_scheme, unit) km" where
  "free_desc i = (if NUM \<le> i then panicK ''free_desc 1'' else
    bindK (getK (\<lambda>s. vd_free (disk s) i)) (\<lambda>f.
    if f then panicK ''free_desc 2'' else
    thenK (set_disk (\<lambda>d. d\<lparr>vd_desc := (vd_desc d)(i := no_desc), vd_free := (vd_free d)(i := True)\<rparr>)) (
    wakeup ChanDiskFree)))"

text \<open>A chain has at most \<open>NUM\<close> descriptors, as each is freed once.\<close>

fun free_chain_loop :: "nat \<Rightarrow> nat \<Rightarrow> ('x kdisk_scheme, unit) km" where
  "free_chain_loop 0 i = undefK ''free_chain''"
| "free_chain_loop (Suc fuel) i = (bindK (getK (\<lambda>s. vd_desc (disk s) i)) (\<lambda>d.
  thenK (free_desc i) (
  (if d_flags d AND VRING_DESC_F_NEXT \<noteq> 0 then free_chain_loop fuel (unat (d_next d)) else returnK ()))))"

definition free_chain :: "nat \<Rightarrow> ('x kdisk_scheme, unit) km" where
  "free_chain i = free_chain_loop (Suc NUM) i"

fun alloc3_loop :: "nat \<Rightarrow> nat list \<Rightarrow> ('x kdisk_scheme, nat list option) km" where
  "alloc3_loop 0 idx = returnK (Some idx)"
| "alloc3_loop (Suc k) idx = (bindK alloc_desc (\<lambda>r.
  case r of None \<Rightarrow> (thenK (forK idx free_desc) (
    returnK None)) | Some i \<Rightarrow> alloc3_loop k (idx @ [i])))"

definition alloc3_desc :: "('x kdisk_scheme, nat list option) km" where
  "alloc3_desc = alloc3_loop 3 []"

section \<open>Requests\<close>

text \<open>\<open>virtio_disk_rw\<close> up to its sleep; the result is \<open>idx[0]\<close>. The sector number is computed
  in 32 bits.\<close>

definition virtio_disk_submit :: "nat \<Rightarrow> bool \<Rightarrow> ('x kdisk_scheme, nat) km" where
  "virtio_disk_submit b write = (bindK (get_buf b) (\<lambda>bf.
    let sector = (ucast (b_blockno bf * of_nat (BSIZE div 512)) :: u64) in
    bindK alloc3_desc (\<lambda>r.
    case r of None \<Rightarrow> blockK ''disk.free'' | Some idx \<Rightarrow> (let i0 = idx ! 0 in
      let i1 = idx ! 1 in
      let i2 = idx ! 2 in
      thenK (set_disk (\<lambda>d. d\<lparr>vd_ops := (vd_ops d)(i0 := \<lparr>r_type = if write then VIRTIO_BLK_T_OUT else VIRTIO_BLK_T_IN,
        r_reserved = 0, r_sector = sector\<rparr>)\<rparr>)) (
      thenK (set_disk (\<lambda>d. d\<lparr>vd_desc := (vd_desc d)(i0 := \<lparr>d_addr = DmaOps i0, d_len = 16,
        d_flags = VRING_DESC_F_NEXT, d_next = of_nat i1\<rparr>)\<rparr>)) (
      thenK (set_disk (\<lambda>d. d\<lparr>vd_desc := (vd_desc d)(i1 := \<lparr>d_addr = DmaData b, d_len = of_nat BSIZE,
        d_flags = (if write then 0 else VRING_DESC_F_WRITE) OR VRING_DESC_F_NEXT, d_next = of_nat i2\<rparr>)\<rparr>)) (
      thenK (set_disk (\<lambda>d. d\<lparr>vd_info_status := (vd_info_status d)(i0 := 0xff)\<rparr>)) (
      thenK (set_disk (\<lambda>d. d\<lparr>vd_desc := (vd_desc d)(i2 := \<lparr>d_addr = DmaStatus i0, d_len = 1,
        d_flags = VRING_DESC_F_WRITE, d_next = 0\<rparr>)\<rparr>)) (
      thenK (set_buf b (\<lambda>bf. bf\<lparr>b_disk := True\<rparr>)) (
      thenK (set_disk (\<lambda>d. d\<lparr>vd_info_b := (vd_info_b d)(i0 := Some b)\<rparr>)) (
      thenK (set_disk (\<lambda>d. d\<lparr>vd_avail_ring := (vd_avail_ring d)(unat (vd_avail_idx d) mod NUM := of_nat i0)\<rparr>)) (
      thenK (set_disk (\<lambda>d. d\<lparr>vd_avail_idx := vd_avail_idx d + 1\<rparr>)) (
      thenK (mmio_write VIRTIO_MMIO_QUEUE_NOTIFY 0) (
      returnK i0))))))))))))))"

text \<open>The rest of it, once \<open>b->disk\<close> is clear.\<close>

definition virtio_disk_finish :: "nat \<Rightarrow> nat \<Rightarrow> ('x kdisk_scheme, unit) km" where
  "virtio_disk_finish b i0 = (bindK (get_buf b) (\<lambda>bf.
    if b_disk bf then blockK ''disk'' else
    thenK (set_disk (\<lambda>d. d\<lparr>vd_info_b := (vd_info_b d)(i0 := None)\<rparr>)) (
    free_chain i0)))"

fun virtio_intr_loop :: "nat \<Rightarrow> ('x kdisk_scheme, unit) km" where
  "virtio_intr_loop 0 = returnK ()"
| "virtio_intr_loop (Suc n) = (bindK (getK disk) (\<lambda>d.
  let id = unat (vd_used_ring d (unat (vd_used_idx d) mod NUM)) in
  if vd_info_status d id \<noteq> 0 then panicK ''virtio_disk_intr status'' else
  case vd_info_b d id of None \<Rightarrow> panicK ''kerneltrap'' | Some b \<Rightarrow> (thenK (set_buf b (\<lambda>bf. bf\<lparr>b_disk := False\<rparr>)) (
    thenK (wakeup (ChanDiskBuf b)) (
    thenK (set_disk (\<lambda>d. d\<lparr>vd_used_idx := vd_used_idx d + 1\<rparr>)) (
    virtio_intr_loop n))))))"

text \<open>The loop runs once for every entry the device has added to the used ring.\<close>

definition virtio_disk_intr :: "('x kdisk_scheme, unit) km" where
  "virtio_disk_intr = (bindK (mmio_read VIRTIO_MMIO_INTERRUPT_STATUS) (\<lambda>st.
    thenK (mmio_write VIRTIO_MMIO_INTERRUPT_ACK (st AND 3)) (
    bindK (getK (\<lambda>s. unat (vd_used_index (disk s) - vd_used_idx (disk s)))) (\<lambda>n.
    virtio_intr_loop n))))"

section \<open>The device\<close>

text \<open>One request: the chain at the next entry of the available ring.\<close>

definition device_step :: "('x kdisk_scheme, unit) km" where
  "device_step = (bindK (getK disk) (\<lambda>d.
    bindK (getK (\<lambda>s. bd_seen (blkdev s))) (\<lambda>seen.
    let i0 = unat (vd_avail_ring d (unat seen mod NUM)) in
    let i1 = unat (d_next (vd_desc d i0)) in
    let i2 = unat (d_next (vd_desc d i1)) in
    case (d_addr (vd_desc d i0), d_addr (vd_desc d i1), d_addr (vd_desc d i2)) of
      (DmaOps k, DmaData b, DmaStatus j) \<Rightarrow> (let blk = unat (r_sector (vd_ops d k)) div 2 in
        thenK ((if r_type (vd_ops d k) = VIRTIO_BLK_T_OUT then (bindK (get_buf b) (\<lambda>bf.
          set_blkdev (\<lambda>v. v\<lparr>bd_blocks := (bd_blocks v)(blk := b_data bf), bd_history := bd_history v @ [(blk, b_data bf)]\<rparr>)))
          else (bindK (getK blkdev) (\<lambda>v.
            set_buf b (\<lambda>bf. bf\<lparr>b_data := bd_blocks v blk\<rparr>))))) (
        thenK (set_disk (\<lambda>d. d\<lparr>vd_info_status := (vd_info_status d)(j := 0),
          vd_used_ring := (vd_used_ring d)(unat (vd_used_index d) mod NUM := of_nat i0),
          vd_used_index := vd_used_index d + 1\<rparr>)) (
        set_blkdev (\<lambda>v. v\<lparr>bd_seen := bd_seen v + 1\<rparr>))))
      | _ \<Rightarrow> undefK ''virtio chain'')))"

text \<open>A whole transfer as its caller sees it: the request is submitted, the device carries it
  out and raises its interrupt, and the caller wakes up and frees the descriptors.\<close>

definition virtio_disk_rw :: "nat \<Rightarrow> bool \<Rightarrow> ('x kdisk_scheme, unit) km" where
  "virtio_disk_rw b write = (bindK (virtio_disk_submit b write) (\<lambda>i0.
    thenK device_step (
    thenK virtio_disk_intr (
    virtio_disk_finish b i0))))"

section \<open>A transfer moves one block\<close>

text \<open>No request is in flight.\<close>

definition disk_idle :: "'x kdisk_scheme \<Rightarrow> bool" where
  "disk_idle s \<longleftrightarrow> (\<forall>i < NUM. vd_free (disk s) i) \<and> vd_used_idx (disk s) = vd_used_index (disk s)
     \<and> bd_seen (blkdev s) = vd_avail_idx (disk s)"

lemma upt_NUM: "[0..<NUM] = [0, 1, 2, 3, 4, 5, 6, 7]"
  by (simp add: NUM_def upt_rec)

lemma alloc_desc_eq:
  "alloc_desc s = (case find (vd_free (disk s)) [0, 1, 2, 3, 4, 5, 6, 7] of None \<Rightarrow> Inr (None, s)
    | Some i \<Rightarrow> Inr (Some i, s\<lparr>disk := (disk s)\<lparr>vd_free := (vd_free (disk s))(i := False)\<rparr>\<rparr>))"
  by (simp add: alloc_desc_def kdefs upt_NUM split: option.split)

lemma alloc3_desc_idle:
  assumes "\<forall>i < NUM. vd_free (disk s) i"
  shows "alloc3_desc s = Inr (Some [0, 1, 2], s\<lparr>disk := (disk s)\<lparr>vd_free := (vd_free (disk s))(0 := False, 1 := False, 2 := False)\<rparr>\<rparr>)"
proof -
  have "vd_free (disk s) 0" "vd_free (disk s) 1" "vd_free (disk s) 2" using assms by (auto simp: NUM_def)
  then show ?thesis
    by (simp add: alloc3_desc_def numeral_3_eq_3 bindK_def alloc_desc_eq returnK_def)
qed

text \<open>The driver's state with a request for buffer \<open>b\<close> in flight.\<close>

definition in_flight :: "nat \<Rightarrow> u32 \<Rightarrow> bool \<Rightarrow> vdisk \<Rightarrow> vdisk \<Rightarrow> bool" where
  "in_flight b bn w D D' \<longleftrightarrow>
     vd_ops D' 0 = \<lparr>r_type = if w then VIRTIO_BLK_T_OUT else VIRTIO_BLK_T_IN, r_reserved = 0, r_sector = ucast (bn * 2)\<rparr>
     \<and> d_addr (vd_desc D' 0) = DmaOps 0 \<and> d_flags (vd_desc D' 0) = 1 \<and> d_next (vd_desc D' 0) = 1
     \<and> d_addr (vd_desc D' 1) = DmaData b \<and> odd (d_flags (vd_desc D' 1)) \<and> d_next (vd_desc D' 1) = 2
     \<and> d_addr (vd_desc D' 2) = DmaStatus 0 \<and> d_flags (vd_desc D' 2) = 2
     \<and> vd_info_b D' 0 = Some b \<and> vd_free D' = (vd_free D)(0 := False, 1 := False, 2 := False)
     \<and> vd_avail_ring D' (unat (vd_avail_idx D) mod NUM) = 0 \<and> vd_avail_idx D' = vd_avail_idx D + 1
     \<and> vd_used_index D' = vd_used_index D \<and> vd_used_idx D' = vd_used_idx D"

lemma submit_in_flight:
  assumes "disk_idle s"
  shows "\<exists>D mm. virtio_disk_submit b w s = Inr (0, s\<lparr>bufs := (bufs s)(b := (bufs s b)\<lparr>b_disk := True\<rparr>), disk := D,
      blkdev := (blkdev s)\<lparr>bd_mmio := mm\<rparr>\<rparr>) \<and> in_flight b (b_blockno (bufs s b)) w (disk s) D"
proof -
  have "\<forall>i < NUM. vd_free (disk s) i" using assms by (simp add: disk_idle_def)
  note a = alloc3_desc_idle [OF this]
  have run: "virtio_disk_submit b w s = Inr (0, s\<lparr>bufs := (bufs s)(b := (bufs s b)\<lparr>b_disk := True\<rparr>), disk := D,
      blkdev := (blkdev s)\<lparr>bd_mmio := (bd_mmio (blkdev s))(0x50 := 0)\<rparr>\<rparr>)"
    if "D = (disk s)\<lparr>vd_free := (vd_free (disk s))(0 := False, 1 := False, 2 := False),
        vd_ops := (vd_ops (disk s))(0 := \<lparr>r_type = if w then 1 else 0, r_reserved = 0, r_sector = ucast (b_blockno (bufs s b) * 2)\<rparr>),
        vd_info_status := (vd_info_status (disk s))(0 := 255),
        vd_desc := (vd_desc (disk s))(0 := \<lparr>d_addr = DmaOps 0, d_len = 16, d_flags = 1, d_next = 1\<rparr>,
          1 := \<lparr>d_addr = DmaData b, d_len = 1024, d_flags = (if w then 1 else 3), d_next = 2\<rparr>,
          2 := \<lparr>d_addr = DmaStatus 0, d_len = 1, d_flags = 2, d_next = 0\<rparr>),
        vd_info_b := (vd_info_b (disk s))(0 := Some b),
        vd_avail_ring := (vd_avail_ring (disk s))(unat (vd_avail_idx (disk s)) mod 8 := 0),
        vd_avail_idx := vd_avail_idx (disk s) + 1\<rparr>" for D
    unfolding virtio_disk_submit_def that
    by (cases w) (simp_all add: bindK_def thenK_def a get_buf_def getK_def set_disk_def modifyK_def set_buf_def mmio_write_def
        set_blkdev_def returnK_def virtio_consts VIRTIO_MMIO_QUEUE_NOTIFY_def)
  show ?thesis
    unfolding run [OF refl] in_flight_def by (intro exI conjI, rule refl) (auto simp: virtio_consts)
qed

text \<open>Only processes that slept have been made runnable.\<close>

definition only_woken :: "(nat \<Rightarrow> proc) \<Rightarrow> (nat \<Rightarrow> proc) \<Rightarrow> bool" where
  "only_woken P Q \<longleftrightarrow> (\<forall>i. Q i = P i \<or> p_state (P i) = SLEEPING \<and> Q i = (P i)\<lparr>p_state := RUNNABLE\<rparr>)"

lemma only_woken_refl [simp]: "only_woken P P"
  by (simp add: only_woken_def)

lemma only_woken_trans: "only_woken P Q \<Longrightarrow> only_woken Q R \<Longrightarrow> only_woken P R"
  unfolding only_woken_def by (metis proc.select_convs(2) proc.surjective proc.update_convs(2))

lemma only_woken_wake: "only_woken (procs s) (procs (wake ch s))"
  by (auto simp: only_woken_def wake_def woken_def)

lemma sector_block: "unat (bn :: u32) < 2 ^ 31 \<Longrightarrow> unat (ucast (bn * 2) :: u64) div 2 = unat bn"
  by (simp add: unsigned_ucast_eq unat_word_ariths take_bit_eq_mod)

lemma device_step_eq:
  assumes "in_flight b bn w D (disk u)" "bd_seen (blkdev u) = vd_avail_idx D" "unat bn < 2 ^ 31"
  defines "D' \<equiv> (disk u)\<lparr>vd_info_status := (vd_info_status (disk u))(0 := 0),
      vd_used_ring := (vd_used_ring (disk u))(unat (vd_used_index D) mod NUM := 0), vd_used_index := vd_used_index D + 1\<rparr>"
  shows "device_step u = Inr ((), if w
      then u\<lparr>blkdev := (blkdev u)\<lparr>bd_blocks := (bd_blocks (blkdev u))(unat bn := b_data (bufs u b)),
          bd_history := bd_history (blkdev u) @ [(unat bn, b_data (bufs u b))], bd_seen := vd_avail_idx D + 1\<rparr>, disk := D'\<rparr>
      else u\<lparr>bufs := (bufs u)(b := (bufs u b)\<lparr>b_data := bd_blocks (blkdev u) (unat bn)\<rparr>),
          disk := D', blkdev := (blkdev u)\<lparr>bd_seen := vd_avail_idx D + 1\<rparr>\<rparr>)"
  using assms(1-3) unfolding D'_def device_step_def in_flight_def
  by (cases w) (simp_all add: kdefs sector_block Let_def virtio_consts)

lemma wake_frame: "wake ch s = s\<lparr>procs := procs (wake ch s)\<rparr>"
  by (simp add: wake_def)

lemma disk_wake [simp]:
  "bufs (wake ch s) = bufs s" "disk (wake ch s) = disk s" "blkdev (wake ch s) = blkdev s"
  by (simp_all add: wake_def)

lemma virtio_disk_intr_eq:
  assumes "vd_used_index (disk u) = vd_used_idx (disk u) + 1"
    and "vd_used_ring (disk u) (unat (vd_used_idx (disk u)) mod NUM) = 0" "vd_info_status (disk u) 0 = 0" "vd_info_b (disk u) 0 = Some b"
  shows "\<exists>mm P. virtio_disk_intr u = Inr ((), u\<lparr>blkdev := (blkdev u)\<lparr>bd_mmio := mm\<rparr>, bufs := (bufs u)(b := (bufs u b)\<lparr>b_disk := False\<rparr>),
      procs := P, disk := (disk u)\<lparr>vd_used_idx := vd_used_idx (disk u) + 1\<rparr>\<rparr>) \<and> only_woken (procs u) P"
proof -
  define mm where "mm = (bd_mmio (blkdev u))(0x64 := bd_mmio (blkdev u) 0x60 AND 3)"
  define v where "v = u\<lparr>blkdev := (blkdev u)\<lparr>bd_mmio := mm\<rparr>, bufs := (bufs u)(b := (bufs u b)\<lparr>b_disk := False\<rparr>)\<rparr>"
  have v: "disk v = disk u" "procs v = procs u" by (simp_all add: v_def)
  have "virtio_disk_intr u = Inr ((), (wake (ChanDiskBuf b) v)\<lparr>disk := (disk u)\<lparr>vd_used_idx := vd_used_idx (disk u) + 1\<rparr>\<rparr>)"
    using assms by (simp add: virtio_disk_intr_def kdefs wakeup_wake virtio_consts v_def mm_def)
  also have "wake (ChanDiskBuf b) v = v\<lparr>procs := procs (wake (ChanDiskBuf b) v)\<rparr>" by (rule wake_frame)
  finally have "virtio_disk_intr u = Inr ((), u\<lparr>blkdev := (blkdev u)\<lparr>bd_mmio := mm\<rparr>, bufs := (bufs u)(b := (bufs u b)\<lparr>b_disk := False\<rparr>),
      procs := procs (wake (ChanDiskBuf b) v), disk := (disk u)\<lparr>vd_used_idx := vd_used_idx (disk u) + 1\<rparr>\<rparr>)"
    by (simp add: v_def)
  moreover have "only_woken (procs u) (procs (wake (ChanDiskBuf b) v))"
    using only_woken_wake [of v "ChanDiskBuf b"] v by simp
  ultimately show ?thesis by blast
qed

lemma free_desc_eq:
  assumes "i < NUM" "\<not> vd_free (disk u) i"
  shows "\<exists>P. free_desc i u = Inr ((), u\<lparr>disk := (disk u)\<lparr>vd_desc := (vd_desc (disk u))(i := no_desc), vd_free := (vd_free (disk u))(i := True)\<rparr>,
    procs := P\<rparr>) \<and> only_woken (procs u) P"
proof -
  define v where "v = u\<lparr>disk := (disk u)\<lparr>vd_desc := (vd_desc (disk u))(i := no_desc), vd_free := (vd_free (disk u))(i := True)\<rparr>\<rparr>"
  have "free_desc i u = Inr ((), wake ChanDiskFree v)"
    using assms by (simp add: free_desc_def kdefs wakeup_wake v_def)
  also have "wake ChanDiskFree v = v\<lparr>procs := procs (wake ChanDiskFree v)\<rparr>" by (rule wake_frame)
  finally have "free_desc i u = Inr ((), v\<lparr>procs := procs (wake ChanDiskFree v)\<rparr>)" .
  moreover have "only_woken (procs u) (procs (wake ChanDiskFree v))"
    using only_woken_wake [of v ChanDiskFree] by (simp add: v_def)
  ultimately show ?thesis unfolding v_def by blast
qed

text \<open>The two descriptors of a chain of three are freed, then the third.\<close>

lemma free_chain_eq:
  assumes "\<not> vd_free (disk u) 0" "\<not> vd_free (disk u) 1" "\<not> vd_free (disk u) 2"
    and "odd (d_flags (vd_desc (disk u) 0))" "d_next (vd_desc (disk u) 0) = 1"
    and "odd (d_flags (vd_desc (disk u) 1))" "d_next (vd_desc (disk u) 1) = 2" "d_flags (vd_desc (disk u) 2) = 2"
  shows "\<exists>P D. free_chain 0 u = Inr ((), u\<lparr>disk := D, procs := P\<rparr>) \<and> only_woken (procs u) P
    \<and> vd_free D = (vd_free (disk u))(0 := True, 1 := True, 2 := True) \<and> vd_used_idx D = vd_used_idx (disk u)
    \<and> vd_used_index D = vd_used_index (disk u) \<and> vd_avail_idx D = vd_avail_idx (disk u)"
proof -
  obtain P0 where P0: "free_desc 0 u = Inr ((), u\<lparr>disk := (disk u)\<lparr>vd_desc := (vd_desc (disk u))(0 := no_desc), vd_free := (vd_free (disk u))(0 := True)\<rparr>, procs := P0\<rparr>)"
    "only_woken (procs u) P0"
    using free_desc_eq [OF _ assms(1)] by (auto simp: NUM_def)
  define u1 where "u1 = u\<lparr>disk := (disk u)\<lparr>vd_desc := (vd_desc (disk u))(0 := no_desc), vd_free := (vd_free (disk u))(0 := True)\<rparr>, procs := P0\<rparr>"
  obtain P1 where P1: "free_desc 1 u1 = Inr ((), u1\<lparr>disk := (disk u1)\<lparr>vd_desc := (vd_desc (disk u1))(1 := no_desc), vd_free := (vd_free (disk u1))(1 := True)\<rparr>, procs := P1\<rparr>)"
    "only_woken (procs u1) P1"
    using free_desc_eq [of 1 u1] assms(2) by (auto simp: NUM_def u1_def)
  define u2 where "u2 = u1\<lparr>disk := (disk u1)\<lparr>vd_desc := (vd_desc (disk u1))(1 := no_desc), vd_free := (vd_free (disk u1))(1 := True)\<rparr>, procs := P1\<rparr>"
  obtain P2 where P2: "free_desc 2 u2 = Inr ((), u2\<lparr>disk := (disk u2)\<lparr>vd_desc := (vd_desc (disk u2))(2 := no_desc), vd_free := (vd_free (disk u2))(2 := True)\<rparr>, procs := P2\<rparr>)"
    "only_woken (procs u2) P2"
    using free_desc_eq [of 2 u2] assms(3) by (auto simp: NUM_def u1_def u2_def)
  have odd: "(f AND VRING_DESC_F_NEXT \<noteq> 0) = odd f" for f :: u16
    by (simp add: VRING_DESC_F_NEXT_def and_one_eq odd_iff_mod_2_eq_one)
  have chain: "free_chain_loop (Suc (Suc (Suc k))) 0 u = Inr ((), u2\<lparr>disk := (disk u2)\<lparr>vd_desc := (vd_desc (disk u2))(2 := no_desc), vd_free := (vd_free (disk u2))(2 := True)\<rparr>, procs := P2\<rparr>)" for k
    using assms(4-8) P0(1) P1(1) P2(1)
    by (simp add: bindK_def thenK_def getK_def returnK_def odd u1_def [symmetric] u2_def [symmetric])
      (simp add: u1_def u2_def returnK_def)
  have w: "only_woken (procs u) P2"
    using only_woken_trans [OF only_woken_trans [OF P0(2)]] P1(2) P2(2) by (simp add: u1_def u2_def)
  have "Suc NUM = Suc (Suc (Suc 6))" by (simp add: NUM_def)
  then have fc: "free_chain 0 u = Inr ((), u\<lparr>disk := (disk u)\<lparr>vd_desc := (vd_desc (disk u))(0 := no_desc, 1 := no_desc, 2 := no_desc),
      vd_free := (vd_free (disk u))(0 := True, 1 := True, 2 := True)\<rparr>, procs := P2\<rparr>)"
    unfolding free_chain_def using chain [of 6] by (simp only: u2_def u1_def) simp
  show ?thesis
    unfolding fc by (intro exI conjI, rule refl) (simp_all add: w)
qed

text \<open>From \<open>s\<close> to \<open>t\<close> only buffers, the driver and the device have changed, apart from sleepers
  that were woken.\<close>

definition disk_frame :: "'x kdisk_scheme \<Rightarrow> 'x kdisk_scheme \<Rightarrow> bool" where
  "disk_frame s t \<longleftrightarrow> (\<exists>P B D V. t = s\<lparr>procs := P, bufs := B, disk := D, blkdev := V\<rparr>) \<and> only_woken (procs s) (procs t)"

lemma disk_frame_refl [simp]: "disk_frame s s"
  unfolding disk_frame_def
  by (rule conjI, rule exI [of _ "procs s"], rule exI [of _ "bufs s"], rule exI [of _ "disk s"], rule exI [of _ "blkdev s"]) simp_all

lemma disk_frame_trans: "disk_frame s t \<Longrightarrow> disk_frame t u \<Longrightarrow> disk_frame s u"
  unfolding disk_frame_def by (elim exE conjE, intro conjI exI, simp) (simp add: only_woken_trans)

lemma disk_frameI:
  "t = s\<lparr>procs := P, bufs := B, disk := D, blkdev := V\<rparr> \<Longrightarrow> only_woken (procs s) P \<Longrightarrow> disk_frame s t"
  unfolding disk_frame_def by auto

lemma virtio_disk_rw_wp:
  assumes "disk_idle s" "unat (b_blockno (bufs s b)) < 2 ^ 31"
  shows "wpK (virtio_disk_rw b w) (\<lambda>_ t. disk_idle t \<and> disk_frame s t
    \<and> bufs t = (bufs s)(b := (bufs s b)\<lparr>b_disk := False,
        b_data := if w then b_data (bufs s b) else bd_blocks (blkdev s) (unat (b_blockno (bufs s b)))\<rparr>)
    \<and> bd_blocks (blkdev t) = (if w then (bd_blocks (blkdev s))(unat (b_blockno (bufs s b)) := b_data (bufs s b)) else bd_blocks (blkdev s))
    \<and> bd_history (blkdev t) = bd_history (blkdev s) @ (if w then [(unat (b_blockno (bufs s b)), b_data (bufs s b))] else [])) s"
proof -
  define bn where "bn = b_blockno (bufs s b)"
  obtain D mm where sub: "virtio_disk_submit b w s = Inr (0, s\<lparr>bufs := (bufs s)(b := (bufs s b)\<lparr>b_disk := True\<rparr>), disk := D,
      blkdev := (blkdev s)\<lparr>bd_mmio := mm\<rparr>\<rparr>)" (is "_ = Inr (0, ?u)") and fl: "in_flight b bn w (disk s) D"
    using submit_in_flight [OF assms(1), of b w] unfolding bn_def by blast
  have idle: "\<forall>i < NUM. vd_free (disk s) i" "vd_used_idx (disk s) = vd_used_index (disk s)" "bd_seen (blkdev s) = vd_avail_idx (disk s)"
    using assms(1) by (simp_all add: disk_idle_def)
  define D1 where "D1 = D\<lparr>vd_info_status := (vd_info_status D)(0 := 0),
      vd_used_ring := (vd_used_ring D)(unat (vd_used_index (disk s)) mod NUM := 0), vd_used_index := vd_used_index (disk s) + 1\<rparr>"
  define v where "v = (if w
      then ?u\<lparr>blkdev := (blkdev s)\<lparr>bd_mmio := mm, bd_blocks := (bd_blocks (blkdev s))(unat bn := b_data (bufs s b)),
          bd_history := bd_history (blkdev s) @ [(unat bn, b_data (bufs s b))], bd_seen := vd_avail_idx (disk s) + 1\<rparr>, disk := D1\<rparr>
      else ?u\<lparr>bufs := (bufs s)(b := (bufs s b)\<lparr>b_disk := True, b_data := bd_blocks (blkdev s) (unat bn)\<rparr>),
          disk := D1, blkdev := (blkdev s)\<lparr>bd_mmio := mm, bd_seen := vd_avail_idx (disk s) + 1\<rparr>\<rparr>)"
  have dev: "device_step ?u = Inr ((), v)"
    using device_step_eq [of b bn w "disk s" ?u] fl assms(2) idle(3) by (cases w) (simp_all add: bn_def v_def D1_def)
  have v: "disk v = D1"
    "bufs v = (bufs s)(b := (bufs s b)\<lparr>b_disk := True,
        b_data := if w then b_data (bufs s b) else bd_blocks (blkdev s) (unat bn)\<rparr>)"
    "bd_blocks (blkdev v) = (if w then (bd_blocks (blkdev s))(unat bn := b_data (bufs s b)) else bd_blocks (blkdev s))"
    "bd_history (blkdev v) = bd_history (blkdev s) @ (if w then [(unat bn, b_data (bufs s b))] else [])"
    "bd_seen (blkdev v) = vd_avail_idx (disk s) + 1" "procs v = procs s"
    by (cases w; simp add: v_def)+
  have fv: "v = s\<lparr>bufs := bufs v, disk := disk v, blkdev := blkdev v\<rparr>"
    by (cases w) (simp_all add: v_def)
  have "vd_used_index (disk v) = vd_used_idx (disk v) + 1" "vd_used_ring (disk v) (unat (vd_used_idx (disk v)) mod NUM) = 0"
    "vd_info_status (disk v) 0 = 0" "vd_info_b (disk v) 0 = Some b"
    using fl idle(2) by (simp_all add: v D1_def in_flight_def)
  from virtio_disk_intr_eq [OF this] obtain mm' P where int: "virtio_disk_intr v = Inr ((), v\<lparr>blkdev := (blkdev v)\<lparr>bd_mmio := mm'\<rparr>,
      bufs := (bufs v)(b := (bufs v b)\<lparr>b_disk := False\<rparr>),
      procs := P, disk := (disk v)\<lparr>vd_used_idx := vd_used_idx (disk v) + 1\<rparr>\<rparr>)" (is "_ = Inr ((), ?x)")
    and wP: "only_woken (procs v) P" by blast
  define y where "y = ?x\<lparr>disk := (disk ?x)\<lparr>vd_info_b := (vd_info_b (disk ?x))(0 := None)\<rparr>\<rparr>"
  have fin: "virtio_disk_finish b 0 ?x = free_chain 0 y"
    by (simp add: virtio_disk_finish_def kdefs y_def)
  have "\<not> vd_free (disk y) 0" "\<not> vd_free (disk y) 1" "\<not> vd_free (disk y) 2"
    "odd (d_flags (vd_desc (disk y) 0))" "d_next (vd_desc (disk y) 0) = 1"
    "odd (d_flags (vd_desc (disk y) 1))" "d_next (vd_desc (disk y) 1) = 2" "d_flags (vd_desc (disk y) 2) = 2"
    using fl by (simp_all add: y_def v D1_def in_flight_def)
  from free_chain_eq [OF this] obtain P' D' where fr: "free_chain 0 y = Inr ((), y\<lparr>disk := D', procs := P'\<rparr>)"
    "only_woken (procs y) P'" "vd_free D' = (vd_free (disk y))(0 := True, 1 := True, 2 := True)"
    "vd_used_idx D' = vd_used_idx (disk y)" "vd_used_index D' = vd_used_index (disk y)" "vd_avail_idx D' = vd_avail_idx (disk y)" by blast
  define t where "t = y\<lparr>disk := D', procs := P'\<rparr>"
  have run: "virtio_disk_rw b w s = Inr ((), t)"
    by (simp add: virtio_disk_rw_def bindK_def thenK_def sub dev int fin fr(1) t_def)
  have "only_woken (procs s) P'"
    using only_woken_trans [OF wP, of P'] fr(2) v(6) by (simp add: y_def)
  moreover have "t = s\<lparr>procs := P', bufs := bufs t, disk := D', blkdev := blkdev t\<rparr>"
    unfolding t_def y_def by (subst (1) fv) simp
  ultimately have "disk_frame s t" by (rule disk_frameI [rotated])
  moreover have "disk_idle t"
    using idle fl fr(3-6) by (auto simp: disk_idle_def t_def y_def v D1_def in_flight_def NUM_def)
  moreover have "bufs t = (bufs s)(b := (bufs s b)\<lparr>b_disk := False,
        b_data := if w then b_data (bufs s b) else bd_blocks (blkdev s) (unat bn)\<rparr>)"
    unfolding t_def y_def by (cases w) (simp_all add: v fun_upd_def fun_eq_iff)
  moreover have "blkdev t = (blkdev v)\<lparr>bd_mmio := mm'\<rparr>" by (simp add: t_def y_def)
  ultimately show ?thesis
    unfolding wpK_def run by (simp add: v bn_def)
qed


definition no_buf :: buf where
  "no_buf = \<lparr>b_valid = False, b_disk = False, b_dev = 0, b_blockno = 0, b_lock = initsleeplock ''buffer'',
     b_refcnt = 0, b_prev = 0, b_next = 0, b_data = replicate BSIZE 0\<rparr>"

definition idle_vdisk :: vdisk where
  "idle_vdisk = \<lparr>vd_desc = (\<lambda>_. no_desc), vd_avail_idx = 0, vd_avail_ring = (\<lambda>_. 0), vd_used_index = 0,
     vd_used_ring = (\<lambda>_. 0), vd_free = (\<lambda>_. True), vd_used_idx = 0, vd_info_b = (\<lambda>_. None),
     vd_info_status = (\<lambda>_. 0), vd_ops = (\<lambda>_. \<lparr>r_type = 0, r_reserved = 0, r_sector = 0\<rparr>)\<rparr>"

definition disk_with :: "(nat \<Rightarrow> bytes) \<Rightarrow> (nat \<Rightarrow> buf) \<Rightarrow> kdisk" where
  "disk_with blocks B = kcons.extend quiet_uart \<lparr>bufs = B, disk = idle_vdisk,
     blkdev = \<lparr>bd_seen = 0, bd_blocks = blocks, bd_history = [], bd_mmio = (\<lambda>_. 0), bd_refuse = False\<rparr>\<rparr>"

lemma disk_with_simps [simp]:
  "bufs (disk_with m B) = B" "bd_blocks (blkdev (disk_with m B)) = m" "bd_history (blkdev (disk_with m B)) = []"
  "disk_idle (disk_with m B)" "procs (disk_with m B) = procs (boot 0)" "cpus (disk_with m B) = cpus (boot 0)"
  "hartid (disk_with m B) = hartid (boot 0)"
  by (simp_all add: disk_with_def kcons.defs quiet_uart_def kproc.defs disk_idle_def idle_vdisk_def)


end
