(* ===== verification/Bio.thy ===== *)
theory Bio
  imports Disk
begin

text \<open>
  The buffer cache (\<open>kernel/bio.c\<close>): the doubly linked list of buffers in order of use, with
  \<open>NBUF\<close> standing for \<open>bcache.head\<close>. Each section under \<open>bcache.lock\<close> is one atomic step. The
  lemmas relate the cache to an abstract one: a view of the blocks, a reference count for
  each block and the set of blocks whose buffer is locked.
\<close>

section \<open>Code\<close>

definition binit :: "('x kdisk_scheme, unit) km" where
  "binit = (thenK (set_buf NBUF (\<lambda>h. h\<lparr>b_prev := NBUF, b_next := NBUF\<rparr>)) (
    forK [0..<NBUF] (\<lambda>b. (bindK (get_buf NBUF) (\<lambda>h.
      thenK (set_buf b (\<lambda>bf. bf\<lparr>b_next := b_next h, b_prev := NBUF, b_lock := initsleeplock ''buffer''\<rparr>)) (
      thenK (set_buf (b_next h) (\<lambda>n. n\<lparr>b_prev := b\<rparr>)) (
      set_buf NBUF (\<lambda>h. h\<lparr>b_next := b\<rparr>))))))))"

text \<open>The two loops of \<open>bget\<close>; the list has \<open>NBUF\<close> elements.\<close>

fun bget_hit :: "nat \<Rightarrow> u32 \<Rightarrow> u32 \<Rightarrow> nat \<Rightarrow> ('x kdisk_scheme, nat option) km" where
  "bget_hit 0 dev blockno b = (if b = NBUF then returnK None else undefK ''bget'')"
| "bget_hit (Suc fuel) dev blockno b = (if b = NBUF then returnK None else (bindK (get_buf b) (\<lambda>bf.
  if b_dev bf = dev \<and> b_blockno bf = blockno then returnK (Some b) else
  bget_hit fuel dev blockno (b_next bf))))"

fun bget_lru :: "nat \<Rightarrow> nat \<Rightarrow> ('x kdisk_scheme, nat option) km" where
  "bget_lru 0 b = (if b = NBUF then returnK None else undefK ''bget'')"
| "bget_lru (Suc fuel) b = (if b = NBUF then returnK None else (bindK (get_buf b) (\<lambda>bf.
  if b_refcnt bf = 0 then returnK (Some b) else
  bget_lru fuel (b_prev bf))))"

definition buf_acquire :: "nat \<Rightarrow> ('x kdisk_scheme, unit) km" where
  "buf_acquire b = (bindK (get_buf b) (\<lambda>bf.
    bindK (acquiresleep (b_lock bf)) (\<lambda>lk.
    set_buf b (\<lambda>bf. bf\<lparr>b_lock := lk\<rparr>))))"

definition bget :: "u32 \<Rightarrow> u32 \<Rightarrow> ('x kdisk_scheme, nat) km" where
  "bget dev blockno = (bindK (get_buf NBUF) (\<lambda>h.
    bindK (bget_hit NBUF dev blockno (b_next h)) (\<lambda>hit.
    case hit of
      Some b \<Rightarrow> (thenK (set_buf b (\<lambda>bf. bf\<lparr>b_refcnt := b_refcnt bf + 1\<rparr>)) (
        thenK (buf_acquire b) (
        returnK b)))
      | None \<Rightarrow> (bindK (bget_lru NBUF (b_prev h)) (\<lambda>lru.
        case lru of
          Some b \<Rightarrow> (thenK (set_buf b (\<lambda>bf. bf\<lparr>b_dev := dev, b_blockno := blockno, b_valid := False, b_refcnt := 1\<rparr>)) (
            thenK (buf_acquire b) (
            returnK b)))
          | None \<Rightarrow> panicK ''bget: no buffers'')))))"

definition bread :: "u32 \<Rightarrow> u32 \<Rightarrow> ('x kdisk_scheme, nat) km" where
  "bread dev blockno = (bindK (bget dev blockno) (\<lambda>b.
    bindK (get_buf b) (\<lambda>bf.
    thenK ((if \<not> b_valid bf then (thenK (virtio_disk_rw b False) (
      set_buf b (\<lambda>bf. bf\<lparr>b_valid := True\<rparr>)))
      else returnK ())) (
    returnK b))))"

definition bwrite :: "nat \<Rightarrow> ('x kdisk_scheme, unit) km" where
  "bwrite b = (bindK (get_buf b) (\<lambda>bf.
    bindK (holdingsleep (b_lock bf)) (\<lambda>h.
    if \<not> h then panicK ''bwrite'' else
    virtio_disk_rw b True)))"

text \<open>Unlink a buffer and insert it behind the list head.\<close>

definition buf_to_front :: "nat \<Rightarrow> ('x kdisk_scheme, unit) km" where
  "buf_to_front b = (bindK (get_buf b) (\<lambda>bf.
    thenK (set_buf (b_next bf) (\<lambda>n. n\<lparr>b_prev := b_prev bf\<rparr>)) (
    thenK (set_buf (b_prev bf) (\<lambda>p. p\<lparr>b_next := b_next bf\<rparr>)) (
    bindK (get_buf NBUF) (\<lambda>h.
    thenK (set_buf b (\<lambda>bf. bf\<lparr>b_next := b_next h\<rparr>)) (
    thenK (set_buf b (\<lambda>bf. bf\<lparr>b_prev := NBUF\<rparr>)) (
    thenK (set_buf (b_next h) (\<lambda>n. n\<lparr>b_prev := b\<rparr>)) (
    set_buf NBUF (\<lambda>h. h\<lparr>b_next := b\<rparr>)))))))))"

definition brelse :: "nat \<Rightarrow> ('x kdisk_scheme, unit) km" where
  "brelse b = (bindK (get_buf b) (\<lambda>bf.
    bindK (holdingsleep (b_lock bf)) (\<lambda>h.
    if \<not> h then panicK ''brelse'' else
    bindK (releasesleep (ChanBuf b) (b_lock bf)) (\<lambda>lk.
    thenK (set_buf b (\<lambda>bf. bf\<lparr>b_lock := lk\<rparr>)) (
    thenK (set_buf b (\<lambda>bf. bf\<lparr>b_refcnt := b_refcnt bf - 1\<rparr>)) (
    bindK (get_buf b) (\<lambda>bf.
    (if b_refcnt bf = 0 then buf_to_front b else returnK ()))))))))"

definition bpin :: "nat \<Rightarrow> ('x kdisk_scheme, unit) km" where
  "bpin b = set_buf b (\<lambda>bf. bf\<lparr>b_refcnt := b_refcnt bf + 1\<rparr>)"

definition bunpin :: "nat \<Rightarrow> ('x kdisk_scheme, unit) km" where
  "bunpin b = set_buf b (\<lambda>bf. bf\<lparr>b_refcnt := b_refcnt bf - 1\<rparr>)"

section \<open>The list of buffers\<close>

primrec path :: "('a \<Rightarrow> 'a) \<Rightarrow> 'a \<Rightarrow> 'a list \<Rightarrow> 'a \<Rightarrow> bool" where
  "path f x [] y = (x = y)"
| "path f x (a # as) y = (x = a \<and> path f (f a) as y)"

lemma path_append [simp]: "path f x (as @ bs) y \<longleftrightarrow> (\<exists>z. path f x as z \<and> path f z bs y)"
  by (induction as arbitrary: x) auto

lemma path_upd [simp]: "u \<notin> set as \<Longrightarrow> path (f(u := v)) x as y = path f x as y"
  by (induction as arbitrary: x) auto

text \<open>A circular list through \<open>h\<close>, removal of an element and insertion behind \<open>h\<close> or before it.\<close>

definition circ :: "('a \<Rightarrow> 'a) \<Rightarrow> 'a \<Rightarrow> 'a list \<Rightarrow> bool" where
  "circ f h xs \<longleftrightarrow> path f (f h) xs h \<and> distinct (h # xs)"

lemma circ_remove:
  assumes "circ f h (as @ b # bs)" "p = last (h # as)"
  shows "f p = b" "circ (f(p := f b)) h (as @ bs)" "f b = hd (bs @ [h])"
proof -
  have d: "distinct (h # as @ b # bs)" and pa: "path f (f h) as b" and pb: "path f (f b) bs h"
    using assms(1) by (auto simp: circ_def)
  show "f b = hd (bs @ [h])" using pb by (cases bs) auto
  show fp: "f p = b"
  proof (cases as rule: rev_cases)
    case Nil
    then show ?thesis using pa assms(2) by simp
  next
    case (snoc as' a)
    then show ?thesis using pa assms(2) by auto
  qed
  show "circ (f(p := f b)) h (as @ bs)"
  proof (cases as rule: rev_cases)
    case Nil
    then show ?thesis using d pb assms(2) by (simp add: circ_def)
  next
    case (snoc as' a)
    then show ?thesis using d pa pb assms(2) by (auto simp: circ_def)
  qed
qed

lemma circ_front:
  assumes "circ f h xs" "b \<notin> set (h # xs)"
  shows "circ (f(b := f h, h := b)) h (b # xs)"
  using assms by (auto simp: circ_def)

lemma circ_back:
  assumes "circ f h xs" "b \<notin> set (h # xs)" "l = last (h # xs)"
  shows "circ (f(b := h, l := b)) h (xs @ [b])"
proof (cases xs rule: rev_cases)
  case Nil
  then show ?thesis using assms by (auto simp: circ_def)
next
  case (snoc ys y)
  then show ?thesis using assms by (auto simp: circ_def)
qed

text \<open>The buffers in order of use, the most recent first.\<close>

definition lru_list :: "'x kdisk_scheme \<Rightarrow> nat list \<Rightarrow> bool" where
  "lru_list s xs \<longleftrightarrow> circ (\<lambda>b. b_next (bufs s b)) NBUF xs \<and> circ (\<lambda>b. b_prev (bufs s b)) NBUF (rev xs)
     \<and> set xs = {0..<NBUF}"

lemma lru_list_length: "lru_list s xs \<Longrightarrow> length xs = NBUF"
  using distinct_card [of xs] by (simp add: lru_list_def circ_def)

lemma bget_hit_path:
  assumes "path (\<lambda>b. b_next (bufs s b)) x xs NBUF" "NBUF \<notin> set xs" "length xs \<le> fuel"
  shows "bget_hit fuel dev bn x s = Inr (find (\<lambda>b. b_dev (bufs s b) = dev \<and> b_blockno (bufs s b) = bn) xs, s)"
  using assms
proof (induction xs arbitrary: x fuel)
  case Nil
  then show ?case by (cases fuel) (simp_all add: returnK_def)
next
  case (Cons b xs)
  then obtain n where "fuel = Suc n" by (cases fuel) auto
  with Cons show ?case by (auto simp: kdefs)
qed

lemma bget_lru_path:
  assumes "path (\<lambda>b. b_prev (bufs s b)) x xs NBUF" "NBUF \<notin> set xs" "length xs \<le> fuel"
  shows "bget_lru fuel x s = Inr (find (\<lambda>b. b_refcnt (bufs s b) = 0) xs, s)"
  using assms
proof (induction xs arbitrary: x fuel)
  case Nil
  then show ?case by (cases fuel) (simp_all add: returnK_def)
next
  case (Cons b xs)
  then obtain n where "fuel = Suc n" by (cases fuel) auto
  with Cons show ?case by (auto simp: kdefs)
qed

section \<open>The abstract cache\<close>

text \<open>
  On device \<open>dev\<close> block \<open>bn\<close> reads as \<open>V bn\<close>, its buffer has \<open>R bn\<close> references, and the process \<open>p\<close>
  has locked the buffers of the blocks in \<open>H\<close>. A block without references reads as it is on
  the disk, so that its buffer may be reused.
\<close>

definition medium :: "'x kdisk_scheme \<Rightarrow> u32 \<Rightarrow> bytes" where
  "medium s bn = bd_blocks (blkdev s) (unat bn)"

definition buf_is :: "'x kdisk_scheme \<Rightarrow> u32 \<Rightarrow> nat \<Rightarrow> u32 \<Rightarrow> bool" where
  "buf_is s dev b bn \<longleftrightarrow> b < NBUF \<and> b_dev (bufs s b) = dev \<and> b_blockno (bufs s b) = bn"

definition buf_ok :: "u32 \<Rightarrow> int \<Rightarrow> (u32 \<Rightarrow> bytes) \<Rightarrow> (u32 \<Rightarrow> nat) \<Rightarrow> u32 set \<Rightarrow> buf \<Rightarrow> bool" where
  "buf_ok dev pid V R H bf \<longleftrightarrow>
     (b_dev bf = dev \<longrightarrow> b_valid bf \<and> unat (b_refcnt bf) = R (b_blockno bf) \<and> unat (b_blockno bf) < 2 ^ 31
        \<and> sl_locked (b_lock bf) = (b_blockno bf \<in> H) \<and> (b_blockno bf \<in> H \<longrightarrow> sl_pid (b_lock bf) = pid)
        \<and> b_data bf = V (b_blockno bf))
     \<and> (b_dev bf \<noteq> dev \<longrightarrow> b_refcnt bf = 0 \<and> \<not> sl_locked (b_lock bf))"

definition cache :: "u32 \<Rightarrow> nat \<Rightarrow> 'x kdisk_scheme \<Rightarrow> (u32 \<Rightarrow> bytes) \<Rightarrow> (u32 \<Rightarrow> nat) \<Rightarrow> u32 set \<Rightarrow> bool" where
  "cache dev p s V R H \<longleftrightarrow> (\<exists>xs. lru_list s xs) \<and> disk_idle s \<and> current s p
     \<and> (\<forall>i j bn. buf_is s dev i bn \<and> buf_is s dev j bn \<longrightarrow> i = j)
     \<and> (\<forall>i < NBUF. buf_ok dev (p_pid (procs s p)) V R H (bufs s i))
     \<and> (\<forall>bn. 0 < R bn \<longrightarrow> (\<exists>i. buf_is s dev i bn))
     \<and> (\<forall>bn. R bn = 0 \<longrightarrow> V bn = medium s bn \<and> bn \<notin> H)"

text \<open>What an operation of the cache leaves alone: everything but the buffers and the disk, and
  which buffer a referenced block is in.\<close>

definition cache_frame :: "u32 \<Rightarrow> (u32 \<Rightarrow> nat) \<Rightarrow> 'x kdisk_scheme \<Rightarrow> 'x kdisk_scheme \<Rightarrow> bool" where
  "cache_frame dev R s t \<longleftrightarrow> disk_frame s t \<and> (\<forall>b bn. 0 < R bn \<longrightarrow> buf_is s dev b bn \<longrightarrow> buf_is t dev b bn)"

lemma find_unique: "b \<in> set xs \<Longrightarrow> P b \<Longrightarrow> \<forall>i \<in> set xs. P i \<longrightarrow> i = b \<Longrightarrow> find P xs = Some b"
proof (induction xs)
  case (Cons a xs)
  show ?case
  proof (cases "P a")
    case True
    moreover from True have "a = b" using Cons.prems(3) by (meson list.set_intros(1))
    ultimately show ?thesis by (simp only: find.simps if_True)
  next
    case False
    then have "b \<in> set xs" using Cons.prems(1,2) by (metis set_ConsD)
    then have "find P xs = Some b" using Cons.IH Cons.prems(2,3) by (meson list.set_intros(2))
    with False show ?thesis by (simp only: find.simps if_False)
  qed
qed simp

lemma lru_list_cong:
  assumes "\<And>b. b_next (bufs t b) = b_next (bufs s b)" "\<And>b. b_prev (bufs t b) = b_prev (bufs s b)"
  shows "lru_list t xs = lru_list s xs"
  unfolding lru_list_def assms ..

lemma lru_list_below: "lru_list s xs \<Longrightarrow> b \<in> set xs \<longleftrightarrow> b < NBUF"
  by (simp add: lru_list_def)

lemma cache_hit_find:
  assumes "cache dev p s V R H" "lru_list s xs"
  shows "bget_hit NBUF dev bn (b_next (bufs s NBUF)) s = Inr (find (\<lambda>b. b_dev (bufs s b) = dev \<and> b_blockno (bufs s b) = bn) xs, s)"
  by (rule bget_hit_path) (use assms(2) lru_list_length [OF assms(2)] in \<open>simp_all add: lru_list_def circ_def\<close>)

lemma cache_lru_find:
  assumes "cache dev p s V R H" "lru_list s xs"
  shows "bget_lru NBUF (b_prev (bufs s NBUF)) s = Inr (find (\<lambda>b. b_refcnt (bufs s b) = 0) (rev xs), s)"
  by (rule bget_lru_path) (use assms(2) lru_list_length [OF assms(2)] in \<open>simp_all add: lru_list_def circ_def\<close>)

text \<open>With fewer referenced blocks than buffers a buffer can be recycled.\<close>

lemma cache_unreferenced:
  assumes "cache dev p s V R H" "card {bn. 0 < R bn} < NBUF" "finite {bn. 0 < R bn}"
  shows "\<exists>b < NBUF. b_refcnt (bufs s b) = 0"
proof (rule ccontr)
  assume "\<not> ?thesis"
  then have ref: "b_refcnt (bufs s i) \<noteq> 0" if "i < NBUF" for i using that by blast
  have own: "b_dev (bufs s i) = dev \<and> 0 < R (b_blockno (bufs s i))" if "i < NBUF" for i
  proof -
    have "buf_ok dev (p_pid (procs s p)) V R H (bufs s i)" using assms(1) that by (simp add: cache_def)
    with ref [OF that] show ?thesis by (auto simp: buf_ok_def unat_gt_0 [symmetric] simp del: unat_gt_0)
  qed
  have "inj_on (\<lambda>i. b_blockno (bufs s i)) {0..<NBUF}"
    using assms(1) own unfolding cache_def buf_is_def inj_on_def by auto
  then have "card ((\<lambda>i. b_blockno (bufs s i)) ` {0..<NBUF}) = NBUF" by (simp add: card_image)
  moreover have "(\<lambda>i. b_blockno (bufs s i)) ` {0..<NBUF} \<subseteq> {bn. 0 < R bn}" using own by auto
  then have "card ((\<lambda>i. b_blockno (bufs s i)) ` {0..<NBUF}) \<le> card {bn. 0 < R bn}" by (rule card_mono [OF assms(3)])
  ultimately show False using assms(2) by linarith
qed

lemma buf_acquire_free:
  assumes "current s p" "\<not> sl_locked (b_lock (bufs s b))"
  shows "buf_acquire b s = Inr ((), s\<lparr>bufs := (bufs s)(b := (bufs s b)\<lparr>b_lock := (b_lock (bufs s b))\<lparr>sl_locked := True, sl_pid := p_pid (procs s p)\<rparr>\<rparr>)\<rparr>)"
  using assms by (simp add: buf_acquire_def bindK_def get_buf_def getK_def acquiresleep_free set_buf_def modifyK_def)

lemma current_frame: "disk_frame s t \<Longrightarrow> current t p = current s p"
  by (auto simp: disk_frame_def current_def mycpu_def)

lemma pid_frame: "disk_frame s t \<Longrightarrow> p_pid (procs t p) = p_pid (procs s p)"
proof -
  assume "disk_frame s t"
  then have "only_woken (procs s) (procs t)" by (simp add: disk_frame_def)
  then have "procs t p = procs s p \<or> procs t p = (procs s p)\<lparr>p_state := RUNNABLE\<rparr>"
    by (auto simp: only_woken_def)
  then show ?thesis by auto
qed

lemma disk_frame_bufs: "disk_frame s (s\<lparr>bufs := B\<rparr>)"
  by (rule disk_frameI [where P = "procs s" and B = B and D = "disk s" and V = "blkdev s"]) simp_all

lemma disk_idle_bufs [simp]: "disk_idle (s\<lparr>bufs := B\<rparr>) = disk_idle s"
  by (simp add: disk_idle_def)

lemma current_bufs [simp]: "current (s\<lparr>bufs := B\<rparr>) p = current s p"
  by (simp add: current_def mycpu_def)

text \<open>\<open>bget\<close> on a block whose buffer is not locked.\<close>

lemma bget_cached:
  assumes "cache dev p s V R H" "buf_is s dev b bn" "bn \<notin> H"
  shows "bget dev bn s = Inr (b, s\<lparr>bufs := (bufs s)(b := (bufs s b)\<lparr>b_refcnt := b_refcnt (bufs s b) + 1,
    b_lock := (b_lock (bufs s b))\<lparr>sl_locked := True, sl_pid := p_pid (procs s p)\<rparr>\<rparr>)\<rparr>)"
proof -
  obtain xs where xs: "lru_list s xs" using assms(1) by (auto simp: cache_def)
  have "b \<in> set xs" using assms(2) lru_list_below [OF xs] by (simp add: buf_is_def)
  moreover have "i = b" if "i \<in> set xs" "b_dev (bufs s i) = dev \<and> b_blockno (bufs s i) = bn" for i
    using assms(1,2) that lru_list_below [OF xs] by (auto simp: cache_def buf_is_def)
  ultimately have find: "find (\<lambda>b. b_dev (bufs s b) = dev \<and> b_blockno (bufs s b) = bn) xs = Some b"
    using assms(2) unfolding buf_is_def by (intro find_unique) blast+
  have "buf_ok dev (p_pid (procs s p)) V R H (bufs s b)" "current s p"
    using assms(1,2) by (auto simp: cache_def buf_is_def)
  then have lock: "\<not> sl_locked (b_lock (bufs s b))" using assms(2,3) by (auto simp: buf_ok_def buf_is_def)
  have hit: "bget_hit NBUF dev bn (b_next (bufs s NBUF)) s = Inr (Some b, s)"
    using cache_hit_find [OF assms(1) xs, of bn] by (simp add: find)
  show ?thesis
    using lock \<open>current s p\<close>
    by (simp add: bget_def bindK_def thenK_def get_buf_def getK_def hit set_buf_def modifyK_def buf_acquire_free returnK_def)
qed

lemma bget_recycled:
  assumes "cache dev p s V R H" "\<And>i. \<not> buf_is s dev i bn" "\<exists>b < NBUF. b_refcnt (bufs s b) = 0"
  shows "\<exists>b < NBUF. b_refcnt (bufs s b) = 0 \<and> bget dev bn s = Inr (b, s\<lparr>bufs := (bufs s)(b := (bufs s b)\<lparr>b_dev := dev, b_blockno := bn,
    b_valid := False, b_refcnt := 1, b_lock := (b_lock (bufs s b))\<lparr>sl_locked := True, sl_pid := p_pid (procs s p)\<rparr>\<rparr>)\<rparr>)"
proof -
  obtain xs where xs: "lru_list s xs" using assms(1) by (auto simp: cache_def)
  have "find (\<lambda>b. b_dev (bufs s b) = dev \<and> b_blockno (bufs s b) = bn) xs = None"
    using assms(2) lru_list_below [OF xs] unfolding find_None_iff buf_is_def by blast
  then have hit: "bget_hit NBUF dev bn (b_next (bufs s NBUF)) s = Inr (None, s)"
    using cache_hit_find [OF assms(1) xs, of bn] by simp
  have "find (\<lambda>b. b_refcnt (bufs s b) = 0) (rev xs) \<noteq> None"
    using assms(3) lru_list_below [OF xs] unfolding find_None_iff set_rev by blast
  then obtain b where b: "find (\<lambda>b. b_refcnt (bufs s b) = 0) (rev xs) = Some b" by blast
  then obtain i where "i < length (rev xs)" "b_refcnt (bufs s (rev xs ! i)) = 0" "b = rev xs ! i"
    unfolding find_Some_iff by blast
  moreover from this have "b \<in> set xs" by (metis nth_mem set_rev)
  ultimately have b0: "b_refcnt (bufs s b) = 0" "b < NBUF" using lru_list_below [OF xs] by simp_all
  have lru: "bget_lru NBUF (b_prev (bufs s NBUF)) s = Inr (Some b, s)"
    using cache_lru_find [OF assms(1) xs] b by simp
  have ok: "buf_ok dev (p_pid (procs s p)) V R H (bufs s b)" "current s p"
    "\<forall>bn. R bn = 0 \<longrightarrow> bn \<notin> H" using assms(1) b0(2) unfolding cache_def by blast+
  then have "\<not> sl_locked (b_lock (bufs s b))" using b0 unfolding buf_ok_def by (metis unsigned_0)
  then have "bget dev bn s = Inr (b, s\<lparr>bufs := (bufs s)(b := (bufs s b)\<lparr>b_dev := dev, b_blockno := bn,
    b_valid := False, b_refcnt := 1, b_lock := (b_lock (bufs s b))\<lparr>sl_locked := True, sl_pid := p_pid (procs s p)\<rparr>\<rparr>)\<rparr>)"
    using ok(2)
    by (simp add: bget_def bindK_def thenK_def get_buf_def getK_def hit lru set_buf_def modifyK_def buf_acquire_free returnK_def)
  with b0 show ?thesis by blast
qed

text \<open>The fields of a buffer apart from its place in the list.\<close>

definition buf_core :: "buf \<Rightarrow> bool \<times> u32 \<times> u32 \<times> sleeplock \<times> u32 \<times> bytes" where
  "buf_core bf = (b_valid bf, b_dev bf, b_blockno bf, b_lock bf, b_refcnt bf, b_data bf)"

lemma buf_ok_core: "buf_core x = buf_core y \<Longrightarrow> buf_ok dev pid V R H x = buf_ok dev pid V R H y"
  by (simp add: buf_core_def buf_ok_def)

text \<open>An operation changes one buffer \<open>b\<close>, which then is the buffer of block \<open>bn\<close>; it was that
  before, or it was unreferenced and the block was in no buffer.\<close>

lemma cache_update:
  assumes c: "cache dev p s V R H" and t: "\<exists>xs. lru_list t xs" "disk_idle t" "disk_frame s t"
    and b: "buf_is t dev b bn" "buf_ok dev (p_pid (procs s p)) V' R' H' (bufs t b)"
    and other: "\<And>i. i < NBUF \<Longrightarrow> i \<noteq> b \<Longrightarrow> buf_core (bufs t i) = buf_core (bufs s i)"
    and same: "\<And>k. k \<noteq> bn \<Longrightarrow> V' k = V k \<and> R' k = R k \<and> (k \<in> H' \<longleftrightarrow> k \<in> H) \<and> medium t k = medium s k"
    and was: "buf_is s dev b bn \<or> b_refcnt (bufs s b) = 0 \<and> (\<forall>i. \<not> buf_is s dev i bn)"
    and zero: "R' bn = 0 \<Longrightarrow> V' bn = medium t bn \<and> bn \<notin> H'"
  shows "cache dev p t V' R' H' \<and> (\<forall>i k. 0 < R k \<longrightarrow> buf_is s dev i k \<longrightarrow> buf_is t dev i k)"
proof -
  have uniq: "\<And>i j k. buf_is s dev i k \<Longrightarrow> buf_is s dev j k \<Longrightarrow> i = j"
    and oks: "\<And>i. i < NBUF \<Longrightarrow> buf_ok dev (p_pid (procs s p)) V R H (bufs s i)"
    and pos: "\<And>k. 0 < R k \<Longrightarrow> \<exists>i. buf_is s dev i k" and cur: "current s p"
    and nul: "\<And>k. R k = 0 \<Longrightarrow> V k = medium s k \<and> k \<notin> H"
    using c by (auto simp: cache_def)
  have core: "i < NBUF \<Longrightarrow> i \<noteq> b \<Longrightarrow> b_dev (bufs t i) = b_dev (bufs s i) \<and> b_blockno (bufs t i) = b_blockno (bufs s i)" for i
    using other [of i] by (simp add: buf_core_def)
  have is_t: "buf_is t dev i k = buf_is s dev i k" if "i \<noteq> b" for i k
    using core [of i] that by (auto simp: buf_is_def)
  have not_bn: "\<not> buf_is s dev i bn" if "i \<noteq> b" for i
    using was uniq that by blast
  have keep: "buf_is t dev i k" if "0 < R k" "buf_is s dev i k" for i k
  proof (cases "i = b")
    case True
    have "unat (b_refcnt (bufs s b)) = R k" using oks [of b] that(2) True by (auto simp: buf_is_def buf_ok_def)
    then have "buf_is s dev b bn" using was that(1) by auto
    then show ?thesis using b(1) that(2) True by (auto simp: buf_is_def)
  next
    case False
    then show ?thesis using is_t that by simp
  qed
  have 1: "i = j" if "buf_is t dev i k" "buf_is t dev j k" for i j k
    using that is_t not_bn uniq b(1) by (metis buf_is_def)
  have 2: "buf_ok dev (p_pid (procs s p)) V' R' H' (bufs t i)" if "i < NBUF" for i
  proof (cases "i = b")
    case False
    have "b_dev (bufs s i) = dev \<Longrightarrow> b_blockno (bufs s i) \<noteq> bn" using not_bn [OF False] that by (auto simp: buf_is_def)
    then have "buf_ok dev (p_pid (procs s p)) V' R' H' (bufs s i)"
      using oks [OF that] same unfolding buf_ok_def by auto
    then show ?thesis using buf_ok_core [OF other [OF that False]] by simp
  qed (use b(2) in simp)
  have 3: "\<exists>i. buf_is t dev i k" if "0 < R' k" for k
    using that same [of k] pos [of k] keep b(1) by (cases "k = bn") auto
  have 4: "V' k = medium t k \<and> k \<notin> H'" if "R' k = 0" for k
    using that same [of k] nul [of k] zero by (cases "k = bn") auto
  show ?thesis
    unfolding cache_def current_frame [OF t(3)] pid_frame [OF t(3)]
    using t(1,2) cur 1 2 3 4 keep by blast
qed

lemma wpK_get_buf [wp]: "wpK (get_buf b) Q = (\<lambda>s. Q (bufs s b) s)"
  by (simp add: get_buf_def wp)

lemma wpK_set_buf [wp]: "wpK (set_buf b f) Q = (\<lambda>s. Q () (s\<lparr>bufs := (bufs s)(b := f (bufs s b))\<rparr>))"
  by (simp add: set_buf_def wp)

lemma wpK_eq: "m s = Inr (x, t) \<Longrightarrow> wpK m Q s = Q x t"
  by (simp add: wpK_def)

lemma medium_bufs [simp]: "medium (s\<lparr>bufs := B\<rparr>) = medium s"
  by (simp add: medium_def fun_eq_iff)

lemma cache_facts:
  assumes "cache dev p s V R H"
  shows "disk_idle s" "current s p" "\<exists>xs. lru_list s xs"
    and "i < NBUF \<Longrightarrow> buf_ok dev (p_pid (procs s p)) V R H (bufs s i)"
    and "0 < R k \<Longrightarrow> \<exists>i. buf_is s dev i k" "R k = 0 \<Longrightarrow> V k = medium s k" "R k = 0 \<Longrightarrow> k \<notin> H"
  using assms unfolding cache_def by blast+

lemma bread_cached:
  assumes "cache dev p s V R H" "buf_is s dev b bn" "bn \<notin> H" "Suc (R bn) < 2 ^ 32"
  shows "wpK (bread dev bn) (\<lambda>b t. buf_is t dev b bn \<and> cache dev p t V (R(bn := Suc (R bn))) (insert bn H)
    \<and> cache_frame dev R s t \<and> medium t = medium s \<and> bd_history (blkdev t) = bd_history (blkdev s)) s"
proof -
  have ok: "buf_ok dev (p_pid (procs s p)) V R H (bufs s b)" using cache_facts(4) [OF assms(1)] assms(2) by (simp add: buf_is_def)
  then have b: "b_valid (bufs s b)" "unat (b_refcnt (bufs s b)) = R bn" "b_data (bufs s b) = V bn" "unat bn < 2 ^ 31"
    using assms(2) by (auto simp: buf_ok_def buf_is_def)
  have ref: "unat (b_refcnt (bufs s b) + 1) = Suc (R bn)"
    using assms(4) b(2) by (simp add: unat_word_ariths)
  define t where "t = s\<lparr>bufs := (bufs s)(b := (bufs s b)\<lparr>b_refcnt := b_refcnt (bufs s b) + 1,
    b_lock := (b_lock (bufs s b))\<lparr>sl_locked := True, sl_pid := p_pid (procs s p)\<rparr>\<rparr>)\<rparr>"
  have run: "bget dev bn s = Inr (b, t)" unfolding t_def by (rule bget_cached [OF assms(1-3)])
  have is_t: "buf_is t dev b bn" using assms(2) by (simp add: t_def buf_is_def)
  have "cache dev p t V (R(bn := Suc (R bn))) (insert bn H) \<and> (\<forall>i k. 0 < R k \<longrightarrow> buf_is s dev i k \<longrightarrow> buf_is t dev i k)"
  proof (rule cache_update [OF assms(1), where b = b and bn = bn])
    show "\<exists>xs. lru_list t xs" using cache_facts(3) [OF assms(1)] lru_list_cong [of t s] by (simp add: t_def)
    show "disk_idle t" using cache_facts(1) [OF assms(1)] by (simp add: t_def)
    show "disk_frame s t" unfolding t_def by (rule disk_frame_bufs)
    show "buf_ok dev (p_pid (procs s p)) V (R(bn := Suc (R bn))) (insert bn H) (bufs t b)"
      using b assms(2) ref by (simp add: t_def buf_ok_def buf_is_def)
  qed (use is_t assms(2) in \<open>simp_all add: t_def buf_core_def\<close>)
  moreover have "disk_frame s t" unfolding t_def by (rule disk_frame_bufs)
  moreover have "b_valid (bufs t b)" using b(1) by (simp add: t_def)
  moreover have "medium t = medium s" "bd_history (blkdev t) = bd_history (blkdev s)" by (simp_all add: t_def)
  ultimately show ?thesis using is_t
    by (simp add: bread_def wp wpK_eq [of "bget dev bn" s b t, OF run] cache_frame_def)
qed

lemma bread_missed:
  assumes "cache dev p s V R H" "\<And>i. \<not> buf_is s dev i bn" "unat bn < 2 ^ 31" "card {k. 0 < R k} < NBUF" "finite {k. 0 < R k}"
  shows "wpK (bread dev bn) (\<lambda>b t. buf_is t dev b bn \<and> cache dev p t V (R(bn := Suc (R bn))) (insert bn H)
    \<and> cache_frame dev R s t \<and> medium t = medium s \<and> bd_history (blkdev t) = bd_history (blkdev s)) s"
proof -
  have R0: "R bn = 0" "V bn = medium s bn" using cache_facts(5,6) [OF assms(1), of bn] assms(2) by auto
  obtain b where b: "b < NBUF" "b_refcnt (bufs s b) = 0" and run: "bget dev bn s = Inr (b, s\<lparr>bufs := (bufs s)(b := (bufs s b)\<lparr>b_dev := dev, b_blockno := bn,
    b_valid := False, b_refcnt := 1, b_lock := (b_lock (bufs s b))\<lparr>sl_locked := True, sl_pid := p_pid (procs s p)\<rparr>\<rparr>)\<rparr>)" (is "_ = Inr (b, ?u)")
    using bget_recycled [OF assms(1,2) cache_unreferenced [OF assms(1,4,5)]] by blast
  define u where "u = ?u"
  have u: "disk_idle u" "unat (b_blockno (bufs u b)) < 2 ^ 31" "\<not> b_valid (bufs u b)"
    using cache_facts(1) [OF assms(1)] assms(3) by (simp_all add: u_def)
  have su: "disk_frame s u" unfolding u_def by (rule disk_frame_bufs)
  have "wpK (virtio_disk_rw b False) (\<lambda>_ v. let t = v\<lparr>bufs := (bufs v)(b := (bufs v b)\<lparr>b_valid := True\<rparr>)\<rparr> in
    buf_is t dev b bn \<and> cache dev p t V (R(bn := Suc (R bn))) (insert bn H)
    \<and> cache_frame dev R s t \<and> medium t = medium s \<and> bd_history (blkdev t) = bd_history (blkdev s)) u"
  proof (rule wpK_mono [OF virtio_disk_rw_wp [OF u(1,2)]], elim conjE)
    fix x v
    assume v: "disk_idle v" "disk_frame u v"
      "bufs v = (bufs u)(b := (bufs u b)\<lparr>b_disk := False, b_data := if False then b_data (bufs u b) else bd_blocks (blkdev u) (unat (b_blockno (bufs u b)))\<rparr>)"
      "bd_blocks (blkdev v) = (if False then (bd_blocks (blkdev u))(unat (b_blockno (bufs u b)) := b_data (bufs u b)) else bd_blocks (blkdev u))"
      "bd_history (blkdev v) = bd_history (blkdev u) @ (if False then [(unat (b_blockno (bufs u b)), b_data (bufs u b))] else [])"
    define t where "t = v\<lparr>bufs := (bufs v)(b := (bufs v b)\<lparr>b_valid := True\<rparr>)\<rparr>"
    have med: "medium t = medium s" "bd_history (blkdev t) = bd_history (blkdev s)"
      using v(4,5) by (simp_all add: t_def u_def medium_def fun_eq_iff)
    have fr: "disk_frame s t" unfolding t_def using disk_frame_trans [OF disk_frame_trans [OF su v(2)] disk_frame_bufs] .
    have bt: "bufs t = (bufs s)(b := (bufs s b)\<lparr>b_dev := dev, b_blockno := bn, b_valid := True, b_refcnt := 1,
      b_lock := (b_lock (bufs s b))\<lparr>sl_locked := True, sl_pid := p_pid (procs s p)\<rparr>, b_disk := False, b_data := medium s bn\<rparr>)"
      by (simp add: t_def v(3) u_def medium_def fun_eq_iff)
    have is_t: "buf_is t dev b bn" using b(1) by (simp add: bt buf_is_def)
    have "cache dev p t V (R(bn := Suc (R bn))) (insert bn H) \<and> (\<forall>i k. 0 < R k \<longrightarrow> buf_is s dev i k \<longrightarrow> buf_is t dev i k)"
    proof (rule cache_update [OF assms(1), where b = b and bn = bn])
      show "\<exists>xs. lru_list t xs" using cache_facts(3) [OF assms(1)] lru_list_cong [of t s] by (simp add: bt)
      show "disk_idle t" using v(1) by (simp add: t_def)
      show "buf_ok dev (p_pid (procs s p)) V (R(bn := Suc (R bn))) (insert bn H) (bufs t b)"
        using assms(3) R0 by (simp add: bt buf_ok_def)
    qed (use is_t b assms(2) fr med in \<open>simp_all add: bt buf_core_def\<close>)
    with fr med is_t show "let t = v\<lparr>bufs := (bufs v)(b := (bufs v b)\<lparr>b_valid := True\<rparr>)\<rparr> in
      buf_is t dev b bn \<and> cache dev p t V (R(bn := Suc (R bn))) (insert bn H)
      \<and> cache_frame dev R s t \<and> medium t = medium s \<and> bd_history (blkdev t) = bd_history (blkdev s)"
      unfolding Let_def t_def [symmetric] by (simp add: cache_frame_def)
  qed
  then show ?thesis
    using u(3) by (simp add: bread_def wp wpK_eq [of "bget dev bn" s b u, OF run [folded u_def]] Let_def)
qed

lemma bread_wp:
  assumes "cache dev p s V R H" "bn \<notin> H" "unat bn < 2 ^ 31" "Suc (R bn) < 2 ^ 32"
    and "0 < R bn \<or> card {k. 0 < R k} < NBUF \<and> finite {k. 0 < R k}"
  shows "wpK (bread dev bn) (\<lambda>b t. buf_is t dev b bn \<and> cache dev p t V (R(bn := Suc (R bn))) (insert bn H)
    \<and> cache_frame dev R s t \<and> medium t = medium s \<and> bd_history (blkdev t) = bd_history (blkdev s)) s"
proof (cases "\<exists>b. buf_is s dev b bn")
  case True
  then show ?thesis using bread_cached [OF assms(1) _ assms(2,4)] by blast
next
  case False
  then have "R bn = 0" using cache_facts(5) [OF assms(1)] by blast
  then have "card {k. 0 < R k} < NBUF" "finite {k. 0 < R k}" using assms(5) by auto
  from bread_missed [OF assms(1) _ assms(3) this] False show ?thesis by blast
qed

lemma bwrite_wp:
  assumes "cache dev p s V R H" "buf_is s dev b bn" "bn \<in> H"
  shows "wpK (bwrite b) (\<lambda>_ t. cache dev p t V R H \<and> cache_frame dev R s t \<and> medium t = (medium s)(bn := V bn)
    \<and> bd_history (blkdev t) = bd_history (blkdev s) @ [(unat bn, V bn)]) s"
proof -
  have ok: "buf_ok dev (p_pid (procs s p)) V R H (bufs s b)" using cache_facts(4) [OF assms(1)] assms(2) by (simp add: buf_is_def)
  have b: "b_blockno (bufs s b) = bn" "b_data (bufs s b) = V bn" "unat bn < 2 ^ 31" "sl_locked (b_lock (bufs s b))"
    "sl_pid (b_lock (bufs s b)) = p_pid (procs s p)"
    using ok assms(2,3) by (auto simp: buf_ok_def buf_is_def)
  have hold: "holdingsleep (b_lock (bufs s b)) s = Inr (True, s)"
    using holdingsleep_eq [OF cache_facts(2) [OF assms(1)]] b(4,5) by simp
  have "R bn \<noteq> 0" using cache_facts(7) [OF assms(1)] assms(3) by blast
  have "wpK (virtio_disk_rw b True) (\<lambda>_ t. cache dev p t V R H \<and> cache_frame dev R s t \<and> medium t = (medium s)(bn := V bn)
    \<and> bd_history (blkdev t) = bd_history (blkdev s) @ [(unat bn, V bn)]) s"
  proof (rule wpK_mono [OF virtio_disk_rw_wp [OF cache_facts(1) [OF assms(1)], of b True]], simp add: b(1) b(3) [simplified], elim conjE)
    fix x t
    assume t: "disk_idle t" "disk_frame s t"
      "bufs t = (bufs s)(b := (bufs s b)\<lparr>b_disk := False, b_data := if True then b_data (bufs s b) else bd_blocks (blkdev s) (unat (b_blockno (bufs s b)))\<rparr>)"
      "bd_blocks (blkdev t) = (if True then (bd_blocks (blkdev s))(unat (b_blockno (bufs s b)) := b_data (bufs s b)) else bd_blocks (blkdev s))"
      "bd_history (blkdev t) = bd_history (blkdev s) @ (if True then [(unat (b_blockno (bufs s b)), b_data (bufs s b))] else [])"
    have med: "medium t = (medium s)(bn := V bn)"
      using t(4) b(1,2) by (simp add: medium_def fun_eq_iff word_unat_eq_iff)
    have bt: "bufs t = (bufs s)(b := (bufs s b)\<lparr>b_disk := False\<rparr>)"
      using t(3) by (simp add: fun_eq_iff)
    have is_t: "buf_is t dev b bn" using assms(2) by (simp add: bt buf_is_def)
    have "cache dev p t V R H \<and> (\<forall>i k. 0 < R k \<longrightarrow> buf_is s dev i k \<longrightarrow> buf_is t dev i k)"
    proof (rule cache_update [OF assms(1), where b = b and bn = bn])
      show "\<exists>xs. lru_list t xs" using cache_facts(3) [OF assms(1)] lru_list_cong [of t s] by (simp add: bt)
      show "buf_ok dev (p_pid (procs s p)) V R H (bufs t b)" using ok by (simp add: bt buf_ok_def)
    qed (use is_t assms(2) t(1,2) med \<open>R bn \<noteq> 0\<close> in \<open>simp_all add: bt buf_core_def\<close>)
    then show "cache dev p t V R H \<and> cache_frame dev R s t \<and> medium t = (medium s)(bn := V bn)
      \<and> bd_history (blkdev t) = bd_history (blkdev s) @ [(unat bn, V bn)]"
      using t(2,5) med b(1,2) by (simp add: cache_frame_def)
  qed
  then show ?thesis
    by (simp add: bwrite_def wp wpK_eq [of "holdingsleep (b_lock (bufs s b))" s True s, OF hold])
qed

text \<open>Storing into the data of a buffer the process holds.\<close>

lemma buf_store_wp:
  assumes "cache dev p s V R H" "buf_is s dev b bn" "0 < R bn"
  shows "wpK (set_buf b (\<lambda>bf. bf\<lparr>b_data := d\<rparr>)) (\<lambda>_ t. cache dev p t (V(bn := d)) R H \<and> cache_frame dev R s t
    \<and> medium t = medium s \<and> bd_history (blkdev t) = bd_history (blkdev s)) s"
proof -
  define t where "t = s\<lparr>bufs := (bufs s)(b := (bufs s b)\<lparr>b_data := d\<rparr>)\<rparr>"
  have ok: "buf_ok dev (p_pid (procs s p)) V R H (bufs s b)" using cache_facts(4) [OF assms(1)] assms(2) by (simp add: buf_is_def)
  have "cache dev p t (V(bn := d)) R H \<and> (\<forall>i k. 0 < R k \<longrightarrow> buf_is s dev i k \<longrightarrow> buf_is t dev i k)"
  proof (rule cache_update [OF assms(1), where b = b and bn = bn])
    show "\<exists>xs. lru_list t xs" using cache_facts(3) [OF assms(1)] lru_list_cong [of t s] by (simp add: t_def)
    show "disk_frame s t" unfolding t_def by (rule disk_frame_bufs)
    show "buf_ok dev (p_pid (procs s p)) (V(bn := d)) R H (bufs t b)" using ok assms(2) by (simp add: t_def buf_ok_def buf_is_def)
  qed (use assms cache_facts(1) [OF assms(1)] in \<open>simp_all add: t_def buf_core_def buf_is_def\<close>)
  then show ?thesis
    unfolding wp t_def [symmetric] cache_frame_def by (simp add: t_def disk_frame_bufs)
qed

text \<open>Changing the reference count alone.\<close>

lemma buf_refcnt_wp:
  assumes "cache dev p s V R H" "buf_is s dev b bn" "unat (f (b_refcnt (bufs s b))) = r" "r = 0 \<Longrightarrow> V bn = medium s bn \<and> bn \<notin> H"
  shows "wpK (set_buf b (\<lambda>bf. bf\<lparr>b_refcnt := f (b_refcnt bf)\<rparr>)) (\<lambda>_ t. cache dev p t V (R(bn := r)) H \<and> cache_frame dev R s t
    \<and> medium t = medium s \<and> bd_history (blkdev t) = bd_history (blkdev s)) s"
proof -
  define t where "t = s\<lparr>bufs := (bufs s)(b := (bufs s b)\<lparr>b_refcnt := f (b_refcnt (bufs s b))\<rparr>)\<rparr>"
  have ok: "buf_ok dev (p_pid (procs s p)) V R H (bufs s b)" using cache_facts(4) [OF assms(1)] assms(2) by (simp add: buf_is_def)
  have "cache dev p t V (R(bn := r)) H \<and> (\<forall>i k. 0 < R k \<longrightarrow> buf_is s dev i k \<longrightarrow> buf_is t dev i k)"
  proof (rule cache_update [OF assms(1), where b = b and bn = bn])
    show "\<exists>xs. lru_list t xs" using cache_facts(3) [OF assms(1)] lru_list_cong [of t s] by (simp add: t_def)
    show "disk_frame s t" unfolding t_def by (rule disk_frame_bufs)
    show "buf_ok dev (p_pid (procs s p)) V (R(bn := r)) H (bufs t b)" using ok assms(2,3) by (simp add: t_def buf_ok_def buf_is_def)
  qed (use assms(2,4) cache_facts(1) [OF assms(1)] in \<open>simp_all add: t_def buf_core_def buf_is_def\<close>)
  then show ?thesis
    unfolding wp t_def [symmetric] cache_frame_def by (simp add: t_def disk_frame_bufs)
qed

lemma refcnt_of:
  assumes "cache dev p s V R H" "buf_is s dev b bn"
  shows "unat (b_refcnt (bufs s b)) = R bn"
  using cache_facts(4) [OF assms(1), of b] assms(2) by (auto simp: buf_is_def buf_ok_def)

lemma bpin_wp:
  assumes "cache dev p s V R H" "buf_is s dev b bn" "Suc (R bn) < 2 ^ 32"
  shows "wpK (bpin b) (\<lambda>_ t. cache dev p t V (R(bn := Suc (R bn))) H \<and> cache_frame dev R s t
    \<and> medium t = medium s \<and> bd_history (blkdev t) = bd_history (blkdev s)) s"
  unfolding bpin_def using refcnt_of [OF assms(1,2)] assms(3)
  by (intro buf_refcnt_wp [OF assms(1,2)]) (simp_all add: unat_word_ariths)

lemma unat_minus_1: "0 < n \<Longrightarrow> unat (x :: u32) = n \<Longrightarrow> unat (x - 1) = n - 1"
  using unat_minus_one [of x] by (auto simp: unat_gt_0)

lemma bunpin_wp:
  assumes "cache dev p s V R H" "buf_is s dev b bn" "1 < R bn"
  shows "wpK (bunpin b) (\<lambda>_ t. cache dev p t V (R(bn := R bn - 1)) H \<and> cache_frame dev R s t
    \<and> medium t = medium s \<and> bd_history (blkdev t) = bd_history (blkdev s)) s"
  unfolding bunpin_def using unat_minus_1 [OF _ refcnt_of [OF assms(1,2)]] assms(3)
  by (intro buf_refcnt_wp [OF assms(1,2)]) simp_all

section \<open>Releasing a buffer\<close>

text \<open>The pointer assignments of \<open>brelse\<close> move the buffer to the front of the list.\<close>

lemma circ_move_front:
  assumes n: "circ n h xs" and q: "circ q h (rev xs)" and b: "b \<in> set xs"
  defines "n' \<equiv> n(q b := n b)" and "q' \<equiv> q(n b := q b)"
  shows "circ (n'(b := n' h, h := b)) h (b # remove1 b xs)" "circ (q'(b := h, n' h := b)) h (rev (b # remove1 b xs))"
proof -
  obtain as bs where xs: "xs = as @ b # bs" and na: "b \<notin> set as" using b by (meson split_list_first)
  have rev: "rev xs = rev bs @ b # rev as" and rem: "remove1 b xs = as @ bs"
    using xs na by (simp_all add: remove1_append)
  have d: "distinct (h # as @ b # bs)" using n by (simp add: circ_def xs)
  have nb: "n b = last (h # rev bs)" using circ_remove(3) [OF n [unfolded xs] refl] by (cases bs) auto
  have qb: "q b = last (h # as)" using circ_remove(3) [OF q [unfolded rev] refl] by (cases as rule: rev_cases) auto
  have n': "circ n' h (as @ bs)" unfolding n'_def using circ_remove(2) [OF n [unfolded xs] qb] .
  have q': "circ q' h (rev bs @ rev as)" unfolding q'_def using circ_remove(2) [OF q [unfolded rev] nb] .
  have out: "b \<notin> set (h # as @ bs)" using d by auto
  show "circ (n'(b := n' h, h := b)) h (b # remove1 b xs)"
    unfolding rem using circ_front [OF n' out] .
  have "n' h = last (h # rev bs @ rev as)"
    using n' by (cases "as @ bs") (auto simp: circ_def last_rev hd_append rev_append [symmetric] simp del: rev_append)
  then show "circ (q'(b := h, n' h := b)) h (rev (b # remove1 b xs))"
    unfolding rem using circ_back [OF q', of b "n' h"] out by simp
qed

text \<open>The state after \<open>brelse\<close> has found the last reference gone.\<close>

definition moved_front :: "nat \<Rightarrow> 'x kdisk_scheme \<Rightarrow> 'x kdisk_scheme \<Rightarrow> bool" where
  "moved_front b s t \<longleftrightarrow> (\<exists>B. t = s\<lparr>bufs := B\<rparr>) \<and> (\<forall>i. buf_core (bufs t i) = buf_core (bufs s i))
     \<and> (\<forall>xs. lru_list s xs \<longrightarrow> lru_list t (b # remove1 b xs))"

lemma move_front_wp:
  assumes "b < NBUF"
  shows "wpK (buf_to_front b) (\<lambda>_ t. moved_front b s t) s"
proof -
  define n where "n = (\<lambda>i. b_next (bufs s i))"
  define q where "q = (\<lambda>i. b_prev (bufs s i))"
  define n' where "n' = n(q b := n b)"
  define q' where "q' = q(n b := q b)"
  define B1 where "B1 = (bufs s)(n b := (bufs s (n b))\<lparr>b_prev := q b\<rparr>)"
  define B2 where "B2 = B1(q b := (B1 (q b))\<lparr>b_next := n b\<rparr>)"
  define B3 where "B3 = B2(b := (B2 b)\<lparr>b_next := n' NBUF\<rparr>)"
  define B4 where "B4 = B3(b := (B3 b)\<lparr>b_prev := NBUF\<rparr>)"
  define B5 where "B5 = B4(n' NBUF := (B4 (n' NBUF))\<lparr>b_prev := b\<rparr>)"
  define B6 where "B6 = B5(NBUF := (B5 NBUF)\<lparr>b_next := b\<rparr>)"
  have h: "b_next (B2 NBUF) = n' NBUF" by (simp add: B2_def B1_def n'_def n_def)
  have next6: "(\<lambda>i. b_next (B6 i)) = n'(b := n' NBUF, NBUF := b)"
    by (rule ext) (simp add: B6_def B5_def B4_def B3_def B2_def B1_def n'_def n_def)
  have "(\<lambda>i. b_prev (B3 i)) = q'"
    by (rule ext) (simp add: B3_def B2_def B1_def q'_def q_def)
  then have "(\<lambda>i. b_prev (B4 i)) = q'(b := NBUF)"
    by (simp add: B4_def fun_eq_iff)
  then have prev6: "(\<lambda>i. b_prev (B6 i)) = q'(b := NBUF, n' NBUF := b)"
    by (simp add: B6_def B5_def fun_eq_iff)
  have core6: "buf_core (B6 i) = buf_core (bufs s i)" for i
    by (simp add: B6_def B5_def B4_def B3_def B2_def B1_def buf_core_def)
  have "moved_front b s (s\<lparr>bufs := B6\<rparr>)"
    unfolding moved_front_def
  proof (intro conjI allI impI)
    fix xs
    assume xs: "lru_list s xs"
    then have "b \<in> set xs" using assms lru_list_below by blast
    moreover have c: "circ n NBUF xs" "circ q NBUF (rev xs)" "set xs = {0..<NBUF}"
      using xs by (simp_all only: lru_list_def n_def q_def)
    ultimately have "set (b # remove1 b xs) = {0..<NBUF}" by (auto simp: circ_def)
    moreover note circ_move_front [OF c(1,2) \<open>b \<in> set xs\<close>, folded n'_def q'_def]
    moreover have "bufs (s\<lparr>bufs := B6\<rparr>) = B6" by simp
    ultimately show "lru_list (s\<lparr>bufs := B6\<rparr>) (b # remove1 b xs)"
      by (simp only: lru_list_def next6 prev6)
  qed (auto simp: core6)
  then show ?thesis
    unfolding buf_to_front_def wp B6_def B5_def B4_def B3_def h [symmetric] B2_def B1_def n_def q_def by simp
qed

lemma disk_frame_wake: "disk_frame s (wake ch s)"
  by (rule disk_frameI [where P = "procs (wake ch s)" and B = "bufs s" and D = "disk s" and V = "blkdev s"])
    (simp_all add: only_woken_wake, simp add: wake_def)

lemma medium_wake [simp]: "medium (wake ch s) = medium s"
  by (simp add: medium_def fun_eq_iff)

lemma brelse_wp:
  assumes "cache dev p s V R H" "buf_is s dev b bn" "bn \<in> H" "R bn = 1 \<Longrightarrow> V bn = medium s bn"
  shows "wpK (brelse b) (\<lambda>_ t. cache dev p t V (R(bn := R bn - 1)) (H - {bn}) \<and> cache_frame dev R s t
    \<and> medium t = medium s \<and> bd_history (blkdev t) = bd_history (blkdev s)) s"
proof -
  have ok: "buf_ok dev (p_pid (procs s p)) V R H (bufs s b)" using cache_facts(4) [OF assms(1)] assms(2) by (simp add: buf_is_def)
  have b: "b < NBUF" "b_dev (bufs s b) = dev" "b_blockno (bufs s b) = bn" "unat (b_refcnt (bufs s b)) = R bn"
    "sl_locked (b_lock (bufs s b))" "sl_pid (b_lock (bufs s b)) = p_pid (procs s p)"
    using ok assms(2,3) by (auto simp: buf_ok_def buf_is_def)
  have "R bn \<noteq> 0" using cache_facts(7) [OF assms(1)] assms(3) by blast
  then have ref: "unat (b_refcnt (bufs s b) - 1) = R bn - 1" using unat_minus_1 [OF _ b(4)] by simp
  have hold: "holdingsleep (b_lock (bufs s b)) s = Inr (True, s)"
    using holdingsleep_eq [OF cache_facts(2) [OF assms(1)]] b(5,6) by simp
  define lk where "lk = (b_lock (bufs s b))\<lparr>sl_locked := False, sl_pid := 0\<rparr>"
  define u where "u = (wake (ChanBuf b) s)\<lparr>bufs := (bufs s)(b := (bufs s b)\<lparr>b_lock := lk, b_refcnt := b_refcnt (bufs s b) - 1\<rparr>)\<rparr>"
  have u: "disk_frame s u" "disk_idle u" "medium u = medium s" "bd_history (blkdev u) = bd_history (blkdev s)"
    unfolding u_def using disk_frame_trans [OF disk_frame_wake disk_frame_bufs] cache_facts(1) [OF assms(1)]
    by (simp_all add: disk_idle_def)
  have bu: "bufs u = (bufs s)(b := (bufs s b)\<lparr>b_lock := lk, b_refcnt := b_refcnt (bufs s b) - 1\<rparr>)" by (simp add: u_def)
  have upd: "cache dev p t V (R(bn := R bn - 1)) (H - {bn}) \<and> cache_frame dev R s t
    \<and> medium t = medium s \<and> bd_history (blkdev t) = bd_history (blkdev s)"
    if t: "disk_frame u t" "disk_idle t" "medium t = medium u" "bd_history (blkdev t) = bd_history (blkdev u)"
      "\<And>i. buf_core (bufs t i) = buf_core (bufs u i)" "\<exists>xs. lru_list t xs" for t
  proof -
    have fr: "disk_frame s t" by (rule disk_frame_trans [OF u(1) t(1)])
    have core: "buf_core (bufs t i) = buf_core (bufs s i)" if "i \<noteq> b" for i
      using t(5) [of i] that by (simp add: bu)
    have "b_dev (bufs t b) = dev" "b_blockno (bufs t b) = bn"
      using t(5) [of b] b(2,3) by (simp_all add: bu buf_core_def)
    then have is_t: "buf_is t dev b bn" using b(1) by (simp add: buf_is_def)
    have "buf_ok dev (p_pid (procs s p)) V (R(bn := R bn - 1)) (H - {bn}) (bufs u b)"
      using ok ref b by (simp add: bu buf_ok_def lk_def)
    then have ok_t: "buf_ok dev (p_pid (procs s p)) V (R(bn := R bn - 1)) (H - {bn}) (bufs t b)"
      using buf_ok_core [OF t(5) [of b]] by simp
    have "cache dev p t V (R(bn := R bn - 1)) (H - {bn}) \<and> (\<forall>i k. 0 < R k \<longrightarrow> buf_is s dev i k \<longrightarrow> buf_is t dev i k)"
      using assms(1) t(6,2) fr is_t ok_t
    proof (rule cache_update)
      show "buf_is s dev b bn \<or> b_refcnt (bufs s b) = 0 \<and> (\<forall>i. \<not> buf_is s dev i bn)" using assms(2) by simp
      assume "(R(bn := R bn - 1)) bn = 0"
      then have "R bn = 1" using \<open>R bn \<noteq> 0\<close> by simp
      then show "V bn = medium t bn \<and> bn \<notin> H - {bn}" using assms(4) t(3) u(3) by simp
    qed (use core t(3) u(3) in simp_all)
    then show ?thesis using fr t(3,4) u(3,4) by (simp add: cache_frame_def)
  qed
  have lru_u: "\<exists>xs. lru_list u xs" using cache_facts(3) [OF assms(1)] lru_list_cong [of u s] by (simp add: bu)
  have "brelse b s = (if b_refcnt (bufs u b) = 0 then buf_to_front b u else Inr ((), u))"
    by (simp add: brelse_def thenK_def bindK_def get_buf_def getK_def hold releasesleep_eq lk_def [symmetric] set_buf_def modifyK_def
        returnK_def u_def)
  moreover have "wpK (buf_to_front b) (\<lambda>_ t. cache dev p t V (R(bn := R bn - 1)) (H - {bn}) \<and> cache_frame dev R s t
    \<and> medium t = medium s \<and> bd_history (blkdev t) = bd_history (blkdev s)) u"
  proof (rule wpK_mono [OF move_front_wp [OF b(1)]])
    fix x t
    assume t: "moved_front b u t"
    then obtain B where "t = u\<lparr>bufs := B\<rparr>" by (auto simp: moved_front_def)
    with t u(2) lru_u show "cache dev p t V (R(bn := R bn - 1)) (H - {bn}) \<and> cache_frame dev R s t
      \<and> medium t = medium s \<and> bd_history (blkdev t) = bd_history (blkdev s)"
      by (intro upd) (auto simp: moved_front_def disk_frame_bufs)
  qed
  moreover have "cache dev p u V (R(bn := R bn - 1)) (H - {bn}) \<and> cache_frame dev R s u
    \<and> medium u = medium s \<and> bd_history (blkdev u) = bd_history (blkdev s)"
    using u(2) lru_u by (intro upd) simp_all
  ultimately show ?thesis unfolding wpK_def by (cases "b_refcnt (bufs u b) = 0") simp_all
qed

section \<open>Initialisation\<close>

lemma binit_wp:
  assumes "disk_idle s" "current s p" "\<And>i. i < NBUF \<Longrightarrow> b_dev (bufs s i) \<noteq> dev \<and> b_refcnt (bufs s i) = 0"
  shows "wpK binit (\<lambda>_ t. cache dev p t (medium t) (\<lambda>_. 0) {} \<and> disk_frame s t \<and> medium t = medium s
    \<and> bd_history (blkdev t) = bd_history (blkdev s)) s"
proof -
  define I where "I k t \<longleftrightarrow> (\<exists>B. t = s\<lparr>bufs := B\<rparr>) \<and> circ (\<lambda>b. b_next (bufs t b)) NBUF (rev [0..<k])
     \<and> circ (\<lambda>b. b_prev (bufs t b)) NBUF [0..<k]
     \<and> (\<forall>i < NBUF. b_dev (bufs t i) = b_dev (bufs s i) \<and> b_refcnt (bufs t i) = b_refcnt (bufs s i)
         \<and> (i < k \<longrightarrow> b_lock (bufs t i) = initsleeplock ''buffer''))" for k t
  have I0: "I 0 (s\<lparr>bufs := (bufs s)(NBUF := (bufs s NBUF)\<lparr>b_prev := NBUF, b_next := NBUF\<rparr>)\<rparr>)"
    by (auto simp: I_def circ_def)
  have step: "wpK (bindK (get_buf NBUF) (\<lambda>h. thenK (set_buf b (\<lambda>bf. bf\<lparr>b_next := b_next h, b_prev := NBUF, b_lock := initsleeplock ''buffer''\<rparr>))
      (thenK (set_buf (b_next h) (\<lambda>n. n\<lparr>b_prev := b\<rparr>)) (set_buf NBUF (\<lambda>h. h\<lparr>b_next := b\<rparr>))))) (\<lambda>_. I (Suc b)) t"
    if t: "I b t" "b < NBUF" for b t
  proof -
    define n where "n = (\<lambda>i. b_next (bufs t i))"
    define q where "q = (\<lambda>i. b_prev (bufs t i))"
    have c: "circ n NBUF (rev [0..<b])" "circ q NBUF [0..<b]" using t(1) by (simp_all add: I_def n_def q_def)
    define B1 where "B1 = (bufs t)(b := (bufs t b)\<lparr>b_next := n NBUF, b_prev := NBUF, b_lock := initsleeplock ''buffer''\<rparr>)"
    define B2 where "B2 = B1(n NBUF := (B1 (n NBUF))\<lparr>b_prev := b\<rparr>)"
    define B3 where "B3 = B2(NBUF := (B2 NBUF)\<lparr>b_next := b\<rparr>)"
    have "(\<lambda>i. b_next (B3 i)) = n(b := n NBUF, NBUF := b)"
      using t(2) by (simp add: B3_def B2_def B1_def n_def fun_eq_iff)
    moreover have "(\<lambda>i. b_prev (B2 i)) = q(b := NBUF, n NBUF := b)"
      by (simp add: B2_def B1_def q_def fun_eq_iff)
    then have "(\<lambda>i. b_prev (B3 i)) = q(b := NBUF, n NBUF := b)"
      by (simp add: B3_def fun_eq_iff)
    moreover have out: "b \<notin> set (NBUF # rev [0..<b])" using t(2) by simp
    moreover have "n NBUF = last (NBUF # [0..<b])"
      using c(1) by (cases b) (auto simp: circ_def)
    ultimately have "circ (\<lambda>i. b_next (B3 i)) NBUF (rev [0..<Suc b])" "circ (\<lambda>i. b_prev (B3 i)) NBUF [0..<Suc b]"
      using circ_front [OF c(1) out] circ_back [OF c(2), of b "n NBUF"] by simp_all
    moreover have "b_dev (B3 i) = b_dev (bufs t i)" "b_refcnt (B3 i) = b_refcnt (bufs t i)"
      "b_lock (B3 i) = (if i = b then initsleeplock ''buffer'' else b_lock (bufs t i))" for i
      by (simp_all add: B3_def B2_def B1_def)
    ultimately have "I (Suc b) (t\<lparr>bufs := B3\<rparr>)" using t(1) by (auto simp: I_def less_Suc_eq)
    then show ?thesis
      unfolding wp B3_def B2_def B1_def n_def by simp
  qed
  have "wpK (forK [0..<NBUF] (\<lambda>b. bindK (get_buf NBUF) (\<lambda>h. thenK (set_buf b (\<lambda>bf. bf\<lparr>b_next := b_next h, b_prev := NBUF, b_lock := initsleeplock ''buffer''\<rparr>))
      (thenK (set_buf (b_next h) (\<lambda>n. n\<lparr>b_prev := b\<rparr>)) (set_buf NBUF (\<lambda>h. h\<lparr>b_next := b\<rparr>))))))
    (\<lambda>_. I NBUF) (s\<lparr>bufs := (bufs s)(NBUF := (bufs s NBUF)\<lparr>b_prev := NBUF, b_next := NBUF\<rparr>)\<rparr>)"
    by (rule wpK_forK [of I]) (use I0 step in simp_all)
  then have "wpK binit (\<lambda>_. I NBUF) s" unfolding binit_def wpK_thenK wpK_set_buf .
  then show ?thesis
  proof (rule wpK_mono)
    fix x t
    assume t: "I NBUF t"
    then obtain B where B: "t = s\<lparr>bufs := B\<rparr>" by (auto simp: I_def)
    have "lru_list t (rev [0..<NBUF])" using t by (simp add: I_def lru_list_def)
    moreover have "buf_ok dev (p_pid (procs t p)) (medium t) (\<lambda>_. 0) {} (bufs t i)" if "i < NBUF" for i
      using t that assms(3) [OF that] by (simp add: I_def buf_ok_def initsleeplock_def)
    moreover have "\<not> buf_is t dev i bn" for i bn
      using t assms(3) [of i] by (auto simp: I_def buf_is_def)
    ultimately have "cache dev p t (medium t) (\<lambda>_. 0) {}"
      using assms(1,2) unfolding cache_def B by (auto simp: B)
    then show "cache dev p t (medium t) (\<lambda>_. 0) {} \<and> disk_frame s t \<and> medium t = medium s \<and> bd_history (blkdev t) = bd_history (blkdev s)"
      by (simp add: B disk_frame_bufs)
  qed
qed

section \<open>Properties\<close>

text \<open>C8: \<open>bread\<close> of a block that the process has not locked, while some buffer is unreferenced or
  the block already is, returns a buffer that holds the current contents of the block, locked
  by the process, with one more reference; no other block changes contents or loses a
  reference, and the disk is not written.\<close>

theorem bread_correct:
  assumes "cache dev p s V R H" "bn \<notin> H" "unat bn < 2 ^ 31" "Suc (R bn) < 2 ^ 32"
    and "0 < R bn \<or> card {k. 0 < R k} < NBUF \<and> finite {k. 0 < R k}"
  shows "\<exists>b t. bread dev bn s = Inr (b, t) \<and> b_blockno (bufs t b) = bn \<and> b_data (bufs t b) = V bn
    \<and> sl_locked (b_lock (bufs t b)) \<and> cache dev p t V (R(bn := Suc (R bn))) (insert bn H)
    \<and> medium t = medium s \<and> bd_history (blkdev t) = bd_history (blkdev s)"
proof -
  obtain b t where t: "bread dev bn s = Inr (b, t)" "buf_is t dev b bn" "cache dev p t V (R(bn := Suc (R bn))) (insert bn H)"
    "medium t = medium s" "bd_history (blkdev t) = bd_history (blkdev s)"
    using wpK_obtain [OF bread_wp [OF assms]] by blast
  moreover have "buf_ok dev (p_pid (procs t p)) V (R(bn := Suc (R bn))) (insert bn H) (bufs t b)"
    using cache_facts(4) [OF t(3)] t(2) by (simp add: buf_is_def)
  ultimately show ?thesis by (auto simp: buf_ok_def buf_is_def)
qed

definition running_disk :: "(nat \<Rightarrow> bytes) \<Rightarrow> kdisk" where
  "running_disk m = (disk_with m (\<lambda>_. no_buf))\<lparr>cpus := (\<lambda>_. idle_cpu)(0 := idle_cpu\<lparr>c_proc := Some 0\<rparr>)\<rparr>"

lemma running_disk_facts:
  "disk_idle (running_disk m)" "current (running_disk m) 0" "medium (running_disk m) bn = m (unat bn)"
  "b_dev (bufs (running_disk m) i) = 0" "b_refcnt (bufs (running_disk m) i) = 0"
  by (simp_all add: running_disk_def disk_idle_def current_def mycpu_def medium_def no_buf_def boot_def disk_with_def
      kcons.defs quiet_uart_def kproc.defs idle_vdisk_def)

lemma running_disk_cache:
  "\<exists>t. binit (running_disk m) = Inr ((), t) \<and> cache 1 0 t (medium t) (\<lambda>_. 0) {} \<and> medium t bn = m (unat bn)"
proof -
  have "wpK binit (\<lambda>_ t. cache 1 0 t (medium t) (\<lambda>_. 0) {} \<and> disk_frame (running_disk m) t \<and> medium t = medium (running_disk m)
    \<and> bd_history (blkdev t) = bd_history (blkdev (running_disk m))) (running_disk m)"
    by (rule binit_wp) (simp_all add: running_disk_facts)
  from wpK_unit_ex [OF this] show ?thesis by (auto simp: running_disk_facts)
qed

theorem bread_correct_witness:
  "\<exists>s b t. binit (running_disk (\<lambda>n. replicate BSIZE (of_nat n))) = Inr ((), s) \<and> bread 1 7 s = Inr (b, t)
    \<and> b_blockno (bufs t b) = 7 \<and> b_data (bufs t b) = replicate BSIZE 7"
proof -
  obtain s where s: "binit (running_disk (\<lambda>n. replicate BSIZE (of_nat n))) = Inr ((), s)"
    "cache 1 0 s (medium s) (\<lambda>_. 0) {}" "medium s 7 = replicate BSIZE 7"
    using running_disk_cache [of "\<lambda>n. replicate BSIZE (of_nat n)" 7] by auto
  from bread_correct [OF s(2), of 7] s(1,3) show ?thesis by (auto simp: NBUF_def MAXOPBLOCKS_def)
qed

text \<open>C19: reading a block, storing new contents, writing the buffer and releasing it leaves the
  new contents on the disk and in every later read, changes no other block, and gives the
  reference and the lock back. The buffer list stays a well-formed ring of all buffers.\<close>

theorem buffer_write_through:
  assumes "cache dev p s V R H" "bn \<notin> H" "unat bn < 2 ^ 31" "Suc (R bn) < 2 ^ 32"
    and "0 < R bn \<or> card {k. 0 < R k} < NBUF \<and> finite {k. 0 < R k}"
  shows "\<exists>t. bindK (bread dev bn) (\<lambda>b. thenK (set_buf b (\<lambda>bf. bf\<lparr>b_data := d\<rparr>)) (thenK (bwrite b) (brelse b))) s = Inr ((), t)
    \<and> cache dev p t (V(bn := d)) R H \<and> medium t = (medium s)(bn := d)
    \<and> bd_history (blkdev t) = bd_history (blkdev s) @ [(unat bn, d)]"
proof (rule wpK_unit_ex, unfold wpK_bindK wpK_thenK, rule wpK_mono [OF bread_wp [OF assms]], elim conjE)
  fix b t
  let ?R = "R(bn := Suc (R bn))"
  assume t: "buf_is t dev b bn" "cache dev p t V ?R (insert bn H)" "medium t = medium s" "bd_history (blkdev t) = bd_history (blkdev s)"
  show "wpK (set_buf b (\<lambda>bf. bf\<lparr>b_data := d\<rparr>)) (\<lambda>_. wpK (bwrite b) (\<lambda>_. wpK (brelse b) (\<lambda>_ t.
    cache dev p t (V(bn := d)) R H \<and> medium t = (medium s)(bn := d) \<and> bd_history (blkdev t) = bd_history (blkdev s) @ [(unat bn, d)]))) t"
  proof (rule wpK_mono [OF buf_store_wp [OF t(2,1)]], simp, elim conjE)
    fix x u
    assume u: "cache dev p u (V(bn := d)) ?R (insert bn H)" "cache_frame dev ?R t u" "medium u = medium t" "bd_history (blkdev u) = bd_history (blkdev t)"
    have bu: "buf_is u dev b bn" using u(2) t(1) by (simp add: cache_frame_def)
    show "wpK (bwrite b) (\<lambda>_. wpK (brelse b) (\<lambda>_ t.
      cache dev p t (V(bn := d)) R H \<and> medium t = (medium s)(bn := d) \<and> bd_history (blkdev t) = bd_history (blkdev s) @ [(unat bn, d)])) u"
    proof (rule wpK_mono [OF bwrite_wp [OF u(1) bu]], simp, elim conjE)
      fix y v
      assume v: "cache dev p v (V(bn := d)) ?R (insert bn H)" "cache_frame dev ?R u v" "medium v = (medium u)(bn := (V(bn := d)) bn)"
        "bd_history (blkdev v) = bd_history (blkdev u) @ [(unat bn, (V(bn := d)) bn)]"
      have bv: "buf_is v dev b bn" using v(2) bu by (simp add: cache_frame_def)
      have "insert bn H - {bn} = H" "?R(bn := ?R bn - 1) = R" using assms(2) by auto
      from brelse_wp [OF v(1) bv, unfolded this] v(3,4) u(3,4) t(3,4)
      show "wpK (brelse b) (\<lambda>_ t. cache dev p t (V(bn := d)) R H \<and> medium t = (medium s)(bn := d)
        \<and> bd_history (blkdev t) = bd_history (blkdev s) @ [(unat bn, d)]) v"
        by (auto elim!: wpK_mono)
    qed
  qed
qed

theorem buffer_write_through_witness:
  "\<exists>s t. binit (running_disk (\<lambda>_. replicate BSIZE 0)) = Inr ((), s)
    \<and> bindK (bread 1 7) (\<lambda>b. thenK (set_buf b (\<lambda>bf. bf\<lparr>b_data := replicate BSIZE 5\<rparr>)) (thenK (bwrite b) (brelse b))) s = Inr ((), t)
    \<and> medium t 7 = replicate BSIZE 5"
proof -
  obtain s where s: "binit (running_disk (\<lambda>_. replicate BSIZE 0)) = Inr ((), s)" "cache 1 0 s (medium s) (\<lambda>_. 0) {}"
    using running_disk_cache by blast
  from buffer_write_through [OF s(2), of 7 "replicate BSIZE 5"] s(1) show ?thesis by (auto simp: NBUF_def MAXOPBLOCKS_def)
qed

end
