(* ===== verification/Log.thy ===== *)
theory Log
  imports Bio
begin

text \<open>
  The log of the file system (\<open>kernel/log.c\<close>). The in-memory header is part of the state, the
  on-disk header is read from and written to the bytes of its block. Sections under
  \<open>log.lock\<close> are atomic; \<open>begin_op\<close> is \<open>Blocked\<close> while it has to wait. A header that names
  more than \<open>LOGSIZE\<close> blocks makes the code overrun its array, \<open>Undef\<close>.
\<close>

section \<open>Code\<close>

definition LOGSIZE :: nat where "LOGSIZE = MAXOPBLOCKS * 3"

record logheader =
  lh_n :: int
  lh_block :: "u32 list"

record log =
  lg_start :: u32
  lg_size :: int
  lg_outstanding :: int
  lg_committing :: bool
  lg_dev :: u32
  lg_lh :: logheader

record superblock =
  sb_magic :: u32
  sb_size :: u32
  sb_nblocks :: u32
  sb_ninodes :: u32
  sb_nlog :: u32
  sb_logstart :: u32
  sb_inodestart :: u32
  sb_bmapstart :: u32

record klog = kdisk +
  log :: log

definition set_log :: "(log \<Rightarrow> log) \<Rightarrow> ('x klog_scheme, unit) km" where
  "set_log f = modifyK (\<lambda>s. s\<lparr>log := f (log s)\<rparr>)"

definition set_lh :: "(logheader \<Rightarrow> logheader) \<Rightarrow> ('x klog_scheme, unit) km" where
  "set_lh f = set_log (\<lambda>l. l\<lparr>lg_lh := f (lg_lh l)\<rparr>)"

text \<open>\<open>log.lh.block[i]\<close>.\<close>

definition log_block :: "nat \<Rightarrow> ('x klog_scheme, u32) km" where
  "log_block i = (if LOGSIZE \<le> i then undefK ''log.lh.block'' else getK (\<lambda>s. lh_block (lg_lh (log s)) ! i))"

text \<open>The fields of the header block.\<close>

definition head_n :: "bytes \<Rightarrow> int" where
  "head_n d = sint (of_nat (get_le 4 d 0) :: u32)"

definition head_block :: "bytes \<Rightarrow> nat \<Rightarrow> u32" where
  "head_block d i = of_nat (get_le 4 d (4 + 4 * i))"

definition install_block :: "bool \<Rightarrow> nat \<Rightarrow> ('x klog_scheme, unit) km" where
  "install_block recovering tail = (bindK (getK log) (\<lambda>l.
    bindK (bread (lg_dev l) (lg_start l + of_nat tail + 1)) (\<lambda>lbuf.
    bindK (log_block tail) (\<lambda>dst.
    bindK (bread (lg_dev l) dst) (\<lambda>dbuf.
    bindK (get_buf lbuf) (\<lambda>lb.
    thenK (set_buf dbuf (\<lambda>b. b\<lparr>b_data := b_data lb\<rparr>)) (
    thenK (bwrite dbuf) (
    thenK ((if \<not> recovering then bunpin dbuf else returnK ())) (
    thenK (brelse lbuf) (
    brelse dbuf))))))))))"

definition install_trans :: "bool \<Rightarrow> ('x klog_scheme, unit) km" where
  "install_trans recovering = (bindK (getK (\<lambda>s. lh_n (lg_lh (log s)))) (\<lambda>n.
    forK [0..<nat n] (install_block recovering)))"

definition read_head :: "('x klog_scheme, unit) km" where
  "read_head = (bindK (getK log) (\<lambda>l.
    bindK (bread (lg_dev l) (lg_start l)) (\<lambda>b.
    bindK (get_buf b) (\<lambda>bf.
    thenK (set_lh (\<lambda>h. h\<lparr>lh_n := head_n (b_data bf)\<rparr>)) (
    thenK (forK [0..<nat (head_n (b_data bf))] (\<lambda>i. if LOGSIZE \<le> i then undefK ''log.lh.block''
      else set_lh (\<lambda>h. h\<lparr>lh_block := (lh_block h)[i := head_block (b_data bf) i]\<rparr>))) (
    brelse b))))))"

definition write_head :: "('x klog_scheme, unit) km" where
  "write_head = (bindK (getK log) (\<lambda>l.
    bindK (bread (lg_dev l) (lg_start l)) (\<lambda>b.
    thenK (set_buf b (\<lambda>bf. bf\<lparr>b_data := put_le 4 (b_data bf) 0 (unat (word_of_int (lh_n (lg_lh l)) :: u32))\<rparr>)) (
    thenK (forK [0..<nat (lh_n (lg_lh l))] (\<lambda>i. (bindK (log_block i) (\<lambda>blk.
      set_buf b (\<lambda>bf. bf\<lparr>b_data := put_le 4 (b_data bf) (4 + 4 * i) (unat blk)\<rparr>))))) (
    thenK (bwrite b) (
    brelse b))))))"

definition recover_from_log :: "('x klog_scheme, unit) km" where
  "recover_from_log = (thenK read_head (
    thenK (install_trans True) (
    thenK (set_lh (\<lambda>h. h\<lparr>lh_n := 0\<rparr>)) (
    write_head))))"

definition initlog :: "u32 \<Rightarrow> superblock \<Rightarrow> ('x klog_scheme, unit) km" where
  "initlog dev sb = (if BSIZE \<le> 4 * (LOGSIZE + 1) then panicK ''initlog: too big logheader'' else
    thenK (set_log (\<lambda>l. l\<lparr>lg_start := sb_logstart sb, lg_size := sint (sb_nlog sb), lg_dev := dev\<rparr>)) (
    recover_from_log))"

definition begin_op :: "('x klog_scheme, unit) km" where
  "begin_op = (bindK (getK log) (\<lambda>l.
    if lg_committing l then blockK ''log'' else
    if lh_n (lg_lh l) + (lg_outstanding l + 1) * int MAXOPBLOCKS > int LOGSIZE then blockK ''log'' else
    set_log (\<lambda>l. l\<lparr>lg_outstanding := lg_outstanding l + 1\<rparr>)))"

definition write_log_block :: "nat \<Rightarrow> ('x klog_scheme, unit) km" where
  "write_log_block tail = (bindK (getK log) (\<lambda>l.
    bindK (bread (lg_dev l) (lg_start l + of_nat tail + 1)) (\<lambda>to.
    bindK (log_block tail) (\<lambda>src.
    bindK (bread (lg_dev l) src) (\<lambda>from.
    bindK (get_buf from) (\<lambda>fb.
    thenK (set_buf to (\<lambda>b. b\<lparr>b_data := b_data fb\<rparr>)) (
    thenK (bwrite to) (
    thenK (brelse from) (
    brelse to)))))))))"

definition write_log :: "('x klog_scheme, unit) km" where
  "write_log = (bindK (getK (\<lambda>s. lh_n (lg_lh (log s)))) (\<lambda>n.
    forK [0..<nat n] write_log_block))"

definition commit :: "('x klog_scheme, unit) km" where
  "commit = (bindK (getK (\<lambda>s. lh_n (lg_lh (log s)))) (\<lambda>n.
    if n \<le> 0 then returnK () else
    thenK write_log (
    thenK write_head (
    thenK (install_trans False) (
    thenK (set_lh (\<lambda>h. h\<lparr>lh_n := 0\<rparr>)) (
    write_head))))))"

definition end_op :: "('x klog_scheme, unit) km" where
  "end_op = (thenK (set_log (\<lambda>l. l\<lparr>lg_outstanding := lg_outstanding l - 1\<rparr>)) (
    bindK (getK log) (\<lambda>l.
    if lg_committing l then panicK ''log.committing'' else
    if lg_outstanding l \<noteq> 0 then wakeup ChanLog else
    thenK (set_log (\<lambda>l. l\<lparr>lg_committing := True\<rparr>)) (
    thenK commit (
    thenK (set_log (\<lambda>l. l\<lparr>lg_committing := False\<rparr>)) (
    wakeup ChanLog))))))"

text \<open>The loop of \<open>log_write\<close>: the index of the block in the header, or \<open>lh.n\<close>.\<close>

definition log_index :: "logheader \<Rightarrow> u32 \<Rightarrow> nat" where
  "log_index h bn = (case find (\<lambda>i. lh_block h ! i = bn) [0..<nat (lh_n h)] of Some i \<Rightarrow> i | None \<Rightarrow> nat (lh_n h))"

definition log_write :: "nat \<Rightarrow> ('x klog_scheme, unit) km" where
  "log_write b = (bindK (getK log) (\<lambda>l.
    if lh_n (lg_lh l) \<ge> int LOGSIZE \<or> lh_n (lg_lh l) \<ge> lg_size l - 1 then panicK ''too big a transaction'' else
    if lg_outstanding l < 1 then panicK ''log_write outside of trans'' else
    bindK (get_buf b) (\<lambda>bf.
    let i = log_index (lg_lh l) (b_blockno bf) in
    thenK (set_lh (\<lambda>h. h\<lparr>lh_block := (lh_block h)[i := b_blockno bf]\<rparr>)) (
    if int i \<noteq> lh_n (lg_lh l) then returnK () else
    thenK (bpin b) (
    set_lh (\<lambda>h. h\<lparr>lh_n := lh_n h + 1\<rparr>))))))"

declare set_log_def [kdefs] set_lh_def [kdefs]

section \<open>One block of a transaction\<close>

lemma log_disk_frame: "disk_frame s t \<Longrightarrow> log t = log s"
  by (auto simp: disk_frame_def)

lemma cache_frameD:
  assumes "cache_frame dev R s t"
  shows "disk_frame s t" "buf_is s dev b bn \<Longrightarrow> 0 < R bn \<Longrightarrow> buf_is t dev b bn"
  using assms by (simp_all add: cache_frame_def)

lemma log_cache_frame: "cache_frame dev R s t \<Longrightarrow> log t = log s"
  by (rule log_disk_frame, rule cache_frameD)

lemma log_block_eq: "i < LOGSIZE \<Longrightarrow> log_block i s = Inr (lh_block (lg_lh (log s)) ! i, s)"
  by (simp add: log_block_def getK_def)

lemma data_of:
  assumes "cache dev p s V R H" "buf_is s dev b bn"
  shows "b_data (bufs s b) = V bn"
  using cache_facts(4) [OF assms(1), of b] assms(2) by (auto simp: buf_is_def buf_ok_def)

lemma wpK_ex: "wpK m Q s \<Longrightarrow> \<exists>x t. m s = Inr (x, t) \<and> Q x t"
  by (auto simp: wpK_def split: sum.splits)

lemma card_insert_below: "finite A \<Longrightarrow> card A < n \<Longrightarrow> card (insert x A) \<le> n"
  by (metis Suc_leI card_insert_if le_SucI less_imp_le_nat)

text \<open>The blocks with references, with one more.\<close>

lemma refs_upd: "{k. 0 < (R(bn := Suc m)) k} = insert bn {k. 0 < R k}"
  by auto

lemma write_log_block_wp:
  assumes "cache dev p s V R {}" "lg_dev (log s) = dev" "i < LOGSIZE"
    and "L = lg_start (log s) + of_nat i + 1" "blk = lh_block (lg_lh (log s)) ! i" "L \<noteq> blk"
    and "unat L < 2 ^ 31" "unat blk < 2 ^ 31" "R L = 0" "R blk = 1" "card {k. 0 < R k} < NBUF" "finite {k. 0 < R k}"
  shows "wpK (write_log_block i) (\<lambda>_ t. cache dev p t (V(L := V blk)) R {} \<and> disk_frame s t
    \<and> medium t = (medium s)(L := V blk) \<and> bd_history (blkdev t) = bd_history (blkdev s) @ [(unat L, V blk)]) s"
proof -
  let ?R1 = "R(L := 1)"
  obtain to s1 where r1: "bread dev L s = Inr (to, s1)" and to1: "buf_is s1 dev to L" and c1: "cache dev p s1 V ?R1 {L}"
    and f1: "cache_frame dev R s s1" and m1: "medium s1 = medium s" and h1: "bd_history (blkdev s1) = bd_history (blkdev s)"
    using wpK_ex [OF bread_wp [OF assms(1), of L]] assms(7,9,11,12) by auto
  let ?R2 = "?R1(blk := Suc (Suc 0))"
  obtain fr s2 where r2: "bread dev blk s1 = Inr (fr, s2)" and fr2: "buf_is s2 dev fr blk" and c2: "cache dev p s2 V ?R2 {blk, L}"
    and f2: "cache_frame dev ?R1 s1 s2" and m2: "medium s2 = medium s1" and h2: "bd_history (blkdev s2) = bd_history (blkdev s1)"
    using wpK_ex [OF bread_wp [OF c1, of blk]] assms(6,8,10) by auto
  have to2: "buf_is s2 dev to L" using cache_frameD(2) [OF f2 to1] by simp
  obtain s3 where r3: "set_buf to (\<lambda>b. b\<lparr>b_data := V blk\<rparr>) s2 = Inr ((), s3)" and c3: "cache dev p s3 (V(L := V blk)) ?R2 {blk, L}"
    and f3: "cache_frame dev ?R2 s2 s3" and m3: "medium s3 = medium s2" and h3: "bd_history (blkdev s3) = bd_history (blkdev s2)"
    using wpK_unit_ex [OF buf_store_wp [OF c2 to2, of "V blk"]] assms(6) by auto
  have to3: "buf_is s3 dev to L" and fr3: "buf_is s3 dev fr blk"
    using cache_frameD(2) [OF f3 to2] cache_frameD(2) [OF f3 fr2] assms(6) by simp_all
  obtain s4 where r4: "bwrite to s3 = Inr ((), s4)" and c4: "cache dev p s4 (V(L := V blk)) ?R2 {blk, L}"
    and f4: "cache_frame dev ?R2 s3 s4" and m4: "medium s4 = (medium s3)(L := V blk)"
    and h4: "bd_history (blkdev s4) = bd_history (blkdev s3) @ [(unat L, V blk)]"
    using wpK_unit_ex [OF bwrite_wp [OF c3 to3]] by auto
  have to4: "buf_is s4 dev to L" and fr4: "buf_is s4 dev fr blk"
    using cache_frameD(2) [OF f4 to3] cache_frameD(2) [OF f4 fr3] assms(6) by simp_all
  obtain s5 where r5: "brelse fr s4 = Inr ((), s5)" and c5: "cache dev p s5 (V(L := V blk)) ?R1 {L}"
    and f5: "cache_frame dev ?R2 s4 s5" and m5: "medium s5 = medium s4" and h5: "bd_history (blkdev s5) = bd_history (blkdev s4)"
    using wpK_unit_ex [OF brelse_wp [OF c4 fr4]] assms(6,10) by (auto simp: fun_upd_idem)
  have to5: "buf_is s5 dev to L" using cache_frameD(2) [OF f5 to4] assms(6) by simp
  obtain s6 where r6: "brelse to s5 = Inr ((), s6)" and c6: "cache dev p s6 (V(L := V blk)) R {}"
    and f6: "cache_frame dev ?R1 s5 s6" and m6: "medium s6 = medium s5" and h6: "bd_history (blkdev s6) = bd_history (blkdev s5)"
    using wpK_unit_ex [OF brelse_wp [OF c5 to5]] assms(9) m3 m4 m5 by (auto simp: fun_upd_idem)
  have log1: "log s1 = log s" using log_cache_frame [OF f1] .
  have "write_log_block i s = Inr ((), s6)"
    unfolding write_log_block_def using assms(2) log_block_eq [OF assms(3), of s1] r1 r2 r3 r4 r5 r6
    by (simp add: bindK_def thenK_def getK_def get_buf_def assms(4,5) [symmetric] log1 data_of [OF c2 fr2])
  moreover have "disk_frame s s6"
    using cache_frameD(1) [OF f1] cache_frameD(1) [OF f2] cache_frameD(1) [OF f3] cache_frameD(1) [OF f4]
      cache_frameD(1) [OF f5] cache_frameD(1) [OF f6] disk_frame_trans by blast
  ultimately show ?thesis using c6 m1 m2 m3 m4 m5 m6 h1 h2 h3 h4 h5 h6 by (simp add: wpK_def)
qed

lemma install_block_wp:
  assumes "cache dev p s V R {}" "lg_dev (log s) = dev" "i < LOGSIZE"
    and "L = lg_start (log s) + of_nat i + 1" "blk = lh_block (lg_lh (log s)) ! i" "L \<noteq> blk"
    and "unat L < 2 ^ 31" "unat blk < 2 ^ 31" "R L = 0" "card {k. 0 < R k} < NBUF" "finite {k. 0 < R k}"
    and "if recovering then R blk = 0 \<and> Suc (card {k. 0 < R k}) < NBUF else R blk = 1"
  shows "wpK (install_block recovering i) (\<lambda>_ t. cache dev p t (V(blk := V L)) (R(blk := 0)) {} \<and> disk_frame s t
    \<and> medium t = (medium s)(blk := V L) \<and> bd_history (blkdev t) = bd_history (blkdev s) @ [(unat blk, V L)]) s"
proof -
  let ?R1 = "R(L := Suc 0)"
  have VL: "V L = medium s L" using cache_facts(6) [OF assms(1,9)] .
  obtain lb s1 where r1: "bread dev L s = Inr (lb, s1)" and lb1: "buf_is s1 dev lb L" and c1: "cache dev p s1 V ?R1 {L}"
    and f1: "cache_frame dev R s s1" and m1: "medium s1 = medium s" and h1: "bd_history (blkdev s1) = bd_history (blkdev s)"
    using wpK_ex [OF bread_wp [OF assms(1), of L]] assms(7,9,10,11) by auto
  have Rb: "R blk \<le> 1" "R blk = 0 \<Longrightarrow> Suc (card {k. 0 < R k}) < NBUF" using assms(12) by (auto split: if_splits)
  have "{k. 0 < ?R1 k} = insert L {k. 0 < R k}" by auto
  then have card1: "R blk = 0 \<Longrightarrow> card {k. 0 < ?R1 k} < NBUF" "finite {k. 0 < ?R1 k}"
    using Rb(2) assms(11) by (auto simp: card_insert_if)
  let ?R2 = "?R1(blk := Suc (R blk))"
  obtain db s2 where r2: "bread dev blk s1 = Inr (db, s2)" and db2: "buf_is s2 dev db blk" and c2: "cache dev p s2 V ?R2 {blk, L}"
    and f2: "cache_frame dev ?R1 s1 s2" and m2: "medium s2 = medium s1" and h2: "bd_history (blkdev s2) = bd_history (blkdev s1)"
    using wpK_ex [OF bread_wp [OF c1, of blk]] assms(6,8) Rb(1) card1 by auto
  have lb2: "buf_is s2 dev lb L" using cache_frameD(2) [OF f2 lb1] by simp
  obtain s3 where r3: "set_buf db (\<lambda>b. b\<lparr>b_data := V L\<rparr>) s2 = Inr ((), s3)" and c3: "cache dev p s3 (V(blk := V L)) ?R2 {blk, L}"
    and f3: "cache_frame dev ?R2 s2 s3" and m3: "medium s3 = medium s2" and h3: "bd_history (blkdev s3) = bd_history (blkdev s2)"
    using wpK_unit_ex [OF buf_store_wp [OF c2 db2, of "V L"]] by auto
  have lb3: "buf_is s3 dev lb L" and db3: "buf_is s3 dev db blk"
    using cache_frameD(2) [OF f3 lb2] cache_frameD(2) [OF f3 db2] assms(6) by simp_all
  obtain s4 where r4: "bwrite db s3 = Inr ((), s4)" and c4: "cache dev p s4 (V(blk := V L)) ?R2 {blk, L}"
    and f4: "cache_frame dev ?R2 s3 s4" and m4: "medium s4 = (medium s3)(blk := V L)"
    and h4: "bd_history (blkdev s4) = bd_history (blkdev s3) @ [(unat blk, V L)]"
    using wpK_unit_ex [OF bwrite_wp [OF c3 db3]] by auto
  have lb4: "buf_is s4 dev lb L" and db4: "buf_is s4 dev db blk"
    using cache_frameD(2) [OF f4 lb3] cache_frameD(2) [OF f4 db3] assms(6) by simp_all
  let ?R3 = "?R1(blk := Suc 0)"
  have "\<exists>s5. (if \<not> recovering then bunpin db else returnK ()) s4 = Inr ((), s5) \<and> cache dev p s5 (V(blk := V L)) ?R3 {blk, L}
    \<and> cache_frame dev ?R2 s4 s5 \<and> medium s5 = medium s4 \<and> bd_history (blkdev s5) = bd_history (blkdev s4)"
  proof (cases recovering)
    case True
    then have "?R2 = ?R3" using assms(12) by auto
    then show ?thesis using True c4 by (auto simp: returnK_def cache_frame_def)
  next
    case False
    then have "R blk = 1" using assms(12) by simp
    then show ?thesis using False wpK_unit_ex [OF bunpin_wp [OF c4 db4]] by (auto simp: fun_upd_idem)
  qed
  then obtain s5 where r5: "(if \<not> recovering then bunpin db else returnK ()) s4 = Inr ((), s5)" and c5: "cache dev p s5 (V(blk := V L)) ?R3 {blk, L}"
    and f5: "cache_frame dev ?R2 s4 s5" and m5: "medium s5 = medium s4" and h5: "bd_history (blkdev s5) = bd_history (blkdev s4)" by blast
  have lb5: "buf_is s5 dev lb L" and db5: "buf_is s5 dev db blk"
    using cache_frameD(2) [OF f5 lb4] cache_frameD(2) [OF f5 db4] assms(6) by simp_all
  let ?R4 = "R(blk := Suc 0)"
  have R4: "?R3(L := ?R3 L - 1) = ?R4" "{blk, L} - {L} = {blk}" using assms(6,9) by (auto simp: fun_eq_iff)
  have "medium s5 L = V L" using m1 m2 m3 m4 m5 VL assms(6) by simp
  then obtain s6 where r6: "brelse lb s5 = Inr ((), s6)" and c6: "cache dev p s6 (V(blk := V L)) ?R4 {blk}"
    and f6: "cache_frame dev ?R3 s5 s6" and m6: "medium s6 = medium s5" and h6: "bd_history (blkdev s6) = bd_history (blkdev s5)"
    using wpK_unit_ex [OF brelse_wp [OF c5 lb5, unfolded R4]] assms(6) by auto
  have db6: "buf_is s6 dev db blk" using cache_frameD(2) [OF f6 db5] by simp
  obtain s7 where r7: "brelse db s6 = Inr ((), s7)" and c7: "cache dev p s7 (V(blk := V L)) (R(blk := 0)) {}"
    and f7: "cache_frame dev ?R4 s6 s7" and m7: "medium s7 = medium s6" and h7: "bd_history (blkdev s7) = bd_history (blkdev s6)"
    using wpK_unit_ex [OF brelse_wp [OF c6 db6]] m1 m2 m3 m4 m5 m6 by auto
  have log1: "log s1 = log s" using log_cache_frame [OF f1] .
  have "install_block recovering i s = Inr ((), s7)"
    unfolding install_block_def using assms(2) log_block_eq [OF assms(3), of s1] r1 r2 r3 r4 r5 r6 r7
    by (simp add: bindK_def thenK_def getK_def get_buf_def assms(4,5) [symmetric] log1 data_of [OF c2 lb2])
  moreover have "disk_frame s s7"
    using cache_frameD(1) [OF f1] cache_frameD(1) [OF f2] cache_frameD(1) [OF f3] cache_frameD(1) [OF f4]
      cache_frameD(1) [OF f5] cache_frameD(1) [OF f6] cache_frameD(1) [OF f7] disk_frame_trans by blast
  ultimately show ?thesis using c7 m1 m2 m3 m4 m5 m6 m7 h1 h2 h3 h4 h5 h6 h7 by (simp add: wpK_def)
qed

section \<open>The header block\<close>

definition head_store :: "bytes \<Rightarrow> u32 list \<Rightarrow> nat \<Rightarrow> bytes" where
  "head_store d bs n = foldl (\<lambda>d i. put_le 4 d (4 + 4 * i) (unat (bs ! i))) (put_le 4 d 0 n) [0..<n]"

lemma length_head_store: "4 + 4 * n \<le> length d \<Longrightarrow> k \<le> n \<Longrightarrow>
    length (foldl (\<lambda>d i. put_le 4 d (4 + 4 * i) (unat (bs ! i))) (put_le 4 d 0 m) [0..<k]) = length d"
  by (induction k) auto

lemma head_store_fields:
  assumes "4 + 4 * n \<le> length d" "k \<le> n"
  shows "get_le 4 (foldl (\<lambda>d i. put_le 4 d (4 + 4 * i) (unat (bs ! i))) (put_le 4 d 0 m) [0..<k]) 0 = m mod 2 ^ 32"
    and "i < k \<Longrightarrow> get_le 4 (foldl (\<lambda>d i. put_le 4 d (4 + 4 * i) (unat (bs ! i))) (put_le 4 d 0 m) [0..<k]) (4 + 4 * i)
      = unat ((bs :: u32 list) ! i)"
proof -
  have "get_le 4 (foldl (\<lambda>d i. put_le 4 d (4 + 4 * i) (unat (bs ! i))) (put_le 4 d 0 m) [0..<k]) 0 = m mod 2 ^ 32
    \<and> (\<forall>i < k. get_le 4 (foldl (\<lambda>d i. put_le 4 d (4 + 4 * i) (unat (bs ! i))) (put_le 4 d 0 m) [0..<k]) (4 + 4 * i) = unat (bs ! i))"
    using assms(2)
  proof (induction k)
    case 0
    then show ?case using assms(1) by (simp add: get_put_le)
  next
    case (Suc k)
    define f where "f = foldl (\<lambda>d i. put_le 4 d (4 + 4 * i) (unat (bs ! i))) (put_le 4 d 0 m) [0..<k]"
    have len: "length f = length d" unfolding f_def using assms(1) Suc.prems by (intro length_head_store) auto
    have IH: "get_le 4 f 0 = m mod 2 ^ 32" "\<forall>i < k. get_le 4 f (4 + 4 * i) = unat (bs ! i)"
      using Suc by (simp_all add: f_def)
    have "get_le 4 (put_le 4 f (4 + 4 * k) (unat (bs ! k))) 0 = get_le 4 f 0"
      using len assms(1) Suc.prems by (intro get_put_le_other) auto
    moreover have "get_le 4 (put_le 4 f (4 + 4 * k) (unat (bs ! k))) (4 + 4 * i) = get_le 4 f (4 + 4 * i)" if "i < k" for i
      using len assms(1) Suc.prems that by (intro get_put_le_other) auto
    moreover have "unat (bs ! k) < 2 ^ 32" using unsigned_less [of "bs ! k"] by simp
    then have "get_le 4 (put_le 4 f (4 + 4 * k) (unat (bs ! k))) (4 + 4 * k) = unat (bs ! k)"
      using len assms(1) Suc.prems by (simp add: get_put_le)
    ultimately show ?case using IH by (auto simp: f_def [symmetric] less_Suc_eq)
  qed
  then show "get_le 4 (foldl (\<lambda>d i. put_le 4 d (4 + 4 * i) (unat (bs ! i))) (put_le 4 d 0 m) [0..<k]) 0 = m mod 2 ^ 32"
    "i < k \<Longrightarrow> get_le 4 (foldl (\<lambda>d i. put_le 4 d (4 + 4 * i) (unat (bs ! i))) (put_le 4 d 0 m) [0..<k]) (4 + 4 * i) = unat (bs ! i)"
    by simp_all
qed

lemma head_store_head:
  assumes "length d = BSIZE" "n \<le> LOGSIZE"
  shows "head_n (head_store d bs n) = int n" "i < n \<Longrightarrow> head_block (head_store d bs n) i = bs ! i"
    "length (head_store d bs n) = BSIZE"
proof -
  have l: "4 + 4 * n \<le> length d" "n < 2 ^ 31" using assms by (simp_all add: BSIZE_def LOGSIZE_def MAXOPBLOCKS_def)
  have "get_le 4 (head_store d bs n) 0 = n" using head_store_fields(1) [OF l(1) order_refl, of bs n] l(2) by (simp add: head_store_def)
  moreover have "sint (of_nat n :: u32) = int n" using l(2) by (simp add: signed_of_nat signed_take_bit_int_eq_self)
  ultimately show "head_n (head_store d bs n) = int n" by (simp add: head_n_def)
  show "i < n \<Longrightarrow> head_block (head_store d bs n) i = bs ! i"
    using head_store_fields(2) [OF l(1) order_refl, of i bs n] by (simp add: head_store_def head_block_def)
  show "length (head_store d bs n) = BSIZE" using length_head_store [OF l(1) order_refl, of bs n] assms(1) by (simp add: head_store_def)
qed

lemma thenK_run: "m s = Inr (x, t) \<Longrightarrow> thenK m k s = k t"
  by (simp add: thenK_def bindK_def)

lemma head_loop:
  assumes "\<forall>i \<in> set is. i < LOGSIZE"
  shows "forK is (\<lambda>i. bindK (log_block i) (\<lambda>blk. set_buf b (\<lambda>bf. bf\<lparr>b_data := put_le 4 (b_data bf) (4 + 4 * i) (unat blk)\<rparr>))) s
    = Inr ((), s\<lparr>bufs := (bufs s)(b := (bufs s b)\<lparr>b_data :=
        foldl (\<lambda>d i. put_le 4 d (4 + 4 * i) (unat (lh_block (lg_lh (log s)) ! i))) (b_data (bufs s b)) is\<rparr>)\<rparr>)"
    (is "forK is ?f s = _")
  using assms
proof (induction "is" arbitrary: s)
  case Nil
  then show ?case by (simp add: returnK_def)
next
  case (Cons i "is")
  then have "bindK (log_block i) (\<lambda>blk. set_buf b (\<lambda>bf. bf\<lparr>b_data := put_le 4 (b_data bf) (4 + 4 * i) (unat blk)\<rparr>)) s
    = Inr ((), s\<lparr>bufs := (bufs s)(b := (bufs s b)\<lparr>b_data := put_le 4 (b_data (bufs s b)) (4 + 4 * i) (unat (lh_block (lg_lh (log s)) ! i))\<rparr>)\<rparr>)"
    by (simp add: bindK_def log_block_eq set_buf_def modifyK_def)
  then have "forK (i # is) ?f s = forK is ?f (s\<lparr>bufs := (bufs s)(b := (bufs s b)\<lparr>b_data := put_le 4 (b_data (bufs s b)) (4 + 4 * i) (unat (lh_block (lg_lh (log s)) ! i))\<rparr>)\<rparr>)"
    unfolding forK.simps by (rule thenK_run)
  then show ?case using Cons by (simp cong: if_cong)
qed

lemma write_head_wp:
  assumes "cache dev p s V R {}" "lg_dev (log s) = dev" "lg_start (log s) = S" "unat S < 2 ^ 31" "R S = 0"
    and "card {k. 0 < R k} < NBUF" "finite {k. 0 < R k}" "lh_n (lg_lh (log s)) = int n" "n \<le> LOGSIZE"
    and hdr: "hdr = head_store (V S) (lh_block (lg_lh (log s))) n"
  shows "wpK write_head (\<lambda>_ t. cache dev p t (V(S := hdr)) R {} \<and> disk_frame s t
    \<and> medium t = (medium s)(S := hdr) \<and> bd_history (blkdev t) = bd_history (blkdev s) @ [(unat S, hdr)]) s"
proof -
  let ?R1 = "R(S := Suc 0)"
  obtain b s1 where r1: "bread dev S s = Inr (b, s1)" and b1: "buf_is s1 dev b S" and c1: "cache dev p s1 V ?R1 {S}"
    and f1: "cache_frame dev R s s1" and m1: "medium s1 = medium s" and h1: "bd_history (blkdev s1) = bd_history (blkdev s)"
    using wpK_ex [OF bread_wp [OF assms(1), of S]] assms(4,5,6,7) by auto
  have log1: "log s1 = log s" using log_cache_frame [OF f1] .
  have n32: "unat (word_of_int (int n) :: u32) = n"
    using assms(9) by (simp add: unat_of_nat LOGSIZE_def MAXOPBLOCKS_def)
  obtain s2 where r2: "set_buf b (\<lambda>bf. bf\<lparr>b_data := hdr\<rparr>) s1 = Inr ((), s2)" and c2: "cache dev p s2 (V(S := hdr)) ?R1 {S}"
    and f2: "cache_frame dev ?R1 s1 s2" and m2: "medium s2 = medium s1" and h2: "bd_history (blkdev s2) = bd_history (blkdev s1)"
    using wpK_unit_ex [OF buf_store_wp [OF c1 b1, of hdr]] by auto
  have b2: "buf_is s2 dev b S" using cache_frameD(2) [OF f2 b1] by simp
  obtain s3 where r3: "bwrite b s2 = Inr ((), s3)" and c3: "cache dev p s3 (V(S := hdr)) ?R1 {S}"
    and f3: "cache_frame dev ?R1 s2 s3" and m3: "medium s3 = (medium s2)(S := hdr)"
    and h3: "bd_history (blkdev s3) = bd_history (blkdev s2) @ [(unat S, hdr)]"
    using wpK_unit_ex [OF bwrite_wp [OF c2 b2]] by auto
  have b3: "buf_is s3 dev b S" using cache_frameD(2) [OF f3 b2] by simp
  obtain s4 where r4: "brelse b s3 = Inr ((), s4)" and c4: "cache dev p s4 (V(S := hdr)) R {}"
    and f4: "cache_frame dev ?R1 s3 s4" and m4: "medium s4 = medium s3" and h4: "bd_history (blkdev s4) = bd_history (blkdev s3)"
    using wpK_unit_ex [OF brelse_wp [OF c3 b3]] m3 assms(5) by (auto simp: fun_upd_idem)
  define u where "u = s1\<lparr>bufs := (bufs s1)(b := (bufs s1 b)\<lparr>b_data := put_le 4 (b_data (bufs s1 b)) 0 n\<rparr>)\<rparr>"
  have "forK [0..<n] (\<lambda>i. bindK (log_block i) (\<lambda>blk. set_buf b (\<lambda>bf. bf\<lparr>b_data := put_le 4 (b_data bf) (4 + 4 * i) (unat blk)\<rparr>))) u
    = Inr ((), u\<lparr>bufs := (bufs u)(b := (bufs u b)\<lparr>b_data := hdr\<rparr>)\<rparr>)"
    using head_loop [of "[0..<n]" b u] assms(9) by (simp add: hdr head_store_def u_def log1 data_of [OF c1 b1])
  also have "u\<lparr>bufs := (bufs u)(b := (bufs u b)\<lparr>b_data := hdr\<rparr>)\<rparr> = s2"
    using r2 by (simp add: u_def set_buf_def modifyK_def)
  finally have loop: "forK [0..<n] (\<lambda>i. bindK (log_block i) (\<lambda>blk. set_buf b (\<lambda>bf. bf\<lparr>b_data := put_le 4 (b_data bf) (4 + 4 * i) (unat blk)\<rparr>))) u = Inr ((), s2)" .
  have "write_head s = Inr ((), s4)"
    using assms(2,3,8) r1 r3 r4 loop n32
    by (simp add: write_head_def bindK_def thenK_def getK_def set_buf_def modifyK_def u_def)
  moreover have "disk_frame s s4"
    using cache_frameD(1) [OF f1] cache_frameD(1) [OF f2] cache_frameD(1) [OF f3] cache_frameD(1) [OF f4] disk_frame_trans by blast
  ultimately show ?thesis using c4 m1 m2 m3 m4 h1 h2 h3 h4 by (simp add: wpK_def)
qed

lemma cache_log [simp]: "cache dev p (s\<lparr>log := l\<rparr>) V R H = cache dev p s V R H"
  unfolding cache_def lru_list_def disk_idle_def current_def mycpu_def buf_is_def medium_def by simp

lemma medium_log [simp]: "medium (s\<lparr>log := l\<rparr>) = medium s"
  by (simp add: medium_def fun_eq_iff)

end
