(* ===== verification/Log_Commit.thy ===== *)
theory Log_Commit
  imports Log
begin

text \<open>
  What a commit of the log (\<open>commit\<close> of \<open>kernel/log.c\<close>) and a recovery write to the disk, block by
  block, and what a crash between two of these writes leaves for the next boot.
\<close>

section \<open>Sequences of block writes\<close>

definition apply_writes :: "(nat \<times> bytes) list \<Rightarrow> (u32 \<Rightarrow> bytes) \<Rightarrow> u32 \<Rightarrow> bytes" where
  "apply_writes ws m = foldl (\<lambda>m (k, d). m(of_nat k := d)) m ws"

lemma apply_writes_simps [simp]:
  "apply_writes [] m = m" "apply_writes (ws @ ws') m = apply_writes ws' (apply_writes ws m)"
  "apply_writes ((unat a, d) # ws) m = apply_writes ws (m(a := d))"
  by (simp_all add: apply_writes_def)

text \<open>Writes that leave a block alone, and writes to different blocks.\<close>

lemma apply_writes_other:
  "(\<And>i. i \<in> set is \<Longrightarrow> f i \<noteq> a) \<Longrightarrow> apply_writes (map (\<lambda>i. (unat (f i), d i)) is) m a = m a"
  by (induction "is" rule: rev_induct) auto

lemma apply_writes_hit:
  assumes "i \<in> set is" "\<And>j. j \<in> set is \<Longrightarrow> f j = f i \<Longrightarrow> d j = d i"
  shows "apply_writes (map (\<lambda>i. (unat (f i), d i)) is) m (f i) = d i"
  using assms
proof (induction "is" rule: rev_induct)
  case (snoc j "is")
  show ?case
  proof (cases "f j = f i")
    case True
    moreover have "d j = d i" by (rule snoc.prems(2) [OF _ True]) simp
    ultimately show ?thesis by simp
  next
    case False
    then have "i \<in> set is" using snoc.prems(1) by auto
    moreover have "d j = d i" if "j \<in> set is" "f j = f i" for j
      using snoc.prems(2) [OF _ that(2)] that(1) unfolding set_append by blast
    ultimately have "apply_writes (map (\<lambda>i. (unat (f i), d i)) is) m (f i) = d i" by (rule snoc.IH)
    then show ?thesis using False by simp
  qed
qed simp

text \<open>\<open>wrote\<close>: from \<open>s\<close> the code came to \<open>t\<close> writing exactly \<open>ws\<close>, in that order, to the disk
  and into the view.\<close>

definition wrote :: "u32 \<Rightarrow> nat \<Rightarrow> (u32 \<Rightarrow> bytes) \<Rightarrow> 'x klog_scheme \<Rightarrow> (nat \<times> bytes) list \<Rightarrow> (u32 \<Rightarrow> nat) \<Rightarrow> 'x klog_scheme \<Rightarrow> bool" where
  "wrote dev p V s ws R t \<longleftrightarrow> cache dev p t (apply_writes ws V) R {}
     \<and> medium t = apply_writes ws (medium s) \<and> bd_history (blkdev t) = bd_history (blkdev s) @ ws"

lemma wrote_trans:
  assumes "wrote dev p V s ws R t" "wrote dev p (apply_writes ws V) t ws' R' u"
  shows "wrote dev p V s (ws @ ws') R' u"
  using assms by (simp add: wrote_def)

lemma wrote_refl: "cache dev p s V R {} \<Longrightarrow> wrote dev p V s [] R s"
  by (simp add: wrote_def)

lemma wrote_log [simp]:
  "wrote dev p V s ws R (t\<lparr>log := l\<rparr>) = wrote dev p V s ws R t" "wrote dev p V (s\<lparr>log := l\<rparr>) ws R t = wrote dev p V s ws R t"
  by (simp_all add: wrote_def)

lemma wrote_cache: "wrote dev p V s ws R t \<Longrightarrow> cache dev p t (apply_writes ws V) R {}"
  by (simp add: wrote_def)

section \<open>A transaction\<close>

text \<open>Block \<open>i\<close> of the log. A transaction of the blocks \<open>bs\<close> can be committed: they are pairwise
  different, outside the log, and leave a buffer free.\<close>

definition log_at :: "u32 \<Rightarrow> nat \<Rightarrow> u32" where
  "log_at S i = S + of_nat i + 1"

definition log_area :: "u32 \<Rightarrow> u32 set" where
  "log_area S = insert S (log_at S ` {..<LOGSIZE})"

definition txn :: "u32 \<Rightarrow> u32 list \<Rightarrow> bool" where
  "txn S bs \<longleftrightarrow> length bs < LOGSIZE \<and> distinct bs \<and> unat S + LOGSIZE < 2 ^ 31 \<and> (\<forall>b \<in> set bs. unat b < 2 ^ 31 \<and> b \<notin> log_area S)"

lemma unat_log_at: "unat S + LOGSIZE < 2 ^ 31 \<Longrightarrow> i < LOGSIZE \<Longrightarrow> unat (log_at S i) = unat S + i + 1"
  by (simp add: log_at_def unat_word_ariths unat_of_nat LOGSIZE_def MAXOPBLOCKS_def)

lemma log_at_inject:
  assumes "unat S + LOGSIZE < 2 ^ 31"
  shows "i < LOGSIZE \<Longrightarrow> j < LOGSIZE \<Longrightarrow> log_at S i = log_at S j \<longleftrightarrow> i = j" "i < LOGSIZE \<Longrightarrow> log_at S i \<noteq> S"
proof -
  show "log_at S i = log_at S j \<longleftrightarrow> i = j" if "i < LOGSIZE" "j < LOGSIZE"
    using unat_log_at [OF assms that(1)] unat_log_at [OF assms that(2)] by (metis add_left_cancel add_right_cancel)
  show "log_at S i \<noteq> S" if "i < LOGSIZE" using unat_log_at [OF assms that] by (metis add.assoc add_cancel_left_right add_is_0 one_neq_zero)
qed

lemma log_areaI [simp, intro]: "S \<in> log_area S" "i < LOGSIZE \<Longrightarrow> log_at S i \<in> log_area S"
  by (auto simp: log_area_def)

lemma txnD:
  assumes "txn S bs" "i < length bs"
  shows "unat (bs ! i) < 2 ^ 31" "bs ! i \<notin> log_area S" "i < LOGSIZE" "bs ! i \<noteq> S" "j < LOGSIZE \<Longrightarrow> log_at S j \<noteq> bs ! i"
    "j < length bs \<Longrightarrow> bs ! j = bs ! i \<longleftrightarrow> j = i"
proof -
  have t: "length bs < LOGSIZE" "distinct bs" "\<forall>b \<in> set bs. unat b < 2 ^ 31 \<and> b \<notin> log_area S" using assms(1) by (simp_all add: txn_def)
  show "unat (bs ! i) < 2 ^ 31" "bs ! i \<notin> log_area S" using bspec [OF t(3) nth_mem [OF assms(2)]] by simp_all
  then show "bs ! i \<noteq> S" "j < LOGSIZE \<Longrightarrow> log_at S j \<noteq> bs ! i" using log_areaI(1) [of S] log_areaI(2) [of j S] by metis+
  show "i < LOGSIZE" using t(1) assms(2) by simp
  show "j < length bs \<Longrightarrow> bs ! j = bs ! i \<longleftrightarrow> j = i" using nth_eq_iff_index_eq [OF t(2)] assms(2) by blast
qed

text \<open>The writes of the log, and to the home locations.\<close>

definition log_writes :: "u32 \<Rightarrow> u32 list \<Rightarrow> (u32 \<Rightarrow> bytes) \<Rightarrow> nat \<Rightarrow> (nat \<times> bytes) list" where
  "log_writes S bs V k = map (\<lambda>i. (unat (log_at S i), V (bs ! i))) [0..<k]"

definition home_writes :: "u32 \<Rightarrow> (nat \<Rightarrow> u32) \<Rightarrow> (u32 \<Rightarrow> bytes) \<Rightarrow> nat \<Rightarrow> (nat \<times> bytes) list" where
  "home_writes S f V k = map (\<lambda>i. (unat (f i), V (log_at S i))) [0..<k]"

lemma log_writes_Suc: "log_writes S bs V (Suc k) = log_writes S bs V k @ [(unat (log_at S k), V (bs ! k))]"
  by (simp add: log_writes_def)

lemma home_writes_Suc: "home_writes S f V (Suc k) = home_writes S f V k @ [(unat (f k), V (log_at S k))]"
  by (simp add: home_writes_def)

text \<open>The references of a transaction: the blocks of \<open>bs\<close> are pinned once.\<close>

definition pins :: "u32 list \<Rightarrow> u32 \<Rightarrow> nat" where
  "pins bs b = (if b \<in> set bs then 1 else 0)"

lemma pins_set: "{k. 0 < pins bs k} = set bs"
  by (auto simp: pins_def)

lemma pins_card:
  assumes "txn S bs"
  shows "card {k. 0 < pins (drop i bs) k} < NBUF" "finite {k. 0 < pins (drop i bs) k}"
  using assms le_less_trans [OF card_length, of "drop i bs" NBUF] by (auto simp: pins_set txn_def NBUF_def LOGSIZE_def)

text \<open>The log in memory holds the transaction \<open>bs\<close>.\<close>

definition holds_txn :: "log \<Rightarrow> u32 \<Rightarrow> u32 \<Rightarrow> u32 list \<Rightarrow> bool" where
  "holds_txn l dev S bs \<longleftrightarrow> lg_dev l = dev \<and> lg_start l = S \<and> lh_n (lg_lh l) = int (length bs)
     \<and> (\<forall>i < length bs. lh_block (lg_lh l) ! i = bs ! i) \<and> txn S bs"

lemma holds_txnD:
  assumes "holds_txn l dev S bs"
  shows "lg_dev l = dev" "lg_start l = S" "lh_n (lg_lh l) = int (length bs)" "i < length bs \<Longrightarrow> lh_block (lg_lh l) ! i = bs ! i" "txn S bs"
  using assms by (simp_all add: holds_txn_def)

lemma pins_outside: "txn S bs \<Longrightarrow> b \<in> log_area S \<Longrightarrow> pins (drop i bs) b = 0"
  unfolding pins_def txn_def by (auto dest: in_set_dropD)

lemma log_at_bound: "txn S bs \<Longrightarrow> i < LOGSIZE \<Longrightarrow> unat (log_at S i) < 2 ^ 31"
  using unat_log_at [of S i] by (auto simp: txn_def)

lemma write_log_wp:
  assumes "cache dev p s V (pins bs) {}" and h: "holds_txn (log s) dev S bs"
  shows "wpK write_log (\<lambda>_ t. wrote dev p V s (log_writes S bs V (length bs)) (pins bs) t \<and> log t = log s) s"
proof -
  note h = holds_txnD [OF h]
  have "wpK (forK [0..<length bs] write_log_block) (\<lambda>_ t. wrote dev p V s (log_writes S bs V (length bs)) (pins bs) t \<and> log t = log s) s"
  proof (rule wpK_forK [where I = "\<lambda>k t. wrote dev p V s (log_writes S bs V k) (pins bs) t \<and> log t = log s"])
    fix k t
    assume k: "k < length [0..<length bs]" and I: "wrote dev p V s (log_writes S bs V k) (pins bs) t \<and> log t = log s"
    then have k': "k < length bs" "k < LOGSIZE" using txnD(3) [OF h(5)] by simp_all
    let ?V = "apply_writes (log_writes S bs V k) V"
    have V: "?V (bs ! k) = V (bs ! k)"
      unfolding log_writes_def using txnD(5) [OF h(5) k'(1)] k' by (intro apply_writes_other) simp
    have "wpK (write_log_block k) (\<lambda>_ u. wrote dev p ?V t [(unat (log_at S k), V (bs ! k))] (pins bs) u \<and> log u = log t) t"
    proof (rule wpK_mono [OF write_log_block_wp [where V = ?V and R = "pins bs" and L = "log_at S k" and blk = "bs ! k"]])
      show "cache dev p t ?V (pins bs) {}" using I wrote_cache by blast
      show "log_at S k = lg_start (log t) + of_nat k + 1" using I h(2) by (simp add: log_at_def)
      show "pins bs (log_at S k) = 0" using pins_outside [OF h(5), of _ 0] k'(2) by simp
      show "pins bs (bs ! k) = 1" using k'(1) by (simp add: pins_def)
      show "wrote dev p ?V t [(unat (log_at S k), V (bs ! k))] (pins bs) u \<and> log u = log t"
        if "cache dev p u (?V(log_at S k := ?V (bs ! k))) (pins bs) {} \<and> disk_frame t u \<and> medium u = (medium t)(log_at S k := ?V (bs ! k))
          \<and> bd_history (blkdev u) = bd_history (blkdev t) @ [(unat (log_at S k), ?V (bs ! k))]" for u
        using that log_disk_frame [of t u] by (simp add: wrote_def V)
    qed (use I h k' txnD [OF h(5) k'(1)] log_at_bound [OF h(5)] pins_card [OF h(5), of 0] in simp_all)
    then show "wpK (write_log_block ([0..<length bs] ! k)) (\<lambda>_ t. wrote dev p V s (log_writes S bs V (Suc k)) (pins bs) t \<and> log t = log s) t"
      using I k' by (auto simp: log_writes_Suc intro: wrote_trans elim!: wpK_mono)
  qed (use assms in \<open>simp_all add: wrote_refl log_writes_def\<close>)
  then show ?thesis using h(3) by (simp add: write_log_def wp)
qed

text \<open>The references while \<open>install_trans\<close> runs: at a commit it unpins the blocks one by one, at a
  recovery nothing is pinned.\<close>

definition install_pins :: "bool \<Rightarrow> u32 list \<Rightarrow> nat \<Rightarrow> u32 \<Rightarrow> nat" where
  "install_pins recovering bs k = (if recovering then (\<lambda>_. 0) else pins (drop k bs))"

lemma install_pins_Suc:
  assumes "txn S bs" "k < length bs"
  shows "(install_pins recovering bs k)(bs ! k := 0) = install_pins recovering bs (Suc k)"
proof -
  have "drop k bs = bs ! k # drop (Suc k) bs" using Cons_nth_drop_Suc [OF assms(2)] by simp
  moreover have "distinct (drop k bs)" using assms(1) by (simp add: txn_def)
  ultimately show ?thesis by (auto simp: install_pins_def pins_def)
qed

lemma install_pins_card:
  assumes "txn S bs" "k < length bs"
  shows "card {b. 0 < install_pins recovering bs k b} < NBUF" "finite {b. 0 < install_pins recovering bs k b}"
    "if recovering then install_pins recovering bs k (bs ! k) = 0 \<and> Suc (card {b. 0 < install_pins recovering bs k b}) < NBUF
     else install_pins recovering bs k (bs ! k) = 1"
    "b \<in> log_area S \<Longrightarrow> install_pins recovering bs k b = 0"
proof -
  have "bs ! k \<in> set (drop k bs)" using Cons_nth_drop_Suc [OF assms(2)] by (metis list.set_intros(1))
  then show "card {b. 0 < install_pins recovering bs k b} < NBUF" "finite {b. 0 < install_pins recovering bs k b}"
    "if recovering then install_pins recovering bs k (bs ! k) = 0 \<and> Suc (card {b. 0 < install_pins recovering bs k b}) < NBUF
     else install_pins recovering bs k (bs ! k) = 1"
    "b \<in> log_area S \<Longrightarrow> install_pins recovering bs k b = 0"
    using pins_card [OF assms(1), of k] pins_outside [OF assms(1), of b k]
    by (auto simp: install_pins_def pins_def NBUF_def MAXOPBLOCKS_def)
qed

lemma install_trans_wp:
  assumes "cache dev p s V (install_pins recovering bs 0) {}" and h: "holds_txn (log s) dev S bs"
  shows "wpK (install_trans recovering)
    (\<lambda>_ t. wrote dev p V s (home_writes S ((!) bs) V (length bs)) (\<lambda>_. 0) t \<and> log t = log s) s"
proof -
  note h = holds_txnD [OF h]
  let ?R = "install_pins recovering bs"
  have Rn: "?R (length bs) = (\<lambda>_. 0)" by (auto simp: install_pins_def pins_def)
  have "wpK (forK [0..<length bs] (install_block recovering)) (\<lambda>_ t. wrote dev p V s (home_writes S ((!) bs) V (length bs)) (\<lambda>_. 0) t \<and> log t = log s) s"
  proof (rule wpK_forK [where I = "\<lambda>k t. wrote dev p V s (home_writes S ((!) bs) V k) (?R k) t \<and> log t = log s"])
    fix k t
    assume k: "k < length [0..<length bs]" and I: "wrote dev p V s (home_writes S ((!) bs) V k) (?R k) t \<and> log t = log s"
    then have k': "k < length bs" "k < LOGSIZE" using txnD(3) [OF h(5)] by simp_all
    let ?V = "apply_writes (home_writes S ((!) bs) V k) V"
    have V: "?V (log_at S k) = V (log_at S k)"
      unfolding home_writes_def using txnD(5) [OF h(5) _ k'(2)] k' by (intro apply_writes_other) (metis atLeastLessThan_iff less_trans set_upt)
    have "wpK (install_block recovering k) (\<lambda>_ u. wrote dev p ?V t [(unat (bs ! k), V (log_at S k))] (?R (Suc k)) u \<and> log u = log t) t"
    proof (rule wpK_mono [OF install_block_wp [where V = ?V and R = "?R k" and L = "log_at S k" and blk = "bs ! k"]])
      show "cache dev p t ?V (?R k) {}" using I wrote_cache by blast
      show "log_at S k = lg_start (log t) + of_nat k + 1" using I h(2) by (simp add: log_at_def)
      show "wrote dev p ?V t [(unat (bs ! k), V (log_at S k))] (?R (Suc k)) u \<and> log u = log t"
        if "cache dev p u (?V(bs ! k := ?V (log_at S k))) ((?R k)(bs ! k := 0)) {} \<and> disk_frame t u \<and> medium u = (medium t)(bs ! k := ?V (log_at S k))
          \<and> bd_history (blkdev u) = bd_history (blkdev t) @ [(unat (bs ! k), ?V (log_at S k))]" for u
        using that log_disk_frame [of t u] install_pins_Suc [OF h(5) k'(1)] by (simp add: wrote_def V)
      show "if recovering then ?R k (bs ! k) = 0 \<and> Suc (card {b. 0 < ?R k b}) < NBUF else ?R k (bs ! k) = 1"
        by (rule install_pins_card(3) [OF h(5) k'(1)])
    qed (use I h k' txnD [OF h(5) k'(1)] log_at_bound [OF h(5)] install_pins_card(1,2,4) [OF h(5) k'(1)] in simp_all)
    then show "wpK (install_block recovering ([0..<length bs] ! k)) (\<lambda>_ t. wrote dev p V s (home_writes S ((!) bs) V (Suc k)) (?R (Suc k)) t \<and> log t = log s) t"
      using I k' by (auto simp: home_writes_Suc intro: wrote_trans elim!: wpK_mono)
  qed (use assms Rn in \<open>simp_all add: wrote_refl home_writes_def\<close>)
  then show ?thesis using h(3) by (simp add: install_trans_def wp)
qed

section \<open>Replaying the log\<close>

text \<open>What the next boot makes of the blocks outside the log: the blocks named in the header are
  copied from the log to their home locations.\<close>

definition replay :: "u32 \<Rightarrow> (u32 \<Rightarrow> bytes) \<Rightarrow> u32 \<Rightarrow> bytes" where
  "replay S m = apply_writes (home_writes S (head_block (m S)) m (nat (head_n (m S)))) m"

text \<open>The header block \<open>d\<close> names the blocks \<open>bs\<close>.\<close>

definition names :: "bytes \<Rightarrow> u32 list \<Rightarrow> bool" where
  "names d bs \<longleftrightarrow> head_n d = int (length bs) \<and> (\<forall>i < length bs. head_block d i = bs ! i)"

lemma replay_none: "head_n (m S) = 0 \<Longrightarrow> replay S m = m"
  by (simp add: replay_def home_writes_def)

lemma home_writes_cong: "(\<And>i. i < k \<Longrightarrow> f i = g i \<and> V (log_at S i) = W (log_at S i)) \<Longrightarrow> home_writes S f V k = home_writes S g W k"
  by (simp add: home_writes_def)

lemma home_writes_at:
  assumes "txn S bs" "k \<le> length bs"
  shows "i < k \<Longrightarrow> apply_writes (home_writes S ((!) bs) V k) m (bs ! i) = V (log_at S i)"
    "b \<notin> set bs \<Longrightarrow> apply_writes (home_writes S ((!) bs) V k) m b = m b"
proof -
  show "apply_writes (home_writes S ((!) bs) V k) m (bs ! i) = V (log_at S i)" if "i < k"
    unfolding home_writes_def using that txnD(6) [OF assms(1)] assms(2) by (intro apply_writes_hit) auto
  show "apply_writes (home_writes S ((!) bs) V k) m b = m b" if "b \<notin> set bs"
    unfolding home_writes_def using that assms(2) nth_mem [of _ bs] by (intro apply_writes_other) (metis atLeastLessThan_iff order_less_le_trans set_upt)
qed

lemma replay_eq: "names (m S) bs \<Longrightarrow> replay S m = apply_writes (home_writes S ((!) bs) m (length bs)) m"
  unfolding replay_def names_def by (metis (no_types, lifting) home_writes_cong nat_int)

lemma replay_at:
  assumes "txn S bs" "names (m S) bs"
  shows "i < length bs \<Longrightarrow> replay S m (bs ! i) = m (log_at S i)" "b \<notin> set bs \<Longrightarrow> replay S m b = m b"
  using home_writes_at [OF assms(1) order_refl] replay_eq [of m S bs, OF assms(2)] by simp_all

text \<open>A crash while the blocks are copied home loses nothing: the replay starts over.\<close>

lemma replay_install:
  assumes "txn S bs" "names (m S) bs" "k \<le> length bs"
  shows "replay S (apply_writes (home_writes S ((!) bs) m k) m) = replay S m"
proof
  fix b
  let ?m = "apply_writes (home_writes S ((!) bs) m k) m"
  have out: "?m a = m a" if "a \<in> log_area S" for a
    using home_writes_at(2) [OF assms(1,3)] that assms(1) unfolding txn_def by blast
  have n: "names (?m S) bs" using assms(2) out by simp
  show "replay S ?m b = replay S m b"
  proof (cases "b \<in> set bs")
    case True
    then obtain i where i: "i < length bs" "b = bs ! i" by (metis in_set_conv_nth)
    moreover have "i < LOGSIZE" using txnD(3) [OF assms(1) i(1)] .
    ultimately show ?thesis using replay_at(1) [OF assms(1)] assms(2) n out by simp
  next
    case False
    then show ?thesis using replay_at(2) [OF assms(1)] home_writes_at(2) [OF assms(1,3)] assms(2) n by simp
  qed
qed

lemma names_head_store:
  assumes "length d = BSIZE" "txn S bs" "\<And>i. i < length bs \<Longrightarrow> bl ! i = bs ! i"
  shows "names (head_store d bl (length bs)) bs"
  using assms head_store_head [where d = d and n = "length bs" and bs = bl] by (auto simp: names_def txn_def BSIZE_def LOGSIZE_def MAXOPBLOCKS_def)

lemma write_head_wrote:
  assumes "cache dev p s V R {}" "lg_dev (log s) = dev" "lg_start (log s) = S" "unat S < 2 ^ 31" "R S = 0"
    and "card {k. 0 < R k} < NBUF" "finite {k. 0 < R k}" "lh_n (lg_lh (log s)) = int n" "n \<le> LOGSIZE"
  shows "wpK write_head (\<lambda>_ t. wrote dev p V s [(unat S, head_store (V S) (lh_block (lg_lh (log s))) n)] R t \<and> log t = log s) s"
  using write_head_wp [OF assms refl] by (rule wpK_mono) (simp add: wrote_def log_disk_frame)

section \<open>Commit\<close>

text \<open>The writes of a commit: the log, the header, the home locations, the empty header.\<close>

definition commit_view :: "u32 \<Rightarrow> u32 list \<Rightarrow> (u32 \<Rightarrow> bytes) \<Rightarrow> u32 list \<Rightarrow> u32 \<Rightarrow> bytes" where
  "commit_view S bs V bl = (apply_writes (log_writes S bs V (length bs)) V)(S := head_store (V S) bl (length bs))"

definition commit_writes :: "u32 \<Rightarrow> u32 list \<Rightarrow> (u32 \<Rightarrow> bytes) \<Rightarrow> u32 list \<Rightarrow> (nat \<times> bytes) list" where
  "commit_writes S bs V bl = log_writes S bs V (length bs) @ [(unat S, head_store (V S) bl (length bs))]
     @ home_writes S ((!) bs) (commit_view S bs V bl) (length bs) @ [(unat S, head_store (head_store (V S) bl (length bs)) bl 0)]"

lemma log_writes_at:
  assumes "txn S bs" "k \<le> length bs"
  shows "i < k \<Longrightarrow> apply_writes (log_writes S bs V k) m (log_at S i) = V (bs ! i)"
    "b \<notin> log_area S \<or> b = S \<Longrightarrow> apply_writes (log_writes S bs V k) m b = m b"
proof -
  have S: "unat S + LOGSIZE < 2 ^ 31" "length bs < LOGSIZE" using assms(1) by (simp_all add: txn_def)
  show "apply_writes (log_writes S bs V k) m (log_at S i) = V (bs ! i)" if "i < k"
    unfolding log_writes_def
  proof (rule apply_writes_hit)
    fix j assume j: "j \<in> set [0..<k]" "log_at S j = log_at S i"
    then have "j = i" using log_at_inject(1) [OF S(1)] S(2) that assms(2) by simp
    then show "V (bs ! j) = V (bs ! i)" by simp
  qed (use that in simp)
  have "log_at S j \<noteq> b" if "b \<notin> log_area S \<or> b = S" "j < k" for j
    using that log_at_inject(2) [OF S(1), of j] S(2) assms(2) by auto
  then show "b \<notin> log_area S \<or> b = S \<Longrightarrow> apply_writes (log_writes S bs V k) m b = m b"
    unfolding log_writes_def by (intro apply_writes_other) simp
qed

lemma commit_view_at:
  assumes "txn S bs"
  shows "i < length bs \<Longrightarrow> commit_view S bs V bl (log_at S i) = V (bs ! i)" "commit_view S bs V bl S = head_store (V S) bl (length bs)"
    "b \<notin> log_area S \<Longrightarrow> commit_view S bs V bl b = V b"
proof -
  have "log_at S i \<noteq> S" if "i < length bs" using that assms log_at_inject(2) [of S i] by (simp add: txn_def)
  then show "i < length bs \<Longrightarrow> commit_view S bs V bl (log_at S i) = V (bs ! i)"
    using log_writes_at(1) [OF assms order_refl] by (simp add: commit_view_def)
  show "commit_view S bs V bl S = head_store (V S) bl (length bs)" by (simp add: commit_view_def)
  show "b \<notin> log_area S \<Longrightarrow> commit_view S bs V bl b = V b"
    using log_writes_at(2) [OF assms order_refl, of b V V] by (auto simp: commit_view_def)
qed

lemma commit_wrote:
  assumes "cache dev p s V (pins bs) {}" and h: "holds_txn (log s) dev S bs" and "bs \<noteq> []"
  shows "\<exists>t. commit s = Inr ((), t) \<and> wrote dev p V s (commit_writes S bs V (lh_block (lg_lh (log s)))) (\<lambda>_. 0) t
    \<and> log t = (log s)\<lparr>lg_lh := (lg_lh (log s))\<lparr>lh_n := 0\<rparr>\<rparr>"
proof -
  note h' = holds_txnD [OF h]
  let ?bl = "lh_block (lg_lh (log s))" let ?lw = "log_writes S bs V (length bs)"
  have S: "unat S < 2 ^ 31" "length bs \<le> LOGSIZE" "pins bs S = 0"
    using h'(5) pins_outside [OF h'(5), of S 0] by (simp_all add: txn_def)
  obtain t1 where t1: "write_log s = Inr ((), t1)" "wrote dev p V s ?lw (pins bs) t1" "log t1 = log s"
    using wpK_unit_ex [OF write_log_wp [OF assms(1) h]] by blast
  have V1: "apply_writes ?lw V S = V S" using log_writes_at(2) [OF h'(5) order_refl] by simp
  obtain t2 where t2: "write_head t1 = Inr ((), t2)" "wrote dev p (apply_writes ?lw V) t1 [(unat S, head_store (V S) ?bl (length bs))] (pins bs) t2" "log t2 = log s"
    using wpK_unit_ex [OF write_head_wrote [OF wrote_cache [OF t1(2)], of S "length bs"]] t1(3) h' S pins_card [OF h'(5), of 0]
    by (auto simp: V1)
  have w2: "wrote dev p V s (?lw @ [(unat S, head_store (V S) ?bl (length bs))]) (pins bs) t2" by (rule wrote_trans [OF t1(2) t2(2)])
  have V2: "apply_writes (?lw @ [(unat S, head_store (V S) ?bl (length bs))]) V = commit_view S bs V ?bl" by (simp add: commit_view_def)
  let ?hw = "home_writes S ((!) bs) (commit_view S bs V ?bl) (length bs)"
  have "cache dev p t2 (commit_view S bs V ?bl) (install_pins False bs 0) {}" using wrote_cache [OF w2] by (simp add: V2 [simplified] install_pins_def)
  from wpK_unit_ex [OF install_trans_wp [OF this]] h t2(3) obtain t3 where
    t3: "install_trans False t2 = Inr ((), t3)" "wrote dev p (commit_view S bs V ?bl) t2 ?hw (\<lambda>_. 0) t3" "log t3 = log s" by auto
  let ?t4 = "t3\<lparr>log := (log s)\<lparr>lg_lh := (lg_lh (log s))\<lparr>lh_n := 0\<rparr>\<rparr>\<rparr>"
  have "S \<notin> set bs" using h'(5) by (auto simp: txn_def)
  then have V3: "apply_writes ?hw (commit_view S bs V ?bl) S = head_store (V S) ?bl (length bs)"
    using home_writes_at(2) [OF h'(5) order_refl] commit_view_at(2) [OF h'(5)] by simp
  have c3: "cache dev p ?t4 (apply_writes ?hw (commit_view S bs V ?bl)) (\<lambda>_. 0) {}" using wrote_cache [OF t3(2)] by simp
  obtain t5 where t5: "write_head ?t4 = Inr ((), t5)" "log t5 = log ?t4"
    "wrote dev p (apply_writes ?hw (commit_view S bs V ?bl)) t3 [(unat S, head_store (head_store (V S) ?bl (length bs)) ?bl 0)] (\<lambda>_. 0) t5"
    using wpK_unit_ex [OF write_head_wrote [OF c3, of S 0]] h' S(1) by (auto simp: V3 NBUF_def MAXOPBLOCKS_def)
  have "wrote dev p V s (commit_writes S bs V ?bl) (\<lambda>_. 0) t5"
    using wrote_trans [OF wrote_trans [OF w2 t3(2) [folded V2]]] t5(3) by (simp add: commit_writes_def commit_view_def)
  moreover have "commit s = Inr ((), t5)"
    using h'(3) assms(3) t1(1) t2(1) t3(1,3) t5(1)
    by (simp add: commit_def bindK_def thenK_def getK_def set_lh_def set_log_def modifyK_def)
  ultimately show ?thesis using t5(2) by auto
qed

lemma commit_prefixes:
  assumes "txn S bs" "\<And>i. i < length bs \<Longrightarrow> bl ! i = bs ! i" "head_n (m S) = 0" "V S = m S" "length (m S) = BSIZE"
    and "\<And>b. b \<notin> set bs \<Longrightarrow> V b = m b" "b \<notin> log_area S" "k \<le> length (commit_writes S bs V bl)"
  shows "replay S (apply_writes (take k (commit_writes S bs V bl)) m) b = (if k \<le> length bs then m b else V b)"
proof -
  let ?n = "length bs" let ?lw = "log_writes S bs V" let ?W = "commit_view S bs V bl"
  let ?h = "head_store (V S) bl ?n"
  let ?hw = "home_writes S ((!) bs) ?W"
  have len: "length (?lw j) = j" "length (?hw j) = j" for j by (simp_all add: log_writes_def home_writes_def)
  have tk: "take j (?lw ?n) = ?lw j" "take j (?hw ?n) = ?hw j" if "j \<le> ?n" for j
    using that by (simp_all add: log_writes_def home_writes_def take_map)
  define m2 where "m2 = (apply_writes (?lw ?n) m)(S := ?h)"
  have m2: "m2 (log_at S i) = V (bs ! i)" if "i < ?n" for i
    using that log_writes_at(1) [OF assms(1) order_refl] log_at_inject(2) [of S i] assms(1) by (simp add: m2_def txn_def)
  have m2b: "m2 b = m b" using log_writes_at(2) [OF assms(1) order_refl] assms(7) by (auto simp: m2_def)
  have hw: "?hw j = home_writes S ((!) bs) m2 j" if "j \<le> ?n" for j
    using that m2 commit_view_at(1) [OF assms(1)] by (intro home_writes_cong) simp
  have names2: "names (m2 S) bs" using names_head_store [of "m S" S bs bl] assms(1,2,4,5) by (simp add: m2_def)
  have V2: "replay S m2 b = V b"
  proof (cases "b \<in> set bs")
    case True
    then obtain i where "i < ?n" "b = bs ! i" by (metis in_set_conv_nth)
    then show ?thesis using replay_at(1) [where m = m2, OF assms(1) names2] m2 by simp
  next
    case False
    then show ?thesis using replay_at(2) [where m = m2, OF assms(1) names2] m2b assms(6) by simp
  qed
  consider "k \<le> ?n" | j where "k = Suc (?n + j)" "j \<le> ?n" | "k = Suc (Suc (?n + ?n))"
  proof (cases "k \<le> ?n \<or> k = Suc (Suc (?n + ?n))")
    case False
    have "length (commit_writes S bs V bl) = Suc (Suc (?n + ?n))" by (simp add: commit_writes_def len)
    then have "k = Suc (?n + (k - Suc ?n))" "k - Suc ?n \<le> ?n" using False assms(8) by linarith+
    then show ?thesis by (rule that(2))
  qed (use that in blast)
  then show ?thesis
  proof cases
    case 1
    then have "apply_writes (take k (commit_writes S bs V bl)) m = apply_writes (?lw k) m" by (simp add: commit_writes_def len tk)
    moreover have "apply_writes (?lw k) m S = m S" "apply_writes (?lw k) m b = m b" using log_writes_at(2) [OF assms(1) 1] assms(7) by simp_all
    ultimately show ?thesis using 1 assms(3) replay_none [of "apply_writes (?lw k) m" S] by simp
  next
    case (2 j)
    then have "apply_writes (take k (commit_writes S bs V bl)) m = apply_writes (?hw j) m2" by (simp add: commit_writes_def len tk m2_def)
    then show ?thesis using 2 hw replay_install [where m = m2, OF assms(1) names2, of j] V2 by simp
  next
    case 3
    let ?m4 = "(apply_writes (?hw ?n) m2)(S := head_store ?h bl 0)"
    have "apply_writes (take k (commit_writes S bs V bl)) m = ?m4" using 3 by (simp add: commit_writes_def len m2_def)
    moreover have "head_n (?m4 S) = 0"
      using head_store_head(3) [of "V S" ?n bl] head_store_head(1) [of ?h 0 bl] assms(1,4,5) by (simp add: txn_def)
    moreover have "?m4 b = V b" using V2 replay_eq [of m2 S bs, OF names2] hw assms(7) by auto
    ultimately show ?thesis using 3 replay_none [of ?m4 S] by simp
  qed
qed

text \<open>C1: Crash safety of \<open>commit\<close>. A commit of a transaction over the blocks \<open>bs\<close> terminates and
  issues a fixed sequence of block writes \<open>ws\<close>. Wherever a crash cuts this sequence, replaying the
  log gives either the old contents of all blocks, up to and including the last log block
  written, or the new contents of all blocks, from the header write on. Without a crash all new
  contents are in their home locations, the header is empty and every buffer is unpinned.\<close>

theorem commit_atomic:
  assumes "cache dev p s V (pins bs) {}" and "holds_txn (log s) dev S bs" "bs \<noteq> []"
    and "head_n (medium s S) = 0" "length (medium s S) = BSIZE"
  shows "\<exists>t ws. commit s = Inr ((), t) \<and> bd_history (blkdev t) = bd_history (blkdev s) @ ws \<and> length bs < length ws
    \<and> (\<forall>k \<le> length ws. \<forall>b. b \<notin> log_area S \<longrightarrow>
        replay S (apply_writes (take k ws) (medium s)) b = (if k \<le> length bs then medium s b else V b))
    \<and> (\<forall>b. b \<notin> log_area S \<longrightarrow> medium t b = V b)
    \<and> head_n (medium t S) = 0 \<and> lh_n (lg_lh (log t)) = 0 \<and> cache dev p t (medium t) (\<lambda>_. 0) {}"
proof -
  note h = holds_txnD [OF assms(2)]
  let ?bl = "lh_block (lg_lh (log s))"
  let ?ws = "commit_writes S bs V ?bl"
  obtain t where t: "commit s = Inr ((), t)" "wrote dev p V s ?ws (\<lambda>_. 0) t" "log t = (log s)\<lparr>lg_lh := (lg_lh (log s))\<lparr>lh_n := 0\<rparr>\<rparr>"
    using commit_wrote [OF assms(1-3)] by blast
  have m: "medium t = apply_writes ?ws (medium s)" using t(2) by (simp add: wrote_def)
  have clean: "V b = medium s b" if "b \<notin> set bs" for b
    using cache_facts(6) [OF assms(1), of b] that by (simp add: pins_def)
  have "S \<notin> set bs" using h(5) by (auto simp: txn_def)
  then have VS: "V S = medium s S" by (rule clean)
  have pre: "replay S (apply_writes (take k ?ws) (medium s)) b = (if k \<le> length bs then medium s b else V b)"
    if "b \<notin> log_area S" "k \<le> length ?ws" for b k
    using commit_prefixes [OF h(5) h(4) assms(4) VS assms(5) clean that] by simp
  have len: "length bs < length ?ws" by (simp add: commit_writes_def home_writes_def log_writes_def)
  have hd0: "head_n (medium t S) = 0"
    using head_store_head(3) [of "V S" "length bs" ?bl] head_store_head(1) [of "head_store (V S) ?bl (length bs)" 0 ?bl] h(5) VS assms(5)
    by (simp add: m commit_writes_def txn_def)
  then have "medium t b = V b" if "b \<notin> log_area S" for b
    using pre [OF that order_refl] len replay_none [of "medium t" S] by (simp add: m)
  moreover have "cache dev p t (medium t) (\<lambda>_. 0) {}"
  proof -
    have c: "cache dev p t (apply_writes ?ws V) (\<lambda>_. 0) {}" using t(2) by (simp add: wrote_def)
    then have "apply_writes ?ws V = medium t" using cache_facts(6) [OF c] by auto
    then show ?thesis using c by simp
  qed
  ultimately show ?thesis using t pre len hd0 by (intro exI [of _ t] exI [of _ ?ws]) (simp add: wrote_def)
qed

section \<open>Recovery\<close>

lemma read_head_loop:
  assumes "n \<le> LOGSIZE" "length (lh_block (lg_lh (log s))) = LOGSIZE"
  shows "forK [0..<n] (\<lambda>i. if LOGSIZE \<le> i then undefK ''log.lh.block'' else set_lh (\<lambda>h. h\<lparr>lh_block := (lh_block h)[i := f i]\<rparr>)) s
    = Inr ((), s\<lparr>log := (log s)\<lparr>lg_lh := (lg_lh (log s))\<lparr>lh_block := map f [0..<n] @ drop n (lh_block (lg_lh (log s)))\<rparr>\<rparr>\<rparr>)"
    (is "forK [0..<n] ?f s = _")
proof -
  have "wpK (forK [0..<n] ?f) (\<lambda>_ t. t = s\<lparr>log := (log s)\<lparr>lg_lh := (lg_lh (log s))\<lparr>lh_block := map f [0..<n] @ drop n (lh_block (lg_lh (log s)))\<rparr>\<rparr>\<rparr>) s"
  proof (rule wpK_forK [where I = "\<lambda>k t. t = s\<lparr>log := (log s)\<lparr>lg_lh := (lg_lh (log s))\<lparr>lh_block := map f [0..<k] @ drop k (lh_block (lg_lh (log s)))\<rparr>\<rparr>\<rparr>"])
    fix k t
    assume k: "k < length [0..<n]" and t: "t = s\<lparr>log := (log s)\<lparr>lg_lh := (lg_lh (log s))\<lparr>lh_block := map f [0..<k] @ drop k (lh_block (lg_lh (log s)))\<rparr>\<rparr>\<rparr>"
    then have "(map f [0..<k] @ drop k (lh_block (lg_lh (log s))))[k := f k] = map f [0..<Suc k] @ drop (Suc k) (lh_block (lg_lh (log s)))"
      using assms by (simp add: list_update_append Cons_nth_drop_Suc [symmetric])
    then show "wpK (?f ([0..<n] ! k)) (\<lambda>_ t. t = s\<lparr>log := (log s)\<lparr>lg_lh := (lg_lh (log s))\<lparr>lh_block := map f [0..<Suc k] @ drop (Suc k) (lh_block (lg_lh (log s)))\<rparr>\<rparr>\<rparr>) t"
      using k t assms by (simp add: wpK_def set_lh_def set_log_def modifyK_def)
  qed simp_all
  then show ?thesis by (auto simp: wpK_def split: sum.splits)
qed

lemma read_head_wp:
  assumes c: "cache dev p s V (\<lambda>_. 0) {}" and l: "lg_dev (log s) = dev" "lg_start (log s) = S" "length (lh_block (lg_lh (log s))) = LOGSIZE"
    and "txn S bs" "names (V S) bs"
  shows "\<exists>t. read_head s = Inr ((), t) \<and> wrote dev p V s [] (\<lambda>_. 0) t \<and> holds_txn (log t) dev S bs"
proof -
  have S: "unat S < 2 ^ 31" "length bs \<le> LOGSIZE" using assms(5) by (simp_all add: txn_def)
  obtain b s1 where r1: "bread dev S s = Inr (b, s1)" and b1: "buf_is s1 dev b S" and c1: "cache dev p s1 V ((\<lambda>_. 0)(S := Suc 0)) {S}"
    and f1: "cache_frame dev (\<lambda>_. 0) s s1" and m1: "medium s1 = medium s" and h1: "bd_history (blkdev s1) = bd_history (blkdev s)"
    using wpK_ex [OF bread_wp [OF c, of S]] S(1) by (auto simp: NBUF_def MAXOPBLOCKS_def)
  have d: "b_data (bufs s1 b) = V S" by (rule data_of [OF c1 b1])
  let ?l = "(log s)\<lparr>lg_lh := (lg_lh (log s))\<lparr>lh_n := int (length bs), lh_block := map (head_block (V S)) [0..<length bs] @ drop (length bs) (lh_block (lg_lh (log s)))\<rparr>\<rparr>"
  let ?s2 = "s1\<lparr>log := ?l\<rparr>"
  have c2: "cache dev p ?s2 V ((\<lambda>_. 0)(S := Suc 0)) {S}" and b2: "buf_is ?s2 dev b S" using c1 b1 by (simp_all add: buf_is_def)
  have "V S = medium ?s2 S" using cache_facts(6) [OF c] m1 by simp
  from wpK_unit_ex [OF brelse_wp [OF c2 b2]] this obtain s3 where r3: "brelse b ?s2 = Inr ((), s3)" and c3: "cache dev p s3 V (\<lambda>_. 0) {}"
    and f3: "cache_frame dev ((\<lambda>_. 0)(S := Suc 0)) ?s2 s3" and m3: "medium s3 = medium ?s2" and h3: "bd_history (blkdev s3) = bd_history (blkdev ?s2)"
    by (auto simp: fun_upd_idem)
  have n: "head_n (V S) = int (length bs)" and nb: "\<And>i. i < length bs \<Longrightarrow> head_block (V S) i = bs ! i" using assms(6) by (simp_all add: names_def)
  have log1: "log s1 = log s" by (rule log_cache_frame [OF f1])
  have "read_head s = Inr ((), s3)"
    using r1 r3 l n read_head_loop [of "length bs" "s1\<lparr>log := (log s)\<lparr>lg_lh := (lg_lh (log s))\<lparr>lh_n := int (length bs)\<rparr>\<rparr>\<rparr>" "head_block (b_data (bufs s1 b))"] S(2) log1 d
    by (simp add: read_head_def bindK_def thenK_def getK_def get_buf_def set_lh_def [of "\<lambda>h. h\<lparr>lh_n := _\<rparr>"] set_log_def modifyK_def)
  moreover have "log s3 = ?l" using log_cache_frame [OF f3] by simp
  then have "holds_txn (log s3) dev S bs" using l assms(5) nb by (simp add: holds_txn_def nth_append)
  ultimately show ?thesis using c3 m1 m3 h1 h3 by (simp add: wrote_def)
qed

text \<open>C6: Correctness of recovery. On a disk whose header names the committed blocks \<open>bs\<close>,
  \<open>recover_from_log\<close> copies every one of them home and empties the header: each block outside the
  log ends with the contents that replaying the log prescribes. A crash at any point of the
  recovery leaves a disk that replays to the same contents, so recovery can be repeated.\<close>

theorem recovery_correct:
  assumes "cache dev p s (medium s) (\<lambda>_. 0) {}"
    and "lg_dev (log s) = dev" "lg_start (log s) = S" "length (lh_block (lg_lh (log s))) = LOGSIZE"
    and "txn S bs" "names (medium s S) bs" "length (medium s S) = BSIZE"
  shows "\<exists>t ws. recover_from_log s = Inr ((), t) \<and> bd_history (blkdev t) = bd_history (blkdev s) @ ws
    \<and> (\<forall>b. b \<notin> log_area S \<longrightarrow> medium t b = replay S (medium s) b)
    \<and> (\<forall>k \<le> length ws. \<forall>b. b \<notin> log_area S \<longrightarrow> replay S (apply_writes (take k ws) (medium s)) b = replay S (medium s) b)
    \<and> head_n (medium t S) = 0 \<and> lh_n (lg_lh (log t)) = 0 \<and> cache dev p t (medium t) (\<lambda>_. 0) {}"
proof -
  let ?m = "medium s"
  obtain t1 where t1: "read_head s = Inr ((), t1)" "wrote dev p ?m s [] (\<lambda>_. 0) t1" "holds_txn (log t1) dev S bs"
    using read_head_wp [OF assms(1-6)] by blast
  note h = holds_txnD [OF t1(3)]
  have S: "unat S < 2 ^ 31" "S \<notin> set bs" using assms(5) by (auto simp: txn_def)
  let ?hw = "home_writes S ((!) bs) ?m (length bs)"
  have "cache dev p t1 ?m (install_pins True bs 0) {}" using wrote_cache [OF t1(2)] by (simp add: install_pins_def)
  from wpK_unit_ex [OF install_trans_wp [OF this t1(3)]] obtain t2 where
    t2: "install_trans True t1 = Inr ((), t2)" "wrote dev p ?m t1 ?hw (\<lambda>_. 0) t2" "log t2 = log t1" by auto
  let ?t3 = "t2\<lparr>log := (log t1)\<lparr>lg_lh := (lg_lh (log t1))\<lparr>lh_n := 0\<rparr>\<rparr>\<rparr>" and ?bl = "lh_block (lg_lh (log t1))"
  have VS: "apply_writes ?hw ?m S = ?m S" using home_writes_at(2) [OF assms(5) order_refl S(2)] .
  have c3: "cache dev p ?t3 (apply_writes ?hw ?m) (\<lambda>_. 0) {}" using wrote_cache [OF t2(2)] by simp
  let ?ws = "?hw @ [(unat S, head_store (?m S) ?bl 0)]"
  obtain t4 where t4: "write_head ?t3 = Inr ((), t4)" "log t4 = log ?t3"
    "wrote dev p (apply_writes ?hw ?m) t2 [(unat S, head_store (?m S) ?bl 0)] (\<lambda>_. 0) t4"
    using wpK_unit_ex [OF write_head_wrote [OF c3, of S 0]] h S(1) by (auto simp: VS NBUF_def MAXOPBLOCKS_def)
  have w: "wrote dev p ?m s ?ws (\<lambda>_. 0) t4" using wrote_trans [OF t1(2), simplified, OF wrote_trans [OF t2(2) t4(3)]] .
  have run: "recover_from_log s = Inr ((), t4)"
    using t1(1) t2 t4(1) by (simp add: recover_from_log_def bindK_def thenK_def set_lh_def set_log_def modifyK_def)
  have len: "length ?hw = length bs" and tk: "take k ?hw = home_writes S ((!) bs) ?m k" if "k \<le> length bs" for k
    using that by (simp_all add: home_writes_def take_map)
  have m4: "medium t4 = apply_writes ?ws ?m" using w by (simp add: wrote_def)
  have hd0: "head_n (medium t4 S) = 0" using head_store_head(1) [of "?m S" 0 ?bl] assms(7) by (simp add: m4)
  have fin: "medium t4 b = replay S ?m b" if "b \<notin> log_area S" for b
    using that replay_eq [of ?m S bs, OF assms(6)] by (auto simp: m4)
  have "replay S (apply_writes (take k ?ws) ?m) b = replay S ?m b" if "k \<le> length ?ws" "b \<notin> log_area S" for k b
  proof (cases "k \<le> length bs")
    case True
    then show ?thesis using replay_install [where m = ?m, OF assms(5,6), of k] len tk by simp
  next
    case False
    then have "take k ?ws = ?ws" using that(1) len [OF order_refl] by simp
    then show ?thesis using fin [OF that(2)] hd0 m4 replay_none [of "medium t4" S] by simp
  qed
  moreover have "cache dev p t4 (medium t4) (\<lambda>_. 0) {}" using w by (simp add: wrote_def)
  ultimately show ?thesis using run w fin hd0 t4(2) by (intro exI [of _ t4] exI [of _ ?ws]) (simp add: wrote_def)
qed

section \<open>A disk with a log\<close>

definition some_log :: "u32 list \<Rightarrow> log" where
  "some_log bs = \<lparr>lg_start = 2, lg_size = 30, lg_outstanding = 0, lg_committing = False, lg_dev = 1,
     lg_lh = \<lparr>lh_n = int (length bs), lh_block = bs @ replicate (LOGSIZE - length bs) 0\<rparr>\<rparr>"

definition log_disk :: "(nat \<Rightarrow> bytes) \<Rightarrow> log \<Rightarrow> klog" where
  "log_disk m l = kdisk.extend (running_disk m) \<lparr>log = l\<rparr>"

lemma log_disk_facts:
  "disk_idle (log_disk m l)" "current (log_disk m l) 0" "medium (log_disk m l) bn = m (unat bn)"
  "b_dev (bufs (log_disk m l) i) = 0" "b_refcnt (bufs (log_disk m l) i) = 0" "log (log_disk m l) = l"
  using running_disk_facts [of m]
  by (simp_all add: log_disk_def kdisk.defs disk_idle_def current_def mycpu_def medium_def)

lemma log_disk_cache:
  "\<exists>t. binit (log_disk m l) = Inr ((), t) \<and> cache 1 0 t (medium t) (\<lambda>_. 0) {} \<and> (\<forall>bn. medium t bn = m (unat bn)) \<and> log t = l"
proof -
  have "wpK binit (\<lambda>_ t. cache 1 0 t (medium t) (\<lambda>_. 0) {} \<and> disk_frame (log_disk m l) t \<and> medium t = medium (log_disk m l)
    \<and> bd_history (blkdev t) = bd_history (blkdev (log_disk m l))) (log_disk m l)"
    by (rule binit_wp) (simp_all add: log_disk_facts)
  from wpK_unit_ex [OF this] show ?thesis by (auto simp: log_disk_facts log_disk_frame)
qed

lemma txn_50: "txn 2 [50]"
  by (auto simp: txn_def log_area_def log_at_def LOGSIZE_def MAXOPBLOCKS_def word_unat_eq_iff unat_word_ariths unat_of_nat)

lemma holds_txn_50: "holds_txn (some_log [50]) 1 2 [50]"
  by (simp add: holds_txn_def txn_50 some_log_def)

text \<open>A modified and pinned buffer: block 50 will be full of sevens.\<close>

lemma pinned_block:
  "\<exists>s :: klog. cache 1 0 s ((\<lambda>_. replicate BSIZE 0)(50 := replicate BSIZE 7)) (pins [50]) {}
    \<and> medium s = (\<lambda>_. replicate BSIZE 0) \<and> log s = some_log [50]"
proof -
  obtain s0 :: klog where c0: "cache 1 0 s0 (\<lambda>_. replicate BSIZE 0) (\<lambda>_. 0) {}" and m0: "medium s0 = (\<lambda>_. replicate BSIZE 0)" and l0: "log s0 = some_log [50]"
  proof -
    obtain t :: klog where t: "cache 1 0 t (medium t) (\<lambda>_. 0) {}" "\<forall>bn. medium t bn = replicate BSIZE 0" "log t = some_log [50]"
      using log_disk_cache [of "\<lambda>_. replicate BSIZE 0" "some_log [50]"] by blast
    moreover have "medium t = (\<lambda>_. replicate BSIZE 0)" using t(2) by auto
    ultimately show ?thesis using that by metis
  qed
  obtain b s1 where b1: "buf_is s1 1 b 50" and c1: "cache 1 0 s1 (\<lambda>_. replicate BSIZE 0) ((\<lambda>_. 0)(50 := Suc 0)) {50}"
    and f1: "cache_frame 1 (\<lambda>_. 0) s0 s1" and m1: "medium s1 = medium s0"
    using wpK_ex [OF bread_wp [OF c0, of 50]] by (auto simp: NBUF_def MAXOPBLOCKS_def)
  let ?V = "(\<lambda>_. replicate BSIZE 0)(50 := replicate BSIZE 7)"
  obtain s2 where c2: "cache 1 0 s2 ?V ((\<lambda>_. 0)(50 := Suc 0)) {50}" and f2: "cache_frame 1 ((\<lambda>_. 0)(50 := Suc 0)) s1 s2" and m2: "medium s2 = medium s1"
    using wpK_unit_ex [OF buf_store_wp [OF c1 b1, of "replicate BSIZE 7"]] by auto
  have b2: "buf_is s2 1 b 50" using cache_frameD(2) [OF f2 b1] by simp
  obtain s3 where c3: "cache 1 0 s3 ?V ((\<lambda>_. 0)(50 := Suc (Suc 0))) {50}" and f3: "cache_frame 1 ((\<lambda>_. 0)(50 := Suc 0)) s2 s3" and m3: "medium s3 = medium s2"
    using wpK_unit_ex [OF bpin_wp [OF c2 b2]] by auto
  have b3: "buf_is s3 1 b 50" using cache_frameD(2) [OF f3 b2] by simp
  obtain s4 where c4: "cache 1 0 s4 ?V ((\<lambda>_. 0)(50 := Suc 0)) {}" and f4: "cache_frame 1 ((\<lambda>_. 0)(50 := Suc (Suc 0))) s3 s4" and m4: "medium s4 = medium s3"
    using wpK_unit_ex [OF brelse_wp [OF c3 b3]] by auto
  have "(\<lambda>_. 0)(50 := Suc 0) = pins [50]" by (auto simp: pins_def)
  then show ?thesis using c4 m0 m1 m2 m3 m4 l0 log_cache_frame [OF f1] log_cache_frame [OF f2] log_cache_frame [OF f3] log_cache_frame [OF f4] by auto
qed

theorem commit_atomic_witness:
  "\<exists>s t. log s = some_log [50] \<and> medium s (50 :: u32) = replicate BSIZE 0
    \<and> commit (s :: klog) = Inr ((), t) \<and> medium t 50 = replicate BSIZE 7"
proof -
  obtain s :: klog where s: "cache 1 0 s ((\<lambda>_. replicate BSIZE 0)(50 := replicate BSIZE 7)) (pins [50]) {}"
    "medium s = (\<lambda>_. replicate BSIZE 0)" "log s = some_log [50]" using pinned_block by blast
  have "head_n (medium s 2) = 0" by (simp add: s(2) head_n_def get_le_def BSIZE_def)
  then show ?thesis using commit_atomic [OF s(1), of 2] s(2,3) holds_txn_50 txn_50 by (auto simp: txn_def)
qed

definition committed :: "nat \<Rightarrow> bytes" where
  "committed = (\<lambda>_. replicate BSIZE 0)(2 := head_store (replicate BSIZE 0) [50] 1, 3 := replicate BSIZE 7)"

theorem recovery_correct_witness:
  "\<exists>s t. (\<forall>b. medium s b = committed (unat b)) \<and> recover_from_log (s :: klog) = Inr ((), t) \<and> medium t 50 = replicate BSIZE 7"
proof -
  obtain s :: klog where s: "cache 1 0 s (medium s) (\<lambda>_. 0) {}" "\<forall>bn. medium s bn = committed (unat bn)" "log s = some_log []"
    using log_disk_cache [of committed "some_log []"] by blast
  have m: "medium s 2 = head_store (replicate BSIZE 0) [50] (length [50 :: u32])" using s(2) by (simp add: committed_def)
  have n: "names (medium s 2) [50]" unfolding m by (rule names_head_store [OF _ txn_50]) simp_all
  have "medium s 3 = replicate BSIZE 7" using s(2) by (simp add: committed_def)
  then have "replay 2 (medium s) 50 = replicate BSIZE 7"
    using replay_at(1) [where m = "medium s" and i = 0, OF txn_50 n] by (simp add: log_at_def)
  moreover have "50 \<notin> log_area 2" using txn_50 by (simp add: txn_def)
  moreover have "length (medium s 2) = BSIZE" using head_store_head(3) [of "replicate BSIZE 0" 1 "[50]"] by (simp add: m LOGSIZE_def MAXOPBLOCKS_def)
  ultimately show ?thesis
    using recovery_correct [OF s(1) _ _ _ txn_50 n] s(2,3) by (fastforce simp: some_log_def)
qed

end
