(* ===== verification/Abi.thy ===== *)
theory Abi
  imports Prelude
begin

text \<open>Constants that the kernel and user programs share: the open modes of \<open>kernel/fcntl.h\<close> and the
  length of a directory entry name of \<open>kernel/fs.h\<close>.\<close>

definition O_RDONLY :: u32 where "O_RDONLY = 0x000"
definition O_WRONLY :: u32 where "O_WRONLY = 0x001"
definition O_RDWR :: u32 where "O_RDWR = 0x002"
definition O_CREATE :: u32 where "O_CREATE = 0x200"
definition O_TRUNC :: u32 where "O_TRUNC = 0x400"
definition DIRSIZ :: nat where "DIRSIZ = 14"

end
