(* ===== verification/Fs.thy ===== *)
theory Fs
  imports Log_Commit Abi
begin

text \<open>
  The file system (\<open>kernel/fs.c\<close>): block allocator, inode table, inode contents, directories and
  path names. Inodes and the free map are read from and written to the bytes of the buffers, at
  the offsets of \<open>struct dinode\<close>. An inode pointer is an index of \<open>itable\<close>, null is \<open>None\<close>. The local
  variables that the code passes by address as kernel buffers have an address on the kernel
  stack, a field of the state. Sections under \<open>itable.lock\<close> are atomic.
\<close>

section \<open>On-disk structures\<close>

type_synonym u16 = "16 word"

definition ROOTINO :: u32 where "ROOTINO = 1"
definition ROOTDEV :: u32 where "ROOTDEV = 1"
definition FSMAGIC :: u32 where "FSMAGIC = 0x10203040"
definition NDIRECT :: nat where "NDIRECT = 12"
definition NINDIRECT :: nat where "NINDIRECT = BSIZE div 4"
definition MAXFILE :: nat where "MAXFILE = NDIRECT + NINDIRECT"
definition NINODE :: nat where "NINODE = 50"
definition T_DIR :: u16 where "T_DIR = 1"
definition T_FILE :: u16 where "T_FILE = 2"
definition T_DEVICE :: u16 where "T_DEVICE = 3"

record dinode =
  d_type :: u16
  d_major :: u16
  d_minor :: u16
  d_nlink :: u16
  d_size :: u32
  d_addrs :: "u32 list"

definition IPB :: nat where "IPB = BSIZE div 64"

definition IBLOCK :: "u32 \<Rightarrow> superblock \<Rightarrow> u32" where
  "IBLOCK i sb = i div of_nat IPB + sb_inodestart sb"

definition BPB :: nat where "BPB = BSIZE * 8"

definition BBLOCK :: "u32 \<Rightarrow> superblock \<Rightarrow> u32" where
  "BBLOCK b sb = b div of_nat BPB + sb_bmapstart sb"

text \<open>\<open>sizeof(struct dirent)\<close>, and its fields in bytes.\<close>

definition DIRENT :: nat where "DIRENT = 2 + DIRSIZ"

definition de_inum :: "bytes \<Rightarrow> u16" where "de_inum de = of_nat (get_le 2 de 0)"
definition de_name :: "bytes \<Rightarrow> bytes" where "de_name de = take DIRSIZ (drop 2 de)"

text \<open>A \<open>struct dinode\<close> at offset \<open>o\<close> of a block.\<close>

definition get_dinode :: "bytes \<Rightarrow> nat \<Rightarrow> dinode" where
  "get_dinode d o' = \<lparr>d_type = of_nat (get_le 2 d o'), d_major = of_nat (get_le 2 d (o' + 2)),
     d_minor = of_nat (get_le 2 d (o' + 4)), d_nlink = of_nat (get_le 2 d (o' + 6)), d_size = of_nat (get_le 4 d (o' + 8)),
     d_addrs = map (\<lambda>i. of_nat (get_le 4 d (o' + 12 + 4 * i))) [0..<NDIRECT + 1]\<rparr>"

definition put_addrs :: "bytes \<Rightarrow> nat \<Rightarrow> u32 list \<Rightarrow> bytes" where
  "put_addrs d o' as = foldl (\<lambda>d i. put_le 4 d (o' + 4 * i) (unat (as ! i))) d [0..<NDIRECT + 1]"

definition put_dinode :: "bytes \<Rightarrow> nat \<Rightarrow> dinode \<Rightarrow> bytes" where
  "put_dinode d o' di = put_addrs
     (put_le 4 (put_le 2 (put_le 2 (put_le 2 (put_le 2 d o' (unat (d_type di))) (o' + 2) (unat (d_major di)))
        (o' + 4) (unat (d_minor di))) (o' + 6) (unat (d_nlink di))) (o' + 8) (unat (d_size di)))
     (o' + 12) (d_addrs di)"

section \<open>State\<close>

record inode =
  i_dev :: u32
  i_inum :: u32
  i_ref :: int
  i_lock :: sleeplock
  i_valid :: bool
  i_type :: u16
  i_major :: u16
  i_minor :: u16
  i_nlink :: u16
  i_size :: u32
  i_addrs :: "u32 list"

record kfs = klog +
  sb :: superblock
  itable :: "nat \<Rightarrow> inode"
  sp_de :: u64
  sp_elf :: u64
  sp_ph :: u64

definition get_inode :: "nat \<Rightarrow> ('x kfs_scheme, inode) km" where
  "get_inode ip = getK (\<lambda>s. itable s ip)"

definition set_inode :: "nat \<Rightarrow> (inode \<Rightarrow> inode) \<Rightarrow> ('x kfs_scheme, unit) km" where
  "set_inode ip f = modifyK (\<lambda>s. s\<lparr>itable := (itable s)(ip := f (itable s ip))\<rparr>)"

definition buf_data :: "nat \<Rightarrow> ('x kdisk_scheme, bytes) km" where
  "buf_data b = getK (\<lambda>s. b_data (bufs s b))"

definition set_data :: "nat \<Rightarrow> bytes \<Rightarrow> ('x kdisk_scheme, unit) km" where
  "set_data b d = set_buf b (\<lambda>bf. bf\<lparr>b_data := d\<rparr>)"

declare get_inode_def [kdefs] set_inode_def [kdefs] buf_data_def [kdefs] set_data_def [kdefs]

section \<open>Blocks\<close>

definition readsb :: "u32 \<Rightarrow> ('x kfs_scheme, unit) km" where
  "readsb dev = (bindK (bread dev 1) (\<lambda>bp.
    bindK (buf_data bp) (\<lambda>d.
    let f = (\<lambda>i. of_nat (get_le 4 d (4 * i))) in
    thenK (modifyK (\<lambda>s. s\<lparr>sb := \<lparr>sb_magic = f 0, sb_size = f 1, sb_nblocks = f 2, sb_ninodes = f 3, sb_nlog = f 4,
      sb_logstart = f 5, sb_inodestart = f 6, sb_bmapstart = f 7\<rparr>\<rparr>)) (
    brelse bp))))"

definition fsinit :: "u32 \<Rightarrow> ('x kfs_scheme, unit) km" where
  "fsinit dev = (thenK (readsb dev) (
    bindK (getK sb) (\<lambda>b.
    if sb_magic b \<noteq> FSMAGIC then panicK ''invalid file system'' else
    initlog dev b)))"

definition bzero :: "u32 \<Rightarrow> u32 \<Rightarrow> ('x kfs_scheme, unit) km" where
  "bzero dev bno = (bindK (bread dev bno) (\<lambda>bp.
    thenK (set_data bp (replicate BSIZE 0)) (
    thenK (log_write bp) (
    brelse bp))))"

text \<open>\<open>bp->data[bi/8] & (1 << (bi % 8))\<close>, and the two assignments to it.\<close>

definition bit_used :: "bytes \<Rightarrow> nat \<Rightarrow> bool" where
  "bit_used d bi \<longleftrightarrow> bit (d ! (bi div 8)) (bi mod 8)"

definition bit_set :: "bytes \<Rightarrow> nat \<Rightarrow> bytes" where
  "bit_set d bi = d[bi div 8 := d ! (bi div 8) OR push_bit (bi mod 8) 1]"

definition bit_clear :: "bytes \<Rightarrow> nat \<Rightarrow> bytes" where
  "bit_clear d bi = d[bi div 8 := d ! (bi div 8) AND NOT (push_bit (bi mod 8) 1)]"

text \<open>The inner loop of \<open>balloc\<close> over a bitmap block for the blocks from \<open>b\<close> on.\<close>

definition free_bit :: "bytes \<Rightarrow> nat \<Rightarrow> nat \<Rightarrow> nat option" where
  "free_bit d b sz = find (\<lambda>bi. \<not> bit_used d bi) [0..<min BPB (sz - b)]"

fun balloc_loop :: "u32 \<Rightarrow> nat \<Rightarrow> nat list \<Rightarrow> ('x kfs_scheme, u32) km" where
  "balloc_loop dev sz [] = (thenK (printf (''balloc: out of blocks'' @ [CHR 0x0A]) []) (
    returnK 0))"
| "balloc_loop dev sz (b # bs) = (bindK (getK sb) (\<lambda>sbv.
  bindK (bread dev (BBLOCK (of_nat b) sbv)) (\<lambda>bp.
  bindK (buf_data bp) (\<lambda>d.
  (case free_bit d b sz of
    Some bi \<Rightarrow> (thenK (set_data bp (bit_set d bi)) (
      thenK (log_write bp) (
      thenK (brelse bp) (
      thenK (bzero dev (of_nat (b + bi))) (
      returnK (of_nat (b + bi)))))))
    | None \<Rightarrow> (thenK (brelse bp) (
      balloc_loop dev sz bs)))))))"

definition balloc :: "u32 \<Rightarrow> ('x kfs_scheme, u32) km" where
  "balloc dev = (bindK (getK (\<lambda>s. unat (sb_size (sb s)))) (\<lambda>sz.
    balloc_loop dev sz (map (\<lambda>k. k * BPB) [0..<(sz + BPB - 1) div BPB])))"

definition bfree :: "u32 \<Rightarrow> u32 \<Rightarrow> ('x kfs_scheme, unit) km" where
  "bfree dev b = (bindK (getK sb) (\<lambda>sbv.
    bindK (bread dev (BBLOCK b sbv)) (\<lambda>bp.
    bindK (buf_data bp) (\<lambda>d.
    let bi = unat b mod BPB in
    if \<not> bit_used d bi then panicK ''freeing free block'' else
    thenK (set_data bp (bit_clear d bi)) (
    thenK (log_write bp) (
    brelse bp))))))"

section \<open>Inodes\<close>

definition iinit :: "('x kfs_scheme, unit) km" where
  "iinit = forK [0..<NINODE] (\<lambda>i. set_inode i (\<lambda>ip. ip\<lparr>i_lock := initsleeplock ''inode''\<rparr>))"

definition iget :: "u32 \<Rightarrow> u32 \<Rightarrow> ('x kfs_scheme, nat) km" where
  "iget dev inum = (bindK (getK itable) (\<lambda>tab.
    (case find (\<lambda>i. 0 < i_ref (tab i) \<and> i_dev (tab i) = dev \<and> i_inum (tab i) = inum) [0..<NINODE] of
      Some ip \<Rightarrow> (thenK (set_inode ip (\<lambda>i. i\<lparr>i_ref := i_ref i + 1\<rparr>)) (
        returnK ip))
      | None \<Rightarrow> (case find (\<lambda>i. i_ref (tab i) = 0) [0..<NINODE] of
      None \<Rightarrow> panicK ''iget: no inodes''
      | Some ip \<Rightarrow> (thenK (set_inode ip (\<lambda>i. i\<lparr>i_dev := dev, i_inum := inum, i_ref := 1, i_valid := False\<rparr>)) (
        returnK ip))))))"

definition idup :: "nat \<Rightarrow> ('x kfs_scheme, nat) km" where
  "idup ip = (thenK (set_inode ip (\<lambda>i. i\<lparr>i_ref := i_ref i + 1\<rparr>)) (
    returnK ip))"

definition dinode_off :: "u32 \<Rightarrow> nat" where
  "dinode_off inum = (unat inum mod IPB) * 64"

fun ialloc_loop :: "u32 \<Rightarrow> u16 \<Rightarrow> u32 list \<Rightarrow> ('x kfs_scheme, nat option) km" where
  "ialloc_loop dev type [] = (thenK (printf (''ialloc: no inodes'' @ [CHR 0x0A]) []) (
    returnK None))"
| "ialloc_loop dev type (inum # inums) = (bindK (getK sb) (\<lambda>sbv.
  bindK (bread dev (IBLOCK inum sbv)) (\<lambda>bp.
  bindK (buf_data bp) (\<lambda>d.
  if get_le 2 d (dinode_off inum) = 0 then (thenK (set_data bp (put_dinode d (dinode_off inum)
      \<lparr>d_type = type, d_major = 0, d_minor = 0, d_nlink = 0, d_size = 0, d_addrs = replicate (NDIRECT + 1) 0\<rparr>)) (
    thenK (log_write bp) (
    thenK (brelse bp) (
    bindK (iget dev inum) (\<lambda>ip.
    returnK (Some ip)))))) else
  thenK (brelse bp) (
  ialloc_loop dev type inums)))))"

definition ialloc :: "u32 \<Rightarrow> u16 \<Rightarrow> ('x kfs_scheme, nat option) km" where
  "ialloc dev type = (bindK (getK (\<lambda>s. unat (sb_ninodes (sb s)))) (\<lambda>n.
    ialloc_loop dev type (map of_nat [1..<n])))"

definition dinode_of :: "inode \<Rightarrow> dinode" where
  "dinode_of i = \<lparr>d_type = i_type i, d_major = i_major i, d_minor = i_minor i, d_nlink = i_nlink i,
     d_size = i_size i, d_addrs = i_addrs i\<rparr>"

definition iupdate :: "nat \<Rightarrow> ('x kfs_scheme, unit) km" where
  "iupdate ip = (bindK (get_inode ip) (\<lambda>i.
    bindK (getK sb) (\<lambda>sbv.
    bindK (bread (i_dev i) (IBLOCK (i_inum i) sbv)) (\<lambda>bp.
    bindK (buf_data bp) (\<lambda>d.
    thenK (set_data bp (put_dinode d (dinode_off (i_inum i)) (dinode_of i))) (
    thenK (log_write bp) (
    brelse bp)))))))"

definition ilock :: "nat option \<Rightarrow> ('x kfs_scheme, unit) km" where
  "ilock ipo = (case ipo of None \<Rightarrow> panicK ''ilock'' | Some ip \<Rightarrow> (bindK (get_inode ip) (\<lambda>i.
    if i_ref i < 1 then panicK ''ilock'' else
    bindK (acquiresleep (i_lock i)) (\<lambda>lk.
    thenK (set_inode ip (\<lambda>i. i\<lparr>i_lock := lk\<rparr>)) (
    if i_valid i then returnK () else
    bindK (getK sb) (\<lambda>sbv.
    bindK (bread (i_dev i) (IBLOCK (i_inum i) sbv)) (\<lambda>bp.
    bindK (buf_data bp) (\<lambda>d.
    let di = get_dinode d (dinode_off (i_inum i)) in
    thenK (set_inode ip (\<lambda>i. i\<lparr>i_type := d_type di, i_major := d_major di, i_minor := d_minor di,
      i_nlink := d_nlink di, i_size := d_size di, i_addrs := d_addrs di\<rparr>)) (
    thenK (brelse bp) (
    thenK (set_inode ip (\<lambda>i. i\<lparr>i_valid := True\<rparr>)) (
    if d_type di = 0 then panicK ''ilock: no type'' else
    returnK ())))))))))))"

definition iunlock :: "nat option \<Rightarrow> ('x kfs_scheme, unit) km" where
  "iunlock ipo = (case ipo of None \<Rightarrow> panicK ''iunlock'' | Some ip \<Rightarrow> (bindK (get_inode ip) (\<lambda>i.
    bindK (holdingsleep (i_lock i)) (\<lambda>h.
    if \<not> h \<or> i_ref i < 1 then panicK ''iunlock'' else
    bindK (releasesleep (ChanInode ip) (i_lock i)) (\<lambda>lk.
    set_inode ip (\<lambda>i. i\<lparr>i_lock := lk\<rparr>))))))"

section \<open>Inode content\<close>

text \<open>The entries of the indirect block.\<close>

definition ind_get :: "bytes \<Rightarrow> nat \<Rightarrow> u32" where
  "ind_get d j = of_nat (get_le 4 d (4 * j))"

definition bmap :: "nat \<Rightarrow> u32 \<Rightarrow> ('x kfs_scheme, u32) km" where
  "bmap ip bn = (bindK (get_inode ip) (\<lambda>i.
    if unat bn < NDIRECT then (if i_addrs i ! unat bn \<noteq> 0 then returnK (i_addrs i ! unat bn) else
      bindK (balloc (i_dev i)) (\<lambda>addr.
      if addr = 0 then returnK 0 else
      thenK (set_inode ip (\<lambda>i. i\<lparr>i_addrs := (i_addrs i)[unat bn := addr]\<rparr>)) (
      returnK addr))) else
    let j = unat bn - NDIRECT in
    if j < NINDIRECT then (bindK ((if i_addrs i ! NDIRECT \<noteq> 0 then returnK (i_addrs i ! NDIRECT) else
      bindK (balloc (i_dev i)) (\<lambda>addr.
      if addr = 0 then returnK 0 else
      thenK (set_inode ip (\<lambda>i. i\<lparr>i_addrs := (i_addrs i)[NDIRECT := addr]\<rparr>)) (
      returnK addr)))) (\<lambda>ind.
      if ind = 0 then returnK 0 else
      bindK (bread (i_dev i) ind) (\<lambda>bp.
      bindK (buf_data bp) (\<lambda>d.
      if ind_get d j \<noteq> 0 then (thenK (brelse bp) (
        returnK (ind_get d j))) else
      bindK (balloc (i_dev i)) (\<lambda>addr.
      thenK ((if addr \<noteq> 0 then (thenK (set_data bp (put_le 4 d (4 * j) (unat addr))) (
        log_write bp))
        else returnK ())) (
      thenK (brelse bp) (
      returnK addr))))))) else
    panicK ''bmap: out of range''))"

definition itrunc :: "nat \<Rightarrow> ('x kfs_scheme, unit) km" where
  "itrunc ip = (thenK (forK [0..<NDIRECT] (\<lambda>k. (bindK (get_inode ip) (\<lambda>i.
    if i_addrs i ! k = 0 then returnK () else
    thenK (bfree (i_dev i) (i_addrs i ! k)) (
    set_inode ip (\<lambda>i. i\<lparr>i_addrs := (i_addrs i)[k := 0]\<rparr>)))))) (
    bindK (get_inode ip) (\<lambda>i.
    thenK ((if i_addrs i ! NDIRECT \<noteq> 0 then (bindK (bread (i_dev i) (i_addrs i ! NDIRECT)) (\<lambda>bp.
      thenK (forK [0..<NINDIRECT] (\<lambda>j. (bindK (buf_data bp) (\<lambda>d.
        if ind_get d j = 0 then returnK () else
        bfree (i_dev i) (ind_get d j))))) (
      thenK (brelse bp) (
      thenK (bfree (i_dev i) (i_addrs i ! NDIRECT)) (
      set_inode ip (\<lambda>i. i\<lparr>i_addrs := (i_addrs i)[NDIRECT := 0]\<rparr>))))))
      else returnK ())) (
    thenK (set_inode ip (\<lambda>i. i\<lparr>i_size := 0\<rparr>)) (
    iupdate ip)))))"

definition iput :: "nat \<Rightarrow> ('x kfs_scheme, unit) km" where
  "iput ip = (bindK (get_inode ip) (\<lambda>i.
    thenK ((if i_ref i = 1 \<and> i_valid i \<and> i_nlink i = 0 then (bindK (acquiresleep (i_lock i)) (\<lambda>lk.
      thenK (set_inode ip (\<lambda>i. i\<lparr>i_lock := lk\<rparr>)) (
      thenK (itrunc ip) (
      thenK (set_inode ip (\<lambda>i. i\<lparr>i_type := 0\<rparr>)) (
      thenK (iupdate ip) (
      thenK (set_inode ip (\<lambda>i. i\<lparr>i_valid := False\<rparr>)) (
      bindK (get_inode ip) (\<lambda>i.
      bindK (releasesleep (ChanInode ip) (i_lock i)) (\<lambda>lk.
      set_inode ip (\<lambda>i. i\<lparr>i_lock := lk\<rparr>))))))))))
      else returnK ())) (
    set_inode ip (\<lambda>i. i\<lparr>i_ref := i_ref i - 1\<rparr>))))"

definition iunlockput :: "nat \<Rightarrow> ('x kfs_scheme, unit) km" where
  "iunlockput ip = (thenK (iunlock (Some ip)) (
    iput ip))"

record stat =
  st_dev :: u32
  st_ino :: u32
  st_type :: u16
  st_nlink :: u16
  st_size :: u64

definition stati :: "inode \<Rightarrow> stat" where
  "stati i = \<lparr>st_dev = i_dev i, st_ino = i_inum i, st_type = i_type i, st_nlink = i_nlink i, st_size = ucast (i_size i)\<rparr>"

section \<open>Reading and writing\<close>

definition chunk :: "u32 \<Rightarrow> u32 \<Rightarrow> u32" where
  "chunk rest off = min rest (of_nat BSIZE - off mod of_nat BSIZE)"

lemma chunk_measure:
  assumes "tot < n"
  shows "unat (n - (tot + chunk (n - tot) off)) < unat (n - tot)"
proof -
  let ?m = "chunk (n - tot) off"
  have "off mod 1024 < 1024" by (rule word_mod_less_divisor) simp
  then have "0 < (1024 :: u32) - off mod 1024" by (simp add: word_less_nat_alt unat_sub_if' word_le_nat_alt)
  moreover have "0 < n - tot" using assms by (simp add: word_less_nat_alt unat_sub_if' word_le_nat_alt)
  ultimately have m: "0 < ?m" "?m \<le> n - tot" by (simp_all add: chunk_def BSIZE_def)
  then have "unat (n - tot - ?m) = unat (n - tot) - unat ?m" by (simp add: unat_sub)
  moreover have "0 < unat ?m" "unat ?m \<le> unat (n - tot)" using m by (simp_all add: word_less_nat_alt word_le_nat_alt)
  ultimately show ?thesis by (simp add: algebra_simps)
qed

text \<open>The loop of \<open>readi\<close>; the value is \<open>tot\<close>.\<close>

function readi_loop :: "nat \<Rightarrow> bool \<Rightarrow> u64 \<Rightarrow> u32 \<Rightarrow> u32 \<Rightarrow> u32 \<Rightarrow> ('x kfs_scheme, u32) km" where
  "readi_loop ip user_dst dst off n tot = (if \<not> tot < n then returnK tot else (bindK (bmap ip (off div of_nat BSIZE)) (\<lambda>addr.
    if addr = 0 then returnK tot else
    bindK (get_inode ip) (\<lambda>i.
    bindK (bread (i_dev i) addr) (\<lambda>bp.
    let m = chunk (n - tot) off in
    bindK (buf_data bp) (\<lambda>d.
    bindK (either_copyout user_dst dst (take (unat m) (drop (unat (off mod of_nat BSIZE)) d))) (\<lambda>r.
    thenK (brelse bp) (
    if r = - 1 then returnK (- 1) else
    readi_loop ip user_dst (dst + ucast m) (off + m) n (tot + m)))))))))"
  by pat_completeness auto
termination
  by (relation "measure (\<lambda>(ip, u, dst, off, n, tot). unat (n - tot))") (simp_all add: chunk_measure)

definition readi :: "nat \<Rightarrow> bool \<Rightarrow> u64 \<Rightarrow> u32 \<Rightarrow> u32 \<Rightarrow> ('x kfs_scheme, int) km" where
  "readi ip user_dst dst off n = (bindK (get_inode ip) (\<lambda>i.
    if off > i_size i \<or> off + n < off then returnK 0 else
    let n = (if off + n > i_size i then i_size i - off else n) in
    bindK (readi_loop ip user_dst dst off n 0) (\<lambda>tot.
    returnK (sint tot))))"

text \<open>The loop of \<open>writei\<close>; the value is \<open>tot\<close> and \<open>off\<close> after it.\<close>

function writei_loop :: "nat \<Rightarrow> bool \<Rightarrow> u64 \<Rightarrow> u32 \<Rightarrow> u32 \<Rightarrow> u32 \<Rightarrow> ('x kfs_scheme, u32 \<times> u32) km" where
  "writei_loop ip user_src src off n tot = (if \<not> tot < n then returnK (tot, off) else (bindK (bmap ip (off div of_nat BSIZE)) (\<lambda>addr.
    if addr = 0 then returnK (tot, off) else
    bindK (get_inode ip) (\<lambda>i.
    bindK (bread (i_dev i) addr) (\<lambda>bp.
    let m = chunk (n - tot) off in
    bindK (either_copyin user_src src (unat m)) (\<lambda>(r, bs).
    bindK (buf_data bp) (\<lambda>d.
    let o' = unat (off mod of_nat BSIZE) in
    thenK (set_data bp (take o' d @ bs @ drop (o' + length bs) d)) (
    if r = - 1 then (thenK (brelse bp) (
      returnK (tot, off))) else
    thenK (log_write bp) (
    thenK (brelse bp) (
    writei_loop ip user_src (src + ucast m) (off + m) n (tot + m)))))))))))"
  by pat_completeness auto
termination
  by (relation "measure (\<lambda>(ip, u, src, off, n, tot). unat (n - tot))") (simp_all add: chunk_measure)

definition writei :: "nat \<Rightarrow> bool \<Rightarrow> u64 \<Rightarrow> u32 \<Rightarrow> u32 \<Rightarrow> ('x kfs_scheme, int) km" where
  "writei ip user_src src off n = (bindK (get_inode ip) (\<lambda>i.
    if off > i_size i \<or> off + n < off then returnK (- 1) else
    if unat (off + n) > MAXFILE * BSIZE then returnK (- 1) else
    bindK (writei_loop ip user_src src off n 0) (\<lambda>(tot, off).
    thenK (set_inode ip (\<lambda>i. if off > i_size i then i\<lparr>i_size := off\<rparr> else i)) (
    thenK (iupdate ip) (
    returnK (sint tot))))))"

section \<open>Directories\<close>

text \<open>Null terminated or full arrays: a comparison that runs past the end is undefined.\<close>

definition namecmp :: "bytes \<Rightarrow> bytes \<Rightarrow> ('x kfs_scheme, int) km" where
  "namecmp s t = (case strncmp s t DIRSIZ of Some r \<Rightarrow> returnK r | None \<Rightarrow> undefK ''namecmp'')"

definition dir_offsets :: "nat \<Rightarrow> u32 \<Rightarrow> u32 list" where
  "dir_offsets start size' = map (\<lambda>k. of_nat (DIRENT * k)) [start..<(unat size' + DIRENT - 1) div DIRENT]"

text \<open>\<open>readi(dp, 0, (uint64)&de, off, sizeof(de))\<close>, then reading \<open>de\<close>.\<close>

definition read_dirent :: "nat \<Rightarrow> u32 \<Rightarrow> string \<Rightarrow> ('x kfs_scheme, bytes) km" where
  "read_dirent dp off msg = (bindK (getK sp_de) (\<lambda>a.
    bindK (readi dp False a off (of_nat DIRENT)) (\<lambda>r.
    if r \<noteq> int DIRENT then panicK msg else
    getK (\<lambda>s. read_mem (mem s) a DIRENT))))"

fun dirlookup_loop :: "nat \<Rightarrow> bytes \<Rightarrow> u32 list \<Rightarrow> ('x kfs_scheme, (nat \<times> u32) option) km" where
  "dirlookup_loop dp name [] = returnK None"
| "dirlookup_loop dp name (off # offs) = (bindK (read_dirent dp off ''dirlookup read'') (\<lambda>de.
  if de_inum de = 0 then dirlookup_loop dp name offs else
  bindK (namecmp name (de_name de)) (\<lambda>c.
  if c = 0 then (bindK (get_inode dp) (\<lambda>d.
    bindK (iget (i_dev d) (ucast (de_inum de))) (\<lambda>ip.
    returnK (Some (ip, off))))) else
  dirlookup_loop dp name offs)))"

definition dirlookup :: "nat \<Rightarrow> bytes \<Rightarrow> ('x kfs_scheme, (nat \<times> u32) option) km" where
  "dirlookup dp name = (bindK (get_inode dp) (\<lambda>d.
    if i_type d \<noteq> T_DIR then panicK ''dirlookup not DIR'' else
    dirlookup_loop dp name (dir_offsets 0 (i_size d))))"

text \<open>The second loop of \<open>dirlink\<close>: the offset of the first empty entry, or past the last.\<close>

fun dirlink_loop :: "nat \<Rightarrow> u32 \<Rightarrow> u32 list \<Rightarrow> ('x kfs_scheme, u32) km" where
  "dirlink_loop dp past [] = returnK past"
| "dirlink_loop dp past (off # offs) = (bindK (read_dirent dp off ''dirlink read'') (\<lambda>de.
  if de_inum de = 0 then returnK off else
  dirlink_loop dp past offs))"

definition dirlink :: "nat \<Rightarrow> bytes \<Rightarrow> u32 \<Rightarrow> ('x kfs_scheme, int) km" where
  "dirlink dp name inum = (bindK (dirlookup dp name) (\<lambda>found.
    (case found of
      Some (ip, off) \<Rightarrow> (thenK (iput ip) (
        returnK (- 1)))
      | None \<Rightarrow> (bindK (get_inode dp) (\<lambda>d.
        let offs = dir_offsets 0 (i_size d) in
        bindK (dirlink_loop dp (of_nat (DIRENT * length offs)) offs) (\<lambda>off.
        bindK (getK sp_de) (\<lambda>a.
        (case strncpy_bytes name DIRSIZ of
          None \<Rightarrow> undefK ''strncpy''
          | Some nm \<Rightarrow> (thenK (modifyK (\<lambda>s. s\<lparr>mem := write_mem (mem s) (a + 2) nm\<rparr>)) (
            thenK (modifyK (\<lambda>s. s\<lparr>mem := write_mem (mem s) a (put_le 2 [0, 0] 0 (unat (ucast inum :: u16)))\<rparr>)) (
            bindK (writei dp False a off (of_nat DIRENT)) (\<lambda>r.
            returnK (if r \<noteq> int DIRENT then - 1 else 0)))))))))))))"

section \<open>Paths\<close>

definition SLASH :: "8 word" where "SLASH = of_char (CHR ''/'')"

text \<open>A path is its bytes before the terminating null; \<open>name\<close> is the array that receives the element.\<close>

definition skipelem :: "bytes \<Rightarrow> bytes \<Rightarrow> (bytes \<times> bytes) option" where
  "skipelem pth name = (
     let pth = dropWhile (\<lambda>c. c = SLASH) pth in
     if pth = [] then None
     else let s = takeWhile (\<lambda>c. c \<noteq> SLASH) pth; pth = dropWhile (\<lambda>c. c \<noteq> SLASH) pth; len = length s;
            name = (if DIRSIZ \<le> len then take DIRSIZ s @ drop DIRSIZ name else s @ 0 # drop (len + 1) name) in
       Some (dropWhile (\<lambda>c. c = SLASH) pth, name))"

lemma skipelem_shorter: "skipelem pth name = Some (pth', name') \<Longrightarrow> length pth' < length pth"
proof -
  assume a: "skipelem pth name = Some (pth', name')"
  let ?p = "dropWhile (\<lambda>c. c = SLASH) pth"
  have ne: "?p \<noteq> []" and p': "pth' = dropWhile (\<lambda>c. c = SLASH) (dropWhile (\<lambda>c. c \<noteq> SLASH) ?p)"
    using a by (auto simp: skipelem_def Let_def split: if_splits)
  from ne have "hd ?p \<noteq> SLASH" using hd_dropWhile by blast
  then have "length (dropWhile (\<lambda>c. c \<noteq> SLASH) ?p) < length ?p"
    using ne by (cases ?p) (auto simp: less_Suc_eq_le length_dropWhile_le)
  then show ?thesis unfolding p'
    by (meson le_less_trans length_dropWhile_le less_le_trans)
qed

text \<open>The loop of \<open>namex\<close>, holding a reference to \<open>ip\<close>.\<close>

function namex_loop :: "bool \<Rightarrow> nat \<Rightarrow> bytes \<Rightarrow> bytes \<Rightarrow> ('x kfs_scheme, nat option \<times> bytes) km" where
  "namex_loop parent ip pth name = (case skipelem pth name of
     None \<Rightarrow> (if parent then (thenK (iput ip) (
       returnK (None, name))) else
       returnK (Some ip, name))
   | Some (pth, name) \<Rightarrow> (thenK (ilock (Some ip)) (
     bindK (get_inode ip) (\<lambda>i.
     if i_type i \<noteq> T_DIR then (thenK (iunlockput ip) (
       returnK (None, name))) else
     if parent \<and> pth = [] then (thenK (iunlock (Some ip)) (
       returnK (Some ip, name))) else
     bindK (dirlookup ip name) (\<lambda>found.
     (case found of
       None \<Rightarrow> (thenK (iunlockput ip) (
         returnK (None, name)))
       | Some (ip', off) \<Rightarrow> (thenK (iunlockput ip) (
         namex_loop parent ip' pth name))))))))"
  by pat_completeness auto
termination
  by (relation "measure (\<lambda>(parent, ip, pth, name). length pth)") (auto dest: skipelem_shorter)

definition namex :: "bytes \<Rightarrow> bool \<Rightarrow> bytes \<Rightarrow> ('x kfs_scheme, nat option \<times> bytes) km" where
  "namex pth parent name = (bindK ((if pth \<noteq> [] \<and> hd pth = SLASH then iget ROOTDEV ROOTINO
      else (bindK curproc (\<lambda>i.
        bindK (get_proc i) (\<lambda>p.
        (case p_cwd p of None \<Rightarrow> panicK ''kerneltrap'' | Some d \<Rightarrow> idup d)))))) (\<lambda>ip.
    namex_loop parent ip pth name))"

definition namei :: "bytes \<Rightarrow> ('x kfs_scheme, nat option) km" where
  "namei pth = (bindK (namex pth False (replicate DIRSIZ 0)) (\<lambda>(ip, name).
    returnK ip))"

definition nameiparent :: "bytes \<Rightarrow> bytes \<Rightarrow> ('x kfs_scheme, nat option \<times> bytes) km" where
  "nameiparent pth name = namex pth True name"

declare readi_loop.simps [simp del] writei_loop.simps [simp del] namex_loop.simps [simp del]

end
