(* ===== verification/Pipe.thy ===== *)
theory Pipe
  imports Fs Ring
begin

text \<open>
  Pipes (\<open>kernel/pipe.c\<close>) and the types of the file layer (\<open>kernel/file.h\<close>). A pipe is identified by
  the address of the page \<open>kalloc\<close> gave for it. The code holds \<open>pi->lock\<close> except while it sleeps, so
  the run from one sleep to the next is one step; \<open>Sleep\<close> says where it stands.
\<close>

section \<open>Files and pipes\<close>

datatype fdtype = FD_NONE | FD_PIPE | FD_INODE | FD_DEVICE

record filerec =
  f_type :: fdtype
  f_ref :: int
  f_readable :: bool
  f_writable :: bool
  f_pipe :: u64
  f_ip :: "nat option"
  f_off :: u32
  f_major :: u16

definition PIPESIZE :: nat where "PIPESIZE = 512"

record pipe =
  pi_data :: bytes
  pi_nread :: u32
  pi_nwrite :: u32
  pi_readopen :: bool
  pi_writeopen :: bool

record kfile = kfs +
  ftable :: "nat \<Rightarrow> filerec"
  pipes :: "u64 \<Rightarrow> pipe"

definition get_file :: "nat \<Rightarrow> ('x kfile_scheme, filerec) km" where
  "get_file f = getK (\<lambda>s. ftable s f)"

definition set_file :: "nat \<Rightarrow> (filerec \<Rightarrow> filerec) \<Rightarrow> ('x kfile_scheme, unit) km" where
  "set_file f g = modifyK (\<lambda>s. s\<lparr>ftable := (ftable s)(f := g (ftable s f))\<rparr>)"

definition get_pipe :: "u64 \<Rightarrow> ('x kfile_scheme, pipe) km" where
  "get_pipe pi = getK (\<lambda>s. pipes s pi)"

definition set_pipe :: "u64 \<Rightarrow> (pipe \<Rightarrow> pipe) \<Rightarrow> ('x kfile_scheme, unit) km" where
  "set_pipe pi g = modifyK (\<lambda>s. s\<lparr>pipes := (pipes s)(pi := g (pipes s pi))\<rparr>)"

declare get_file_def [kdefs] set_file_def [kdefs] get_pipe_def [kdefs] set_pipe_def [kdefs]

section \<open>Operations\<close>

definition pipeclose :: "u64 \<Rightarrow> bool \<Rightarrow> ('x kfile_scheme, unit) km" where
  "pipeclose pi writable = (thenK ((if writable then (thenK (set_pipe pi (\<lambda>p. p\<lparr>pi_writeopen := False\<rparr>)) (
    wakeup (ChanPipeRead (unat pi))))
      else (thenK (set_pipe pi (\<lambda>p. p\<lparr>pi_readopen := False\<rparr>)) (
        wakeup (ChanPipeWrite (unat pi)))))) (
    bindK (get_pipe pi) (\<lambda>p.
    (if \<not> pi_readopen p \<and> \<not> pi_writeopen p then kfree pi else returnK ()))))"

text \<open>\<open>pipewrite\<close> from index \<open>i\<close> on, with \<open>k\<close> bytes left.\<close>

fun pipewrite_loop :: "u64 \<Rightarrow> u64 \<Rightarrow> nat \<Rightarrow> nat \<Rightarrow> ('x kfile_scheme, nat run) km" where
  "pipewrite_loop pi addr i 0 = (thenK (wakeup (ChanPipeRead (unat pi))) (
    returnK (Ret (int i))))"
| "pipewrite_loop pi addr i (Suc k) = (bindK curproc (\<lambda>pr.
  bindK (get_pipe pi) (\<lambda>p.
  bindK (killed pr) (\<lambda>kl.
  if \<not> pi_readopen p \<or> kl \<noteq> 0 then returnK (Ret (- 1)) else
  if pi_nwrite p = pi_nread p + of_nat PIPESIZE then (thenK (wakeup (ChanPipeRead (unat pi))) (
    returnK (Sleep i))) else
  bindK (get_proc pr) (\<lambda>q.
  bindK (copyin (p_pagetable q) (addr + of_nat i) 1) (\<lambda>(r, cs).
  if r = - 1 then (thenK (wakeup (ChanPipeRead (unat pi))) (
    returnK (Ret (int i)))) else
  thenK (set_pipe pi (\<lambda>p. p\<lparr>pi_data := (pi_data p)[unat (pi_nwrite p) mod PIPESIZE := hd cs], pi_nwrite := pi_nwrite p + 1\<rparr>)) (
  pipewrite_loop pi addr (Suc i) k)))))))"

definition pipewrite :: "u64 \<Rightarrow> u64 \<Rightarrow> int \<Rightarrow> ('x kfile_scheme, nat run) km" where
  "pipewrite pi addr n = pipewrite_loop pi addr 0 (nat n)"

fun piperead_loop :: "u64 \<Rightarrow> u64 \<Rightarrow> nat \<Rightarrow> nat \<Rightarrow> ('x kfile_scheme, int) km" where
  "piperead_loop pi addr i 0 = returnK (int i)"
| "piperead_loop pi addr i (Suc k) = (bindK (get_pipe pi) (\<lambda>p.
  if pi_nread p = pi_nwrite p then returnK (int i) else
  let ch = pi_data p ! (unat (pi_nread p) mod PIPESIZE) in
  thenK (set_pipe pi (\<lambda>p. p\<lparr>pi_nread := pi_nread p + 1\<rparr>)) (
  bindK curproc (\<lambda>pr.
  bindK (get_proc pr) (\<lambda>q.
  bindK (copyout (p_pagetable q) (addr + of_nat i) [ch]) (\<lambda>r.
  if r = - 1 then returnK (int i) else
  piperead_loop pi addr (Suc i) k))))))"

definition piperead :: "u64 \<Rightarrow> u64 \<Rightarrow> int \<Rightarrow> ('x kfile_scheme, (u64 \<times> nat) run) km" where
  "piperead pi addr n = (bindK curproc (\<lambda>pr.
    bindK (get_pipe pi) (\<lambda>p.
    if pi_nread p = pi_nwrite p \<and> pi_writeopen p then (bindK (killed pr) (\<lambda>kl.
      returnK (if kl \<noteq> 0 then Ret (- 1) else Sleep (addr, nat n)))) else
    bindK (piperead_loop pi addr 0 (nat n)) (\<lambda>i.
    thenK (wakeup (ChanPipeWrite (unat pi))) (
    returnK (Ret i))))))"

section \<open>A pipe is a bounded queue\<close>

interpretation pipe_ring: ring PIPESIZE "TYPE(32)"
  by unfold_locales (simp_all add: PIPESIZE_def)

definition pipe_contents :: "pipe \<Rightarrow> bytes" where
  "pipe_contents p = ring_contents PIPESIZE (pi_data p) (pi_nread p) (pi_nwrite p)"

definition pipe_ok :: "pipe \<Rightarrow> bool" where
  "pipe_ok p \<longleftrightarrow> ring_ok PIPESIZE (pi_data p) (pi_nread p) (pi_nwrite p)"

definition pipe_free :: "pipe \<Rightarrow> nat" where
  "pipe_free p = PIPESIZE - length (pipe_contents p)"

lemma pipe_full_iff: "pipe_ok p \<Longrightarrow> pi_nwrite p = pi_nread p + of_nat PIPESIZE \<longleftrightarrow> pipe_free p = 0"
  using pipe_ring.full_iff [of "pi_data p" "pi_nread p" "pi_nwrite p"]
  by (auto simp: pipe_ok_def pipe_free_def pipe_contents_def ring_ok_def)

text \<open>Storing a byte.\<close>

definition pipe_put :: "u8 \<Rightarrow> pipe \<Rightarrow> pipe" where
  "pipe_put b p = p\<lparr>pi_data := (pi_data p)[unat (pi_nwrite p) mod PIPESIZE := b], pi_nwrite := pi_nwrite p + 1\<rparr>"

lemma pipe_put_facts:
  assumes "pipe_ok p" "0 < pipe_free p"
  shows "pipe_ok (pipe_put b p)" "pipe_contents (pipe_put b p) = pipe_contents p @ [b]" "pipe_free p = Suc (pipe_free (pipe_put b p))"
    "pi_readopen (pipe_put b p) = pi_readopen p"
proof -
  have l: "unat (pi_nwrite p - pi_nread p) < PIPESIZE" using assms(2) by (simp add: pipe_free_def pipe_contents_def)
  show ok: "pipe_ok (pipe_put b p)" and c: "pipe_contents (pipe_put b p) = pipe_contents p @ [b]"
    using pipe_ring.ok_put [OF _ l, of "pi_data p"] pipe_ring.contents_put [OF _ l, of "pi_data p"] assms(1)
    by (simp_all add: pipe_ok_def pipe_contents_def pipe_put_def)
  show "pipe_free p = Suc (pipe_free (pipe_put b p))" using assms(2) by (simp add: pipe_free_def c)
  show "pi_readopen (pipe_put b p) = pi_readopen p" by (simp add: pipe_put_def)
qed

text \<open>Storing as many bytes as fit.\<close>

fun pipe_puts :: "bytes \<Rightarrow> pipe \<Rightarrow> pipe" where
  "pipe_puts [] p = p"
| "pipe_puts (b # bs) p = (if pipe_free p = 0 then p else pipe_puts bs (pipe_put b p))"

lemma pipe_puts_facts:
  "pipe_ok p \<Longrightarrow> pipe_ok (pipe_puts bs p) \<and> pipe_contents (pipe_puts bs p) = pipe_contents p @ take (pipe_free p) bs"
proof (induction bs arbitrary: p)
  case (Cons b bs)
  show ?case
  proof (cases "pipe_free p = 0")
    case False
    then show ?thesis using Cons.IH [of "pipe_put b p"] pipe_put_facts [OF Cons.prems, where b = b] by simp
  qed (use Cons.prems in simp)
qed simp

lemma uspace_ok_pipes [simp]: "uspace_ok (s\<lparr>pipes := x\<rparr>) pt = uspace_ok s pt"
  by (simp add: uspace_ok_def pt_ok_def frames_ok_def kmem_ok_def kmem_inv_def valid_page_def free_pages_def)

lemma current_pipes [simp]: "current (s\<lparr>pipes := x\<rparr>) i = current s i"
  by (simp add: current_def mycpu_def)

lemma copyin_byte:
  assumes "uspace_ok s pt" "umem (mem s) pt va = Some b"
  shows "copyin pt va 1 s = Inr ((0, [b]), s)"
  using copyin_eq [OF assms(1), of va 1] assms(2) by (auto simp: uread_def)

lemma pipewrite_loop_eq:
  fixes s :: "'x kfile_scheme"
  assumes "uspace_ok s pt" "current s me" "p_pagetable (procs s me) = pt" "p_killed (procs s me) = 0"
    and "pi_readopen (pipes s pi)" "pipe_ok (pipes s pi)" "map Some bs = uread (mem s) pt (addr + of_nat i) (length bs)"
  shows "pipewrite_loop pi addr i (length bs) s =
    Inr (if length bs \<le> pipe_free (pipes s pi) then Ret (int (i + length bs)) else Sleep (i + pipe_free (pipes s pi)),
      wake (ChanPipeRead (unat pi)) (s\<lparr>pipes := (pipes s)(pi := pipe_puts bs (pipes s pi))\<rparr>))"
  using assms
proof (induction bs arbitrary: i s)
  case Nil
  then show ?case by (simp add: thenK_def bindK_def wakeup_wake returnK_def)
next
  case (Cons b bs)
  let ?p = "pipes s pi" and ?s = "s\<lparr>pipes := (pipes s)(pi := pipe_put b (pipes s pi))\<rparr>"
  have run: "curproc s = Inr (me, s)" using Cons.prems(2) by (rule curproc_current)
  show ?case
  proof (cases "pipe_free ?p = 0")
    case True
    then show ?thesis using Cons.prems run pipe_full_iff [OF Cons.prems(6)]
      by (simp add: bindK_def thenK_def get_pipe_def getK_def killed_def wakeup_wake returnK_def)
  next
    case False
    have u: "umem (mem s) pt (addr + of_nat i) = Some b" "map Some bs = uread (mem s) pt (addr + of_nat (Suc i)) (length bs)"
      using Cons.prems(7) uread_append [of "mem s" pt "addr + of_nat i" 1 "length bs"]
      by (simp_all add: uread_def add.assoc add.commute [of 1])
    have free: "pipe_free ?p = Suc (pipe_free (pipe_put b ?p))" "pipe_ok (pipe_put b ?p)" "pi_readopen (pipe_put b ?p)"
      using pipe_put_facts [OF Cons.prems(6), where b = b] False Cons.prems(5) by simp_all
    have IH: "pipewrite_loop pi addr (Suc i) (length bs) ?s =
      Inr (if length bs \<le> pipe_free (pipe_put b ?p) then Ret (int (Suc i + length bs)) else Sleep (Suc i + pipe_free (pipe_put b ?p)),
        wake (ChanPipeRead (unat pi)) (s\<lparr>pipes := (pipes s)(pi := pipe_puts bs (pipe_put b ?p))\<rparr>))"
      using Cons.IH [of ?s "Suc i"] Cons.prems u free by (simp add: fun_upd_def cong: if_cong)
    have "pi_nwrite ?p \<noteq> pi_nread ?p + of_nat PIPESIZE" using pipe_full_iff [OF Cons.prems(6)] False by simp
    then have "pipewrite_loop pi addr i (Suc (length bs)) s = pipewrite_loop pi addr (Suc i) (length bs) ?s"
      using Cons.prems run copyin_byte [OF Cons.prems(1) u(1)]
      by (simp add: bindK_def thenK_def get_pipe_def getK_def killed_def get_proc_def set_pipe_def modifyK_def pipe_put_def)
    then show ?thesis using IH free(1) False by (simp add: fun_upd_def)
  qed
qed

text \<open>Taking bytes.\<close>

definition pipe_get :: "pipe \<Rightarrow> pipe" where
  "pipe_get p = p\<lparr>pi_nread := pi_nread p + 1\<rparr>"

lemma pipe_get_facts:
  assumes "pipe_ok p" "pi_nread p \<noteq> pi_nwrite p"
  shows "pipe_ok (pipe_get p)" "pipe_contents p = pi_data p ! (unat (pi_nread p) mod PIPESIZE) # pipe_contents (pipe_get p)"
  using pipe_ring.ok_get [of "pi_data p"] pipe_ring.contents_get [of "pi_nwrite p" "pi_nread p" "pi_data p"] assms
  by (auto simp: pipe_ok_def pipe_contents_def pipe_get_def)

lemma pipe_empty_iff: "pi_nread p = pi_nwrite p \<longleftrightarrow> pipe_contents p = []"
  using pipe_ring.contents_get [of "pi_nwrite p" "pi_nread p" "pi_data p"]
  by (cases "pi_nread p = pi_nwrite p") (auto simp: pipe_contents_def)

lemma copyout_byte:
  fixes s :: "'x kfile_scheme"
  assumes "uspace_ok s pt" "uwritable (mem s) pt va"
  shows "\<exists>t. copyout pt va [b] s = Inr (0, t) \<and> same_space s t pt \<and> umem (mem t) pt = ustored (umem (mem s) pt) va [b] 1"
proof -
  have "wpK (copyout pt va [b]) (\<lambda>r t. r = 0 \<and> same_space s t pt \<and> umem (mem t) pt = ustored (umem (mem s) pt) va [b] 1) s"
    by (rule wpK_mono [OF copyout_wp [OF assms(1), of "[b]" va]]) (use assms(2) in \<open>auto simp: less_Suc_eq\<close>)
  from wpK_ex [OF this] show ?thesis by auto
qed

lemma same_space_trans: "same_space s t pt \<Longrightarrow> same_space t u pt \<Longrightarrow> same_space s u pt"
  by (auto simp: same_space_def intro: kmem_frame_trans)

lemma uwritable_same: "same_space s t pt \<Longrightarrow> uwritable (mem t) pt va = uwritable (mem s) pt va"
  by (simp add: same_space_def uwritable_def)

lemma piperead_loop_eq:
  fixes s :: "'x kfile_scheme"
  assumes "uspace_ok s pt" "current s me" "p_pagetable (procs s me) = pt" "pipe_ok (pipes s pi)"
    and "\<forall>j < k. uwritable (mem s) pt (addr + of_nat (i + j))" "i + k < 2 ^ 64"
  shows "\<exists>t. piperead_loop pi addr i k s = Inr (int (i + min k (length (pipe_contents (pipes s pi)))), t)
    \<and> pipe_ok (pipes t pi) \<and> pipe_contents (pipes t pi) = drop k (pipe_contents (pipes s pi))
    \<and> uspace_ok t pt \<and> umem (mem t) pt = ustored (umem (mem s) pt) (addr + of_nat i) (take k (pipe_contents (pipes s pi))) (min k (length (pipe_contents (pipes s pi))))"
  using assms
proof (induction k arbitrary: i s)
  case 0
  then show ?case by (simp add: returnK_def ustored_def)
next
  case (Suc k)
  let ?p = "pipes s pi"
  show ?case
  proof (cases "pi_nread ?p = pi_nwrite ?p")
    case True
    then show ?thesis using Suc.prems pipe_empty_iff [of ?p]
      by (simp add: bindK_def get_pipe_def getK_def returnK_def ustored_def)
  next
    case False
    let ?b = "pi_data ?p ! (unat (pi_nread ?p) mod PIPESIZE)" and ?s = "s\<lparr>pipes := (pipes s)(pi := pipe_get ?p)\<rparr>"
    note g = pipe_get_facts [OF Suc.prems(4) False]
    have w: "uspace_ok ?s pt" "uwritable (mem ?s) pt (addr + of_nat i)" using Suc.prems(1,5) by auto
    obtain t where t: "copyout pt (addr + of_nat i) [?b] ?s = Inr (0, t)" "same_space ?s t pt"
      "umem (mem t) pt = ustored (umem (mem s) pt) (addr + of_nat i) [?b] 1"
      using copyout_byte [OF w, of ?b] by auto
    have fr: "uspace_ok t pt" "t = ?s\<lparr>mem := mem t, freelist := freelist t\<rparr>" using t(2) by (simp_all add: same_space_def kmem_frame_def)
    then obtain m f where "t = ?s\<lparr>mem := m, freelist := f\<rparr>" by blast
    then have p: "pipes t pi = pipe_get ?p" "procs t = procs s" "current t me"
      using Suc.prems(2) by (simp_all add: current_def mycpu_def)
    have "\<forall>j < k. uwritable (mem t) pt (addr + of_nat (Suc i + j))"
      using Suc.prems(5) uwritable_same [OF t(2)] by (auto simp del: of_nat_Suc of_nat_add)
    from Suc.IH [OF fr(1) p(3) _ _ this] p g Suc.prems(3,6) obtain u where
      u: "piperead_loop pi addr (Suc i) k t = Inr (int (Suc i + min k (length (pipe_contents (pipe_get ?p)))), u)"
      "pipe_ok (pipes u pi)" "pipe_contents (pipes u pi) = drop k (pipe_contents (pipe_get ?p))" "uspace_ok u pt"
      "umem (mem u) pt = ustored (umem (mem t) pt) (addr + of_nat (Suc i)) (take k (pipe_contents (pipe_get ?p))) (min k (length (pipe_contents (pipe_get ?p))))"
      by auto
    have "piperead_loop pi addr i (Suc k) s = piperead_loop pi addr (Suc i) k t"
      using False Suc.prems(2,3) t(1) curproc_current [of ?s me]
      by (simp add: bindK_def thenK_def get_pipe_def getK_def get_proc_def set_pipe_def modifyK_def pipe_get_def Let_def)
    moreover have "umem (mem u) pt = ustored (umem (mem s) pt) (addr + of_nat i) (?b # take k (pipe_contents (pipe_get ?p))) (1 + min k (length (pipe_contents (pipe_get ?p))))"
    proof -
      have "addr + of_nat (Suc i) = addr + of_nat i + of_nat 1" by simp
      moreover have "length (?b # take k (pipe_contents (pipe_get ?p))) \<le> 2 ^ 64" using Suc.prems(6) by (simp add: min_def)
      ultimately show ?thesis
        using ustored_append [of 1 "?b # take k (pipe_contents (pipe_get ?p))" "min k (length (pipe_contents (pipe_get ?p)))" "umem (mem s) pt" "addr + of_nat i"]
        unfolding u(5) t(3) by (simp add: min.commute algebra_simps)
    qed
    ultimately show ?thesis using u g(2) by simp
  qed
qed

text \<open>C11: A pipe is a bounded first-in first-out queue of 512 bytes. \<open>pipewrite\<close> of readable user
  memory to an open pipe appends the user's bytes, as many as there is room for, and returns
  the count when all fitted; otherwise it sleeps just after the last byte that fitted. Either
  way it wakes the readers and changes nothing else.\<close>

theorem pipewrite_fifo:
  fixes s :: "'x kfile_scheme"
  assumes "uspace_ok s pt" "current s me" "p_pagetable (procs s me) = pt" "p_killed (procs s me) = 0"
    and "pi_readopen (pipes s pi)" "pipe_ok (pipes s pi)" "map Some bs = uread (mem s) pt addr (length bs)"
  shows "\<exists>p. pipewrite pi addr (int (length bs)) s =
      Inr (if length bs \<le> pipe_free (pipes s pi) then Ret (int (length bs)) else Sleep (pipe_free (pipes s pi)),
        wake (ChanPipeRead (unat pi)) (s\<lparr>pipes := (pipes s)(pi := p)\<rparr>))
    \<and> pipe_ok p \<and> pipe_contents p = pipe_contents (pipes s pi) @ take (pipe_free (pipes s pi)) bs"
  using pipewrite_loop_eq [OF assms(1-6), of bs addr 0] assms(7) pipe_puts_facts [OF assms(6), of bs]
  by (auto simp: pipewrite_def)

text \<open>C12: \<open>piperead\<close> into writable user memory takes bytes from the front of the pipe in the order
  they were written: the requested number, or all of them, which it returns; the bytes are in
  the user's buffer afterwards and the rest of the pipe is left. An empty pipe that is still
  open for writing makes the reader sleep, or fail when it was killed.\<close>

theorem piperead_fifo:
  fixes s :: "'x kfile_scheme"
  assumes "uspace_ok s pt" "current s me" "p_pagetable (procs s me) = pt" "pipe_ok (pipes s pi)"
    and "\<forall>j < n. uwritable (mem s) pt (addr + of_nat j)" "n < 2 ^ 31"
  shows "if pipe_contents (pipes s pi) = [] \<and> pi_writeopen (pipes s pi)
    then piperead pi addr (int n) s = Inr (if p_killed (procs s me) \<noteq> 0 then Ret (- 1) else Sleep (addr, n), s)
    else \<exists>t. piperead pi addr (int n) s = Inr (Ret (int (min n (length (pipe_contents (pipes s pi))))), t)
      \<and> pipe_ok (pipes t pi) \<and> pipe_contents (pipes t pi) = drop n (pipe_contents (pipes s pi))
      \<and> uread (mem t) pt addr (min n (length (pipe_contents (pipes s pi)))) = map Some (take n (pipe_contents (pipes s pi)))"
proof (cases "pipe_contents (pipes s pi) = [] \<and> pi_writeopen (pipes s pi)")
  case True
  then show ?thesis using curproc_current [OF assms(2)] pipe_empty_iff [of "pipes s pi"]
    by (simp add: piperead_def bindK_def get_pipe_def getK_def killed_def returnK_def)
next
  case False
  let ?c = "pipe_contents (pipes s pi)"
  obtain t where t: "piperead_loop pi addr 0 n s = Inr (int (min n (length ?c)), t)" "pipe_ok (pipes t pi)"
    "pipe_contents (pipes t pi) = drop n ?c" "umem (mem t) pt = ustored (umem (mem s) pt) addr (take n ?c) (min n (length ?c))"
    using piperead_loop_eq [OF assms(1-4), of n addr 0] assms(5,6) by auto
  have "uread (mem t) pt addr (min n (length ?c)) = map Some (take n ?c)"
    using t(4) assms(6) by (intro nth_equalityI) (auto simp: uread_def ustored_def unat_of_nat_u64)
  then show ?thesis
    using False t curproc_current [OF assms(2)] pipe_empty_iff [of "pipes s pi"]
    by (auto simp: piperead_def bindK_def thenK_def get_pipe_def getK_def wakeup_wake returnK_def wake_def)
qed

section \<open>A process with a pipe\<close>

definition no_inode :: inode where
  "no_inode = \<lparr>i_dev = 0, i_inum = 0, i_ref = 0, i_lock = initsleeplock ''inode'', i_valid = False, i_type = 0,
     i_major = 0, i_minor = 0, i_nlink = 0, i_size = 0, i_addrs = replicate 13 0\<rparr>"

definition no_file :: filerec where
  "no_file = \<lparr>f_type = FD_NONE, f_ref = 0, f_readable = False, f_writable = False, f_pipe = 0, f_ip = None, f_off = 0, f_major = 0\<rparr>"

definition some_sb :: superblock where
  "some_sb = \<lparr>sb_magic = FSMAGIC, sb_size = 2000, sb_nblocks = 1954, sb_ninodes = 200, sb_nlog = 30, sb_logstart = 2,
     sb_inodestart = 32, sb_bmapstart = 45\<rparr>"

text \<open>Process 0 runs with one page of user memory and a pipe at address 0.\<close>

definition with_pipe :: "pipe \<Rightarrow> kfile" where
  "with_pipe p = (klog.extend (log_disk (\<lambda>_. []) (some_log [])) \<lparr>sb = some_sb, itable = (\<lambda>_. no_inode), sp_de = 0, sp_elf = 0,
     sp_ph = 0, ftable = (\<lambda>_. no_file), pipes = (\<lambda>_. p)\<rparr>)
     \<lparr>mem := one_page_mem, freelist := 0, kend := 0x80000000,
      procs := (\<lambda>_. no_proc)(0 := no_proc\<lparr>p_pagetable := 0x87FFE000, p_state := RUNNING\<rparr>)\<rparr>"

lemma uspace_ok_cong:
  "mem s = mem t \<Longrightarrow> freelist s = freelist t \<Longrightarrow> kend s = kend t \<Longrightarrow> uspace_ok s pt = uspace_ok t pt"
  by (simp add: uspace_ok_def pt_ok_def frames_ok_def kmem_ok_def kmem_inv_def valid_page_def free_pages_def)

lemma with_pipe_fields:
  "mem (with_pipe p) = one_page_mem" "freelist (with_pipe p) = 0" "kend (with_pipe p) = 0x80000000"
  "procs (with_pipe p) 0 = no_proc\<lparr>p_pagetable := 0x87FFE000, p_state := RUNNING\<rparr>" "pipes (with_pipe p) 0 = p"
  by (simp_all add: with_pipe_def klog.defs)

lemma with_pipe_facts:
  "uspace_ok (with_pipe p) 0x87FFE000" "current (with_pipe p) 0" "p_pagetable (procs (with_pipe p) 0) = 0x87FFE000"
  "p_killed (procs (with_pipe p) 0) = 0"
proof -
  show "uspace_ok (with_pipe p) 0x87FFE000"
    using one_page_ok(1) uspace_ok_cong [of "with_pipe p" one_page] by (simp add: with_pipe_fields one_page_def)
  show "current (with_pipe p) 0"
    using log_disk_facts(2) [of "\<lambda>_. []" "some_log []"] by (simp add: with_pipe_def klog.defs current_def mycpu_def)
qed (simp_all add: with_pipe_fields no_proc_def)

lemma user_byte: "n < 4096 \<Longrightarrow> uwritable one_page_mem 0x87FFE000 (of_nat n) \<and> umem one_page_mem 0x87FFE000 (of_nat n) \<noteq> None"
proof -
  assume n: "n < 4096"
  then have "PGROUNDDOWN (of_nat n) = 0"
    by (simp add: word_unat_eq_iff unat_PGROUNDDOWN unat_of_nat)
  then show ?thesis by (simp add: uwritable_def umem_def uaddr_def pte_of_one_page one_page_entries)
qed

definition pipe_with :: "bytes \<Rightarrow> pipe" where
  "pipe_with bs = \<lparr>pi_data = bs @ replicate (PIPESIZE - length bs) 0, pi_nread = 0, pi_nwrite = of_nat (length bs), pi_readopen = True, pi_writeopen = True\<rparr>"

lemma pipe_with_78: "pipe_ok (pipe_with [7, 8])" "pipe_contents (pipe_with [7, 8]) = [7, 8]"
proof -
  have "[0..<2] = [0, 1 :: nat]" by (simp add: upt_rec)
  then show "pipe_ok (pipe_with [7, 8])" "pipe_contents (pipe_with [7, 8]) = [7, 8]"
    by (simp_all add: pipe_with_def pipe_ok_def ring_ok_def pipe_contents_def ring_contents_def PIPESIZE_def)
qed

theorem pipewrite_fifo_witness:
  "\<exists>b t. umem one_page_mem 0x87FFE000 16 = Some b \<and> pipewrite 0 16 1 (with_pipe (pipe_with [7, 8])) = Inr (Ret 1, t)
    \<and> pipe_contents (pipes t 0) = [7, 8, b]"
proof -
  obtain b where b: "umem one_page_mem 0x87FFE000 16 = Some b" using user_byte [of 16] by auto
  then have "map Some [b] = uread (mem (with_pipe (pipe_with [7, 8]))) 0x87FFE000 16 (length [b])"
    by (simp add: uread_def with_pipe_fields)
  from pipewrite_fifo [where s = "with_pipe (pipe_with [7, 8])", OF with_pipe_facts, where pi = 0 and bs = "[b]" and addr = 16] this pipe_with_78 b show ?thesis
    by (auto simp: with_pipe_fields pipe_free_def PIPESIZE_def pipe_with_def wake_def)
qed

theorem piperead_fifo_witness:
  "\<exists>t. piperead 0 16 5 (with_pipe (pipe_with [7, 8])) = Inr (Ret 2, t) \<and> pipe_contents (pipes t 0) = []
    \<and> uread (mem t) 0x87FFE000 16 (Suc (Suc 0)) = [Some 7, Some 8]"
proof -
  have "uwritable (mem (with_pipe (pipe_with [7, 8]))) 0x87FFE000 (16 + of_nat j)" if "j < 5" for j
    using user_byte [of "16 + j"] that by (simp add: with_pipe_fields)
  with piperead_fifo [OF with_pipe_facts(1-3), of "pipe_with [7, 8]" 0 5 16] pipe_with_78 show ?thesis
    by (auto simp: with_pipe_fields)
qed

end
