(* ===== verification/File.thy ===== *)
theory File
  imports Pipe
begin

text \<open>
  Open files (\<open>kernel/file.c\<close>) and \<open>pipealloc\<close>. Sections under \<open>ftable.lock\<close> are atomic. Reading and
  writing dispatch to pipes, devices and inodes; \<open>Sleep\<close> is passed on from the pipe or the device.
\<close>

section \<open>The file table\<close>

definition NFILE :: nat where "NFILE = 100"
definition NDEV :: nat where "NDEV = 10"

definition filealloc :: "('x kfile_scheme, nat option) km" where
  "filealloc = (bindK (getK (\<lambda>s. find (\<lambda>f. f_ref (ftable s f) = 0) [0..<NFILE])) (\<lambda>f.
    (case f of
      Some f \<Rightarrow> (thenK (set_file f (\<lambda>f. f\<lparr>f_ref := 1\<rparr>)) (
        returnK (Some f)))
      | None \<Rightarrow> returnK None)))"

definition filedup :: "nat \<Rightarrow> ('x kfile_scheme, nat) km" where
  "filedup f = (bindK (get_file f) (\<lambda>fl.
    if f_ref fl < 1 then panicK ''filedup'' else
    thenK (set_file f (\<lambda>f. f\<lparr>f_ref := f_ref f + 1\<rparr>)) (
    returnK f)))"

definition fileclose :: "nat \<Rightarrow> ('x kfile_scheme, unit) km" where
  "fileclose f = (bindK (get_file f) (\<lambda>ff.
    if f_ref ff < 1 then panicK ''fileclose'' else
    thenK (set_file f (\<lambda>f. f\<lparr>f_ref := f_ref f - 1\<rparr>)) (
    if f_ref ff - 1 > 0 then returnK () else
    thenK (set_file f (\<lambda>f. f\<lparr>f_ref := 0, f_type := FD_NONE\<rparr>)) (
    (case f_type ff of
      FD_PIPE \<Rightarrow> pipeclose (f_pipe ff) (f_writable ff)
      | FD_NONE \<Rightarrow> returnK ()
      | _ \<Rightarrow> (thenK begin_op (
        thenK ((case f_ip ff of None \<Rightarrow> panicK ''kerneltrap'' | Some ip \<Rightarrow> iput ip)) (
        end_op))))))))"

text \<open>The bytes of a \<open>struct stat\<close>: 24 bytes, with 4 bytes of padding before the size.\<close>

definition stat_bytes :: "stat \<Rightarrow> bytes \<Rightarrow> bytes" where
  "stat_bytes st pad = put_le 8 (put_le 2 (put_le 2 (put_le 4 (put_le 4 pad 0 (unat (st_dev st))) 4 (unat (st_ino st)))
     8 (unat (st_type st))) 10 (unat (st_nlink st))) 16 (unat (st_size st))"

text \<open>\<open>pad\<close> is what the stack held where \<open>st\<close> is: its padding reaches the user.\<close>

definition filestat :: "bytes \<Rightarrow> nat \<Rightarrow> u64 \<Rightarrow> ('x kfile_scheme, int) km" where
  "filestat pad f addr = (bindK curproc (\<lambda>p.
    bindK (get_file f) (\<lambda>fl.
    if f_type fl \<noteq> FD_INODE \<and> f_type fl \<noteq> FD_DEVICE then returnK (- 1) else
    thenK (ilock (f_ip fl)) (
    bindK (getK (\<lambda>s. stati (itable s (the (f_ip fl))))) (\<lambda>st.
    thenK (iunlock (f_ip fl)) (
    bindK (get_proc p) (\<lambda>q.
    bindK (copyout (p_pagetable q) addr (stat_bytes st pad)) (\<lambda>r.
    returnK (if r < 0 then - 1 else 0)))))))))"

definition fileread :: "nat \<Rightarrow> u64 \<Rightarrow> int \<Rightarrow> ('x kfile_scheme, (u64 \<times> nat) run) km" where
  "fileread f addr n = (bindK (get_file f) (\<lambda>fl.
    if \<not> f_readable fl then returnK (Ret (- 1)) else
    (case f_type fl of
      FD_PIPE \<Rightarrow> piperead (f_pipe fl) addr n
      | FD_DEVICE \<Rightarrow> (bindK (getK devsw) (\<lambda>sw.
        let mj = sint (f_major fl) in
        if mj < 0 \<or> mj \<ge> int NDEV \<or> fst (sw (nat mj)) = None then returnK (Ret (- 1)) else
        consoleread True addr n))
      | FD_INODE \<Rightarrow> (thenK (ilock (f_ip fl)) (
        bindK (readi (the (f_ip fl)) True addr (f_off fl) (word_of_int n)) (\<lambda>r.
        thenK ((if r > 0 then set_file f (\<lambda>f. f\<lparr>f_off := f_off f + word_of_int r\<rparr>) else returnK ())) (
        thenK (iunlock (f_ip fl)) (
        returnK (Ret r))))))
      | FD_NONE \<Rightarrow> panicK ''fileread'')))"

text \<open>One round of the loop of \<open>filewrite\<close>: the value of \<open>writei\<close>.\<close>

definition FILEWRITE_MAX :: int where
  "FILEWRITE_MAX = int (((MAXOPBLOCKS - 1 - 1 - 2) div 2) * BSIZE)"

definition filewrite_chunk :: "nat \<Rightarrow> u64 \<Rightarrow> int \<Rightarrow> ('x kfile_scheme, int) km" where
  "filewrite_chunk f addr n1 = (thenK begin_op (
    bindK (get_file f) (\<lambda>fl.
    thenK (ilock (f_ip fl)) (
    bindK (writei (the (f_ip fl)) True addr (f_off fl) (word_of_int n1)) (\<lambda>r.
    thenK ((if r > 0 then set_file f (\<lambda>f. f\<lparr>f_off := f_off f + word_of_int r\<rparr>) else returnK ())) (
    thenK (iunlock (f_ip fl)) (
    thenK end_op (
    returnK r))))))))"

function filewrite_loop :: "nat \<Rightarrow> u64 \<Rightarrow> int \<Rightarrow> int \<Rightarrow> ('x kfile_scheme, int) km" where
  "filewrite_loop f addr n i = (if \<not> i < n then returnK i else (let n1 = (if n - i > FILEWRITE_MAX then FILEWRITE_MAX else n - i) in
    bindK (filewrite_chunk f (addr + word_of_int i) n1) (\<lambda>r.
    if r \<noteq> n1 then returnK i else
    filewrite_loop f addr n (i + n1))))"
  by pat_completeness auto
termination
  by (relation "measure (\<lambda>(f, addr, n, i). nat (n - i))") (auto simp: FILEWRITE_MAX_def MAXOPBLOCKS_def BSIZE_def)

definition filewrite :: "nat \<Rightarrow> u64 \<Rightarrow> int \<Rightarrow> ('x kfile_scheme, nat run) km" where
  "filewrite f addr n = (bindK (get_file f) (\<lambda>fl.
    if \<not> f_writable fl then returnK (Ret (- 1)) else
    (case f_type fl of
      FD_PIPE \<Rightarrow> pipewrite (f_pipe fl) addr n
      | FD_DEVICE \<Rightarrow> (bindK (getK devsw) (\<lambda>sw.
        let mj = sint (f_major fl) in
        if mj < 0 \<or> mj \<ge> int NDEV \<or> snd (sw (nat mj)) = None then returnK (Ret (- 1)) else
        consolewrite True addr n))
      | FD_INODE \<Rightarrow> (bindK (filewrite_loop f addr n 0) (\<lambda>i.
        returnK (Ret (if i = n then n else - 1))))
      | FD_NONE \<Rightarrow> panicK ''filewrite'')))"

section \<open>Creating a pipe\<close>

definition close_opt :: "nat option \<Rightarrow> ('x kfile_scheme, unit) km" where
  "close_opt f = (case f of None \<Rightarrow> returnK () | Some f \<Rightarrow> fileclose f)"

text \<open>The two files, or \<open>None\<close> for the value -1.\<close>

definition pipealloc :: "('x kfile_scheme, (nat \<times> nat) option) km" where
  "pipealloc = (bindK filealloc (\<lambda>f0.
    bindK ((case f0 of None \<Rightarrow> returnK None | Some _ \<Rightarrow> filealloc)) (\<lambda>f1.
    bindK ((case f1 of None \<Rightarrow> returnK 0 | Some _ \<Rightarrow> kalloc)) (\<lambda>pi.
    (case (f0, f1) of
      (Some a, Some b) \<Rightarrow> (if pi = 0 then (thenK (close_opt f0) (
        thenK (close_opt f1) (
        returnK None))) else
        thenK (set_pipe pi (\<lambda>p. p\<lparr>pi_readopen := True, pi_writeopen := True, pi_nwrite := 0, pi_nread := 0\<rparr>)) (
        thenK (set_file a (\<lambda>f. f\<lparr>f_type := FD_PIPE, f_readable := True, f_writable := False, f_pipe := pi\<rparr>)) (
        thenK (set_file b (\<lambda>f. f\<lparr>f_type := FD_PIPE, f_readable := False, f_writable := True, f_pipe := pi\<rparr>)) (
        returnK (Some (a, b))))))
      | _ \<Rightarrow> (thenK (close_opt f0) (
        thenK (close_opt f1) (
        returnK None))))))))"

declare filewrite_loop.simps [simp del]

end
