(* ===== verification/Sysfile.thy ===== *)
theory Sysfile
  imports File Abi
begin

text \<open>
  Fetching system call arguments (\<open>kernel/syscall.c\<close>) and the file system calls
  (\<open>kernel/sysfile.c\<close>). The registers of the caller are words of its trapframe page. A path is the
  bytes before the null that \<open>argstr\<close> found. \<open>exec\<close> and the calls that need it are in \<open>Exec\<close>.
\<close>

section \<open>System call arguments\<close>

text \<open>The offsets of the registers in \<open>struct trapframe\<close>.\<close>

definition tf_kernel_satp :: u64 where "tf_kernel_satp = 0"
definition tf_kernel_sp :: u64 where "tf_kernel_sp = 8"
definition tf_kernel_trap :: u64 where "tf_kernel_trap = 16"
definition tf_epc :: u64 where "tf_epc = 24"
definition tf_kernel_hartid :: u64 where "tf_kernel_hartid = 32"
definition tf_sp :: u64 where "tf_sp = 48"
definition tf_a :: "nat \<Rightarrow> u64" where "tf_a n = 112 + 8 * of_nat n"

definition get_tf :: "u64 \<Rightarrow> ('x kproc_scheme, u64) km" where
  "get_tf off = (bindK curproc (\<lambda>i.
    bindK (get_proc i) (\<lambda>p.
    read64 (p_trapframe p + off))))"

definition set_tf :: "u64 \<Rightarrow> u64 \<Rightarrow> ('x kproc_scheme, unit) km" where
  "set_tf off v = (bindK curproc (\<lambda>i.
    bindK (get_proc i) (\<lambda>p.
    write64 (p_trapframe p + off) v)))"

text \<open>The word fetched, or \<open>None\<close> for the value -1.\<close>

definition fetchaddr :: "u64 \<Rightarrow> ('x kproc_scheme, u64 option) km" where
  "fetchaddr addr = (bindK curproc (\<lambda>i.
    bindK (get_proc i) (\<lambda>p.
    if addr \<ge> p_sz p \<or> addr + 8 > p_sz p then returnK None else
    bindK (copyin (p_pagetable p) addr 8) (\<lambda>(r, bs).
    if r \<noteq> 0 then returnK None else
    returnK (Some (of_nat (get_le 8 bs 0)))))))"

text \<open>The value and the bytes stored in \<open>buf\<close>.\<close>

definition fetchstr :: "u64 \<Rightarrow> nat \<Rightarrow> ('x kproc_scheme, int \<times> bytes) km" where
  "fetchstr addr mx = (bindK curproc (\<lambda>i.
    bindK (get_proc i) (\<lambda>p.
    bindK (copyinstr (p_pagetable p) addr mx) (\<lambda>(r, bs).
    if r < 0 then returnK (- 1, bs) else
    (case strlen bs of None \<Rightarrow> undefK ''strlen'' | Some n \<Rightarrow> returnK (int n, bs))))))"

definition argraw :: "nat \<Rightarrow> ('x kproc_scheme, u64) km" where
  "argraw n = (if n < 6 then get_tf (tf_a n) else panicK ''argraw'')"

definition argint :: "nat \<Rightarrow> ('x kproc_scheme, int) km" where
  "argint n = (bindK (argraw n) (\<lambda>v.
    returnK (sint (ucast v :: u32))))"

definition argaddr :: "nat \<Rightarrow> ('x kproc_scheme, u64) km" where
  "argaddr n = argraw n"

definition argstr :: "nat \<Rightarrow> nat \<Rightarrow> ('x kproc_scheme, int \<times> bytes) km" where
  "argstr n mx = (bindK (argaddr n) (\<lambda>addr.
    fetchstr addr mx))"

definition MAXPATH :: nat where "MAXPATH = 128"

text \<open>A path argument, or \<open>None\<close> when \<open>argstr\<close> fails.\<close>

definition argpath :: "nat \<Rightarrow> ('x kproc_scheme, bytes option) km" where
  "argpath n = (bindK (argstr n MAXPATH) (\<lambda>(r, bs).
    returnK (if r < 0 then None else Some (takeWhile (\<lambda>c. c \<noteq> 0) bs))))"

section \<open>File descriptors\<close>

definition argfd :: "nat \<Rightarrow> ('x kproc_scheme, (nat \<times> nat) option) km" where
  "argfd n = (bindK (argint n) (\<lambda>fd.
    if fd < 0 \<or> fd \<ge> int NOFILE then returnK None else
    bindK curproc (\<lambda>i.
    bindK (get_proc i) (\<lambda>p.
    (case p_ofile p ! nat fd of
      None \<Rightarrow> returnK None
      | Some f \<Rightarrow> returnK (Some (nat fd, f)))))))"

definition fdalloc :: "nat \<Rightarrow> ('x kproc_scheme, int) km" where
  "fdalloc f = (bindK curproc (\<lambda>i.
    bindK (get_proc i) (\<lambda>p.
    (case find (\<lambda>fd. p_ofile p ! fd = None) [0..<NOFILE] of
      Some fd \<Rightarrow> (thenK (set_proc i (\<lambda>p. p\<lparr>p_ofile := (p_ofile p)[fd := Some f]\<rparr>)) (
        returnK (int fd)))
      | None \<Rightarrow> returnK (- 1)))))"

definition fdclear :: "nat \<Rightarrow> ('x kproc_scheme, unit) km" where
  "fdclear fd = (bindK curproc (\<lambda>i.
    set_proc i (\<lambda>p. p\<lparr>p_ofile := (p_ofile p)[fd := None]\<rparr>)))"

definition sys_dup :: "('x kfile_scheme, int) km" where
  "sys_dup = (bindK (argfd 0) (\<lambda>a.
    (case a of None \<Rightarrow> returnK (- 1) | Some (_, f) \<Rightarrow> (bindK (fdalloc f) (\<lambda>fd.
      if fd < 0 then returnK (- 1) else
      thenK (filedup f) (
      returnK fd))))))"

definition sys_read :: "('x kfile_scheme, (u64 \<times> nat) run) km" where
  "sys_read = (bindK (argaddr 1) (\<lambda>p.
    bindK (argint 2) (\<lambda>n.
    bindK (argfd 0) (\<lambda>a.
    (case a of None \<Rightarrow> returnK (Ret (- 1)) | Some (_, f) \<Rightarrow> fileread f p n)))))"

definition sys_write :: "('x kfile_scheme, nat run) km" where
  "sys_write = (bindK (argaddr 1) (\<lambda>p.
    bindK (argint 2) (\<lambda>n.
    bindK (argfd 0) (\<lambda>a.
    (case a of None \<Rightarrow> returnK (Ret (- 1)) | Some (_, f) \<Rightarrow> filewrite f p n)))))"

definition sys_close :: "('x kfile_scheme, int) km" where
  "sys_close = (bindK (argfd 0) (\<lambda>a.
    (case a of None \<Rightarrow> returnK (- 1) | Some (fd, f) \<Rightarrow> (thenK (fdclear fd) (
      thenK (fileclose f) (
      returnK 0))))))"

definition sys_fstat :: "bytes \<Rightarrow> ('x kfile_scheme, int) km" where
  "sys_fstat pad = (bindK (argaddr 1) (\<lambda>st.
    bindK (argfd 0) (\<lambda>a.
    (case a of None \<Rightarrow> returnK (- 1) | Some (_, f) \<Rightarrow> filestat pad f st))))"

definition sys_ttyraw :: "('x kfile_scheme, int) km" where
  "sys_ttyraw = (bindK (argint 0) (\<lambda>on.
    thenK (console_set_rawmode on) (
    returnK 0)))"

section \<open>Links\<close>

text \<open>Giving up inside a transaction.\<close>

definition end_fail :: "('x klog_scheme, int) km" where
  "end_fail = (thenK end_op (
    returnK (- 1)))"

definition sys_link_bad :: "nat \<Rightarrow> ('x kfile_scheme, int) km" where
  "sys_link_bad ip = (thenK (ilock (Some ip)) (
    thenK (set_inode ip (\<lambda>i. i\<lparr>i_nlink := i_nlink i - 1\<rparr>)) (
    thenK (iupdate ip) (
    thenK (iunlockput ip) (
    end_fail)))))"

definition sys_link :: "('x kfile_scheme, int) km" where
  "sys_link = (bindK (argpath 0) (\<lambda>old.
    (case old of None \<Rightarrow> returnK (- 1) | Some old \<Rightarrow> (bindK (argpath 1) (\<lambda>new.
      (case new of None \<Rightarrow> returnK (- 1) | Some new \<Rightarrow> (thenK begin_op (
        bindK (namei old) (\<lambda>ipo.
        (case ipo of None \<Rightarrow> end_fail | Some ip \<Rightarrow> (thenK (ilock (Some ip)) (
          bindK (get_inode ip) (\<lambda>i.
          if i_type i = T_DIR then (thenK (iunlockput ip) (
            end_fail)) else
          thenK (set_inode ip (\<lambda>i. i\<lparr>i_nlink := i_nlink i + 1\<rparr>)) (
          thenK (iupdate ip) (
          thenK (iunlock (Some ip)) (
          bindK (nameiparent new (replicate DIRSIZ 0)) (\<lambda>(dpo, name).
          (case dpo of None \<Rightarrow> sys_link_bad ip | Some dp \<Rightarrow> (thenK (ilock (Some dp)) (
            bindK (get_inode dp) (\<lambda>d.
            bindK (get_inode ip) (\<lambda>i.
            bindK ((if i_dev d \<noteq> i_dev i then returnK (- 1) else dirlink dp name (i_inum i))) (\<lambda>r.
            if r < 0 then (thenK (iunlockput dp) (
              sys_link_bad ip)) else
            thenK (iunlockput dp) (
            thenK (iput ip) (
            thenK end_op (
            returnK 0))))))))))))))))))))))))))"

fun isdirempty_loop :: "nat \<Rightarrow> u32 list \<Rightarrow> ('x kfs_scheme, bool) km" where
  "isdirempty_loop dp [] = returnK True"
| "isdirempty_loop dp (off # offs) = (bindK (read_dirent dp off ''isdirempty: readi'') (\<lambda>de.
  if de_inum de \<noteq> 0 then returnK False else
  isdirempty_loop dp offs))"

definition isdirempty :: "nat \<Rightarrow> ('x kfs_scheme, bool) km" where
  "isdirempty dp = (bindK (get_inode dp) (\<lambda>d.
    isdirempty_loop dp (dir_offsets 2 (i_size d))))"

definition DOT :: bytes where "DOT = [of_char (CHR ''.''), 0]"
definition DOTDOT :: bytes where "DOTDOT = [of_char (CHR ''.''), of_char (CHR ''.''), 0]"

definition sys_unlink_bad :: "nat \<Rightarrow> ('x kfile_scheme, int) km" where
  "sys_unlink_bad dp = (thenK (iunlockput dp) (
    end_fail))"

definition sys_unlink :: "('x kfile_scheme, int) km" where
  "sys_unlink = (bindK (argpath 0) (\<lambda>pth.
    (case pth of None \<Rightarrow> returnK (- 1) | Some pth \<Rightarrow> (thenK begin_op (
      bindK (nameiparent pth (replicate DIRSIZ 0)) (\<lambda>(dpo, name).
      (case dpo of None \<Rightarrow> end_fail | Some dp \<Rightarrow> (thenK (ilock (Some dp)) (
        bindK (namecmp name DOT) (\<lambda>c1.
        bindK ((if c1 = 0 then returnK 0 else namecmp name DOTDOT)) (\<lambda>c2.
        if c1 = 0 \<or> c2 = 0 then sys_unlink_bad dp else
        bindK (dirlookup dp name) (\<lambda>found.
        (case found of None \<Rightarrow> sys_unlink_bad dp | Some (ip, off) \<Rightarrow> (thenK (ilock (Some ip)) (
          bindK (get_inode ip) (\<lambda>i.
          if sint (i_nlink i) < 1 then panicK ''unlink: nlink < 1'' else
          bindK ((if i_type i = T_DIR then isdirempty ip else returnK True)) (\<lambda>e.
          if \<not> e then (thenK (iunlockput ip) (
            sys_unlink_bad dp)) else
          bindK (getK sp_de) (\<lambda>a.
          thenK (modifyK (\<lambda>s. s\<lparr>mem := write_mem (mem s) a (replicate DIRENT 0)\<rparr>)) (
          bindK (writei dp False a off (of_nat DIRENT)) (\<lambda>r.
          if r \<noteq> int DIRENT then panicK ''unlink: writei'' else
          thenK ((if i_type i = T_DIR then (thenK (set_inode dp (\<lambda>d. d\<lparr>i_nlink := i_nlink d - 1\<rparr>)) (
            iupdate dp))
            else returnK ())) (
          thenK (iunlockput dp) (
          thenK (set_inode ip (\<lambda>i. i\<lparr>i_nlink := i_nlink i - 1\<rparr>)) (
          thenK (iupdate ip) (
          thenK (iunlockput ip) (
          thenK end_op (
          returnK 0))))))))))))))))))))))))))"

section \<open>Creating and opening\<close>

definition create_fail :: "nat \<Rightarrow> nat \<Rightarrow> ('x kfs_scheme, nat option) km" where
  "create_fail ip dp = (thenK (set_inode ip (\<lambda>i. i\<lparr>i_nlink := 0\<rparr>)) (
    thenK (iupdate ip) (
    thenK (iunlockput ip) (
    thenK (iunlockput dp) (
    returnK None)))))"

definition create :: "bytes \<Rightarrow> u16 \<Rightarrow> u16 \<Rightarrow> u16 \<Rightarrow> ('x kfs_scheme, nat option) km" where
  "create pth type major minor = (bindK (nameiparent pth (replicate DIRSIZ 0)) (\<lambda>(dpo, name).
    (case dpo of None \<Rightarrow> returnK None | Some dp \<Rightarrow> (thenK (ilock (Some dp)) (
      bindK (dirlookup dp name) (\<lambda>found.
      (case found of
        Some (ip, off) \<Rightarrow> (thenK (iunlockput dp) (
          thenK (ilock (Some ip)) (
          bindK (get_inode ip) (\<lambda>i.
          if type = T_FILE \<and> (i_type i = T_FILE \<or> i_type i = T_DEVICE) then returnK (Some ip) else
          thenK (iunlockput ip) (
          returnK None)))))
        | None \<Rightarrow> (bindK (get_inode dp) (\<lambda>d.
          bindK (ialloc (i_dev d) type) (\<lambda>new.
          (case new of
            None \<Rightarrow> (thenK (iunlockput dp) (
              returnK None))
            | Some ip \<Rightarrow> (thenK (ilock (Some ip)) (
              thenK (set_inode ip (\<lambda>i. i\<lparr>i_major := major, i_minor := minor, i_nlink := 1\<rparr>)) (
              thenK (iupdate ip) (
              bindK (get_inode ip) (\<lambda>i.
              bindK ((if type = T_DIR then dirlink ip DOT (i_inum i) else returnK 0)) (\<lambda>r1.
              bindK ((if type = T_DIR \<and> \<not> r1 < 0 then dirlink ip DOTDOT (i_inum d) else returnK 0)) (\<lambda>r2.
              if r1 < 0 \<or> r2 < 0 then create_fail ip dp else
              bindK (dirlink dp name (i_inum i)) (\<lambda>r.
              if r < 0 then create_fail ip dp else
              thenK ((if type = T_DIR then (thenK (set_inode dp (\<lambda>d. d\<lparr>i_nlink := i_nlink d + 1\<rparr>)) (
                iupdate dp))
                else returnK ())) (
              thenK (iunlockput dp) (
              returnK (Some ip))))))))))))))))))))))"

text \<open>The part of \<open>sys_open\<close> from the locked inode on.\<close>

definition sys_open_inode :: "nat \<Rightarrow> u32 \<Rightarrow> ('x kfile_scheme, int) km" where
  "sys_open_inode ip omode = (bindK (get_inode ip) (\<lambda>i.
    if i_type i = T_DEVICE \<and> (sint (i_major i) < 0 \<or> sint (i_major i) \<ge> int NDEV) then (thenK (iunlockput ip) (
      end_fail)) else
    bindK filealloc (\<lambda>fo.
    bindK ((case fo of None \<Rightarrow> returnK (- 1) | Some f \<Rightarrow> fdalloc f)) (\<lambda>fd.
    if fd < 0 then (thenK (close_opt fo) (
      thenK (iunlockput ip) (
      end_fail))) else
    let f = the fo in
    thenK ((if i_type i = T_DEVICE then set_file f (\<lambda>f. f\<lparr>f_type := FD_DEVICE, f_major := i_major i\<rparr>)
      else set_file f (\<lambda>f. f\<lparr>f_type := FD_INODE, f_off := 0\<rparr>))) (
    thenK (set_file f (\<lambda>f. f\<lparr>f_ip := Some ip, f_readable := (omode AND O_WRONLY = 0),
      f_writable := (omode AND O_WRONLY \<noteq> 0 \<or> omode AND O_RDWR \<noteq> 0)\<rparr>)) (
    thenK ((if omode AND O_TRUNC \<noteq> 0 \<and> i_type i = T_FILE then itrunc ip else returnK ())) (
    thenK (iunlock (Some ip)) (
    thenK end_op (
    returnK fd)))))))))"

definition sys_open :: "('x kfile_scheme, int) km" where
  "sys_open = (bindK (argint 1) (\<lambda>om.
    let omode = word_of_int om in
    bindK (argpath 0) (\<lambda>pth.
    (case pth of None \<Rightarrow> returnK (- 1) | Some pth \<Rightarrow> (thenK begin_op (
      if omode AND O_CREATE \<noteq> 0 then (bindK (create pth T_FILE 0 0) (\<lambda>ipo.
        (case ipo of None \<Rightarrow> end_fail | Some ip \<Rightarrow> sys_open_inode ip omode))) else
      bindK (namei pth) (\<lambda>ipo.
      (case ipo of None \<Rightarrow> end_fail | Some ip \<Rightarrow> (thenK (ilock (Some ip)) (
        bindK (get_inode ip) (\<lambda>i.
        if i_type i = T_DIR \<and> omode \<noteq> O_RDONLY then (thenK (iunlockput ip) (
          end_fail)) else
        sys_open_inode ip omode)))))))))))"

definition sys_mkdir :: "('x kfile_scheme, int) km" where
  "sys_mkdir = (thenK begin_op (
    bindK (argpath 0) (\<lambda>pth.
    bindK ((case pth of None \<Rightarrow> returnK None | Some pth \<Rightarrow> create pth T_DIR 0 0)) (\<lambda>ipo.
    (case ipo of None \<Rightarrow> end_fail | Some ip \<Rightarrow> (thenK (iunlockput ip) (
      thenK end_op (
      returnK 0))))))))"

definition sys_mknod :: "('x kfile_scheme, int) km" where
  "sys_mknod = (thenK begin_op (
    bindK (argint 1) (\<lambda>major.
    bindK (argint 2) (\<lambda>minor.
    bindK (argpath 0) (\<lambda>pth.
    bindK ((case pth of None \<Rightarrow> returnK None | Some pth \<Rightarrow> create pth T_DEVICE (word_of_int major) (word_of_int minor))) (\<lambda>ipo.
    (case ipo of None \<Rightarrow> end_fail | Some ip \<Rightarrow> (thenK (iunlockput ip) (
      thenK end_op (
      returnK 0))))))))))"

definition sys_chdir :: "('x kfile_scheme, int) km" where
  "sys_chdir = (bindK curproc (\<lambda>p.
    thenK begin_op (
    bindK (argpath 0) (\<lambda>pth.
    bindK ((case pth of None \<Rightarrow> returnK None | Some pth \<Rightarrow> namei pth)) (\<lambda>ipo.
    (case ipo of None \<Rightarrow> end_fail | Some ip \<Rightarrow> (thenK (ilock (Some ip)) (
      bindK (get_inode ip) (\<lambda>i.
      if i_type i \<noteq> T_DIR then (thenK (iunlockput ip) (
        end_fail)) else
      thenK (iunlock (Some ip)) (
      bindK (get_proc p) (\<lambda>q.
      thenK ((case p_cwd q of None \<Rightarrow> panicK ''kerneltrap'' | Some d \<Rightarrow> iput d)) (
      thenK end_op (
      thenK (set_proc p (\<lambda>p. p\<lparr>p_cwd := Some ip\<rparr>)) (
      returnK 0))))))))))))))"

definition sys_pipe :: "('x kfile_scheme, int) km" where
  "sys_pipe = (bindK curproc (\<lambda>p.
    bindK (argaddr 0) (\<lambda>fdarray.
    bindK pipealloc (\<lambda>pp.
    (case pp of None \<Rightarrow> returnK (- 1) | Some (rfl, wfl) \<Rightarrow> (bindK (fdalloc rfl) (\<lambda>fd0.
      bindK ((if fd0 < 0 then returnK (- 1) else fdalloc wfl)) (\<lambda>fd1.
      if fd0 < 0 \<or> fd1 < 0 then (thenK ((if fd0 \<ge> 0 then fdclear (nat fd0) else returnK ())) (
        thenK (fileclose rfl) (
        thenK (fileclose wfl) (
        returnK (- 1))))) else
      bindK (get_proc p) (\<lambda>q.
      bindK (copyout (p_pagetable q) fdarray (int_bytes fd0)) (\<lambda>r0.
      bindK ((if r0 < 0 then returnK (- 1) else copyout (p_pagetable q) (fdarray + 4) (int_bytes fd1))) (\<lambda>r1.
      if r0 < 0 \<or> r1 < 0 then (thenK (fdclear (nat fd0)) (
        thenK (fdclear (nat fd1)) (
        thenK (fileclose rfl) (
        thenK (fileclose wfl) (
        returnK (- 1)))))) else
      returnK 0)))))))))))"

end
