(* ===== verification/Exec.thy ===== *)
theory Exec
  imports Sysfile
begin

text \<open>
  Loading a program (\<open>kernel/exec.c\<close>), its system call, and the parts of \<open>kernel/proc.c\<close> that need
  the file system: the first process, \<open>fork\<close> and \<open>exit\<close>.
\<close>

section \<open>ELF files\<close>

definition ELF_MAGIC :: u32 where "ELF_MAGIC = 0x464C457F"
definition ELF_PROG_LOAD :: u32 where "ELF_PROG_LOAD = 1"
definition MAXARG :: nat where "MAXARG = 32"
definition USERSTACK :: u64 where "USERSTACK = 2"

text \<open>The fields the code uses; \<open>ELFHDR\<close> and \<open>PROGHDR\<close> are the sizes of the structures.\<close>

record elfhdr =
  eh_magic :: u32
  eh_entry :: u64
  eh_phoff :: u64
  eh_phnum :: u16

record proghdr =
  ph_type :: u32
  ph_flags :: u32
  ph_off :: u64
  ph_vaddr :: u64
  ph_filesz :: u64
  ph_memsz :: u64

definition ELFHDR :: nat where "ELFHDR = 64"
definition PROGHDR :: nat where "PROGHDR = 56"

definition elfhdr_of :: "bytes \<Rightarrow> elfhdr" where
  "elfhdr_of d = \<lparr>eh_magic = of_nat (get_le 4 d 0), eh_entry = of_nat (get_le 8 d 24),
     eh_phoff = of_nat (get_le 8 d 32), eh_phnum = of_nat (get_le 2 d 56)\<rparr>"

definition proghdr_of :: "bytes \<Rightarrow> proghdr" where
  "proghdr_of d = \<lparr>ph_type = of_nat (get_le 4 d 0), ph_flags = of_nat (get_le 4 d 4), ph_off = of_nat (get_le 8 d 8),
     ph_vaddr = of_nat (get_le 8 d 16), ph_filesz = of_nat (get_le 8 d 32), ph_memsz = of_nat (get_le 8 d 40)\<rparr>"

definition flags2perm :: "u32 \<Rightarrow> u64" where
  "flags2perm flags = (let perm = (if flags AND 0x1 \<noteq> 0 then PTE_X else 0) in
     if flags AND 0x2 \<noteq> 0 then perm OR PTE_W else perm)"

text \<open>The loop of \<open>loadseg\<close> at byte \<open>i\<close>, with \<open>k\<close> pages to go.\<close>

fun loadseg_loop :: "nat \<Rightarrow> u64 \<Rightarrow> u64 \<Rightarrow> nat \<Rightarrow> u32 \<Rightarrow> u32 \<Rightarrow> u32 \<Rightarrow> ('x kfs_scheme, int) km" where
  "loadseg_loop 0 pagetable va ip offset sz i = returnK 0"
| "loadseg_loop (Suc k) pagetable va ip offset sz i = (bindK (walkaddr pagetable (va + ucast i)) (\<lambda>pa.
  if pa = 0 then panicK ''loadseg: address should exist'' else
  let n = (if sz - i < 4096 then sz - i else 4096) in
  bindK (readi ip False pa (offset + i) n) (\<lambda>r.
  if r \<noteq> uint n then returnK (- 1) else
  loadseg_loop k pagetable va ip offset sz (i + 4096))))"

definition loadseg :: "u64 \<Rightarrow> u64 \<Rightarrow> nat \<Rightarrow> u32 \<Rightarrow> u32 \<Rightarrow> ('x kfs_scheme, int) km" where
  "loadseg pagetable va ip offset sz = loadseg_loop ((unat sz + 4095) div 4096) pagetable va ip offset sz 0"

section \<open>\<open>exec\<close>\<close>

text \<open>The loop over the program headers, with \<open>k\<close> of them to go: whether it succeeded, and \<open>sz\<close>.\<close>

fun exec_load :: "nat \<Rightarrow> nat \<Rightarrow> u64 \<Rightarrow> u32 \<Rightarrow> u64 \<Rightarrow> ('x kfs_scheme, bool \<times> u64) km" where
  "exec_load 0 ip pagetable off sz = returnK (True, sz)"
| "exec_load (Suc k) ip pagetable off sz = (bindK (getK sp_ph) (\<lambda>a.
  bindK (readi ip False a off (of_nat PROGHDR)) (\<lambda>r.
  if r \<noteq> int PROGHDR then returnK (False, sz) else
  bindK (getK (\<lambda>s. proghdr_of (read_mem (mem s) a PROGHDR))) (\<lambda>ph.
  if ph_type ph \<noteq> ELF_PROG_LOAD then exec_load k ip pagetable (off + of_nat PROGHDR) sz else
  if ph_memsz ph < ph_filesz ph then returnK (False, sz) else
  if ph_vaddr ph + ph_memsz ph < ph_vaddr ph then returnK (False, sz) else
  if ph_vaddr ph mod PGSIZE \<noteq> 0 then returnK (False, sz) else
  bindK (uvmalloc pagetable sz (ph_vaddr ph + ph_memsz ph) (flags2perm (ph_flags ph))) (\<lambda>sz1.
  if sz1 = 0 then returnK (False, sz) else
  bindK (loadseg pagetable (ph_vaddr ph) ip (ucast (ph_off ph)) (ucast (ph_filesz ph))) (\<lambda>r.
  if r < 0 then returnK (False, sz1) else
  exec_load k ip pagetable (off + of_nat PROGHDR) sz1))))))"

text \<open>The null terminated string at a kernel address; the strings of \<open>argv\<close> fit a page.\<close>

definition read_str :: "u64 \<Rightarrow> ('x kmem_scheme, bytes) km" where
  "read_str a = (bindK (getK (\<lambda>s. read_mem (mem s) a (unat PGSIZE))) (\<lambda>bs.
    (if 0 \<in> set bs then returnK (takeWhile (\<lambda>c. c \<noteq> 0) bs) else undefK ''string'')))"

definition align16 :: "u64 \<Rightarrow> u64" where
  "align16 sp = sp - sp mod 16"

text \<open>Pushing the argument strings: \<open>sp\<close> and \<open>ustack\<close> after it, \<open>None\<close> for \<open>goto bad\<close>.\<close>

fun exec_args :: "u64 list \<Rightarrow> u64 \<Rightarrow> u64 \<Rightarrow> u64 \<Rightarrow> u64 list \<Rightarrow> ('x kmem_scheme, (u64 \<times> u64 list) option) km" where
  "exec_args [] pagetable stackbase sp ustack = returnK (Some (sp, ustack))"
| "exec_args (arg # argv) pagetable stackbase sp ustack = (if length ustack \<ge> MAXARG then returnK None else
  bindK (read_str arg) (\<lambda>str.
  let sp = align16 (sp - (of_nat (length str) + 1)) in
  if sp < stackbase then returnK None else
  bindK (copyout pagetable sp (str @ [0])) (\<lambda>r.
  if r < 0 then returnK None else
  exec_args argv pagetable stackbase sp (ustack @ [sp]))))"

text \<open>The label \<open>bad\<close>.\<close>

definition exec_bad :: "u64 \<Rightarrow> u64 \<Rightarrow> nat option \<Rightarrow> ('x kfs_scheme, int) km" where
  "exec_bad pagetable sz ipo = (thenK ((if pagetable \<noteq> 0 then proc_freepagetable pagetable sz else returnK ())) (
    thenK ((case ipo of None \<Rightarrow> returnK () | Some ip \<Rightarrow> (thenK (iunlockput ip) (
      end_op)))) (
    returnK (- 1))))"

text \<open>The last path element: the program name.\<close>

definition last_elem :: "bytes \<Rightarrow> bytes" where
  "last_elem pth = rev (takeWhile (\<lambda>c. c \<noteq> SLASH) (rev pth))"

text \<open>From the loaded program on: the stack, the arguments and the switch to the new image.\<close>

definition exec_stack :: "bytes \<Rightarrow> u64 list \<Rightarrow> elfhdr \<Rightarrow> u64 \<Rightarrow> u64 \<Rightarrow> ('x kfs_scheme, int) km" where
  "exec_stack pth argv elf pagetable sz = (bindK curproc (\<lambda>p.
    bindK (get_proc p) (\<lambda>q.
    let oldsz = p_sz q in
    let sz = PGROUNDUP sz in
    bindK (uvmalloc pagetable sz (sz + (USERSTACK + 1) * PGSIZE) PTE_W) (\<lambda>sz1.
    if sz1 = 0 then exec_bad pagetable sz None else
    thenK (uvmclear pagetable (sz1 - (USERSTACK + 1) * PGSIZE)) (
    let stackbase = sz1 - USERSTACK * PGSIZE in
    bindK (exec_args argv pagetable stackbase sz1 []) (\<lambda>args.
    (case args of None \<Rightarrow> exec_bad pagetable sz1 None | Some (sp, ustack) \<Rightarrow> (let argc = length ustack in
      let sp = align16 (sp - (of_nat argc + 1) * 8) in
      if sp < stackbase then exec_bad pagetable sz1 None else
      bindK (copyout pagetable sp (concat (map (\<lambda>a. le_bytes 8 (unat a)) (ustack @ [0])))) (\<lambda>r.
      if r < 0 then exec_bad pagetable sz1 None else
      thenK (set_tf (tf_a 1) sp) (
      thenK ((case safestrcpy (p_name q) (last_elem pth @ [0]) 16 of
        None \<Rightarrow> undefK ''safestrcpy''
        | Some nm \<Rightarrow> set_proc p (\<lambda>q. q\<lparr>p_name := nm\<rparr>))) (
      thenK (set_proc p (\<lambda>q. q\<lparr>p_pagetable := pagetable, p_sz := sz1\<rparr>)) (
      thenK (set_tf tf_epc (eh_entry elf)) (
      thenK (set_tf tf_sp sp) (
      thenK (proc_freepagetable (p_pagetable q) oldsz) (
      returnK (int argc))))))))))))))))"

definition exec :: "bytes \<Rightarrow> u64 list \<Rightarrow> ('x kfs_scheme, int) km" where
  "exec pth argv = (bindK curproc (\<lambda>p.
    thenK begin_op (
    bindK (namei pth) (\<lambda>ipo.
    (case ipo of None \<Rightarrow> end_fail | Some ip \<Rightarrow> (thenK (ilock (Some ip)) (
      bindK (getK sp_elf) (\<lambda>a.
      bindK (readi ip False a 0 (of_nat ELFHDR)) (\<lambda>r.
      if r \<noteq> int ELFHDR then exec_bad 0 0 (Some ip) else
      bindK (getK (\<lambda>s. elfhdr_of (read_mem (mem s) a ELFHDR))) (\<lambda>elf.
      if eh_magic elf \<noteq> ELF_MAGIC then exec_bad 0 0 (Some ip) else
      bindK (proc_pagetable p) (\<lambda>pagetable.
      if pagetable = 0 then exec_bad 0 0 (Some ip) else
      bindK (exec_load (unat (eh_phnum elf)) ip pagetable (ucast (eh_phoff elf)) 0) (\<lambda>(ok, sz).
      if \<not> ok then exec_bad pagetable sz (Some ip) else
      thenK (iunlockput ip) (
      thenK end_op (
      exec_stack pth argv elf pagetable sz))))))))))))))"

text \<open>The loop of \<open>sys_exec\<close> that copies the arguments in, at index \<open>i\<close>: whether it reached the null
  pointer, and the pages allocated.\<close>

fun sys_exec_loop :: "nat \<Rightarrow> u64 \<Rightarrow> u64 list \<Rightarrow> ('x kproc_scheme, bool \<times> u64 list) km" where
  "sys_exec_loop 0 uargv argv = returnK (False, argv)"
| "sys_exec_loop (Suc k) uargv argv = (bindK (fetchaddr (uargv + 8 * of_nat (length argv))) (\<lambda>u.
  (case u of None \<Rightarrow> returnK (False, argv) | Some uarg \<Rightarrow> (if uarg = 0 then returnK (True, argv) else
    bindK kalloc (\<lambda>page.
    if page = 0 then returnK (False, argv) else
    bindK (fetchstr uarg (unat PGSIZE)) (\<lambda>(r, bs).
    thenK (modifyK (\<lambda>s. s\<lparr>mem := write_mem (mem s) page bs\<rparr>)) (
    if r < 0 then returnK (False, argv @ [page]) else
    sys_exec_loop k uargv (argv @ [page]))))))))"

definition sys_exec :: "('x kfile_scheme, int) km" where
  "sys_exec = (bindK (argaddr 1) (\<lambda>uargv.
    bindK (argpath 0) (\<lambda>pth.
    (case pth of None \<Rightarrow> returnK (- 1) | Some pth \<Rightarrow> (bindK (sys_exec_loop MAXARG uargv []) (\<lambda>(ok, argv).
      bindK ((if ok then exec pth argv else returnK (- 1))) (\<lambda>ret.
      thenK (forK argv kfree) (
      returnK ret))))))))"

section \<open>Processes\<close>

definition initcode :: bytes where
  "initcode = [0x17, 0x05, 0x00, 0x00, 0x13, 0x05, 0x45, 0x02,
     0x97, 0x05, 0x00, 0x00, 0x93, 0x85, 0x35, 0x02,
     0x93, 0x08, 0x70, 0x00, 0x73, 0x00, 0x00, 0x00,
     0x93, 0x08, 0x20, 0x00, 0x73, 0x00, 0x00, 0x00,
     0xef, 0xf0, 0x9f, 0xff, 0x2f, 0x69, 0x6e, 0x69,
     0x74, 0x00, 0x00, 0x24, 0x00, 0x00, 0x00, 0x00,
     0x00, 0x00, 0x00, 0x00]"

definition userinit :: "('x kfs_scheme, unit) km" where
  "userinit = (bindK allocproc (\<lambda>np.
    thenK (modifyK (\<lambda>s. s\<lparr>initproc := np\<rparr>)) (
    (case np of None \<Rightarrow> panicK ''kerneltrap'' | Some i \<Rightarrow> (bindK (get_proc i) (\<lambda>p.
      thenK (uvmfirst (p_pagetable p) initcode) (
      thenK (set_proc i (\<lambda>p. p\<lparr>p_sz := PGSIZE\<rparr>)) (
      thenK (write64 (p_trapframe p + tf_epc) 0) (
      thenK (write64 (p_trapframe p + tf_sp) PGSIZE) (
      thenK ((case safestrcpy (p_name p) (map of_char ''initcode'' @ [0]) 16 of
        None \<Rightarrow> undefK ''safestrcpy''
        | Some nm \<Rightarrow> set_proc i (\<lambda>p. p\<lparr>p_name := nm\<rparr>))) (
      bindK (namei [SLASH]) (\<lambda>d.
      set_proc i (\<lambda>p. p\<lparr>p_cwd := d, p_state := RUNNABLE\<rparr>)))))))))))))"

text \<open>\<open>sizeof(struct trapframe)\<close>.\<close>

definition TRAPFRAME_SIZE :: nat where "TRAPFRAME_SIZE = 288"

definition fork :: "('x kfile_scheme, int) km" where
  "fork = (bindK curproc (\<lambda>pi.
    bindK allocproc (\<lambda>no.
    (case no of None \<Rightarrow> returnK (- 1) | Some np \<Rightarrow> (bindK (get_proc pi) (\<lambda>p.
      bindK (get_proc np) (\<lambda>n.
      bindK (uvmcopy (p_pagetable p) (p_pagetable n) (p_sz p)) (\<lambda>r.
      if r < 0 then (thenK (freeproc np) (
        returnK (- 1))) else
      thenK (set_proc np (\<lambda>n. n\<lparr>p_sz := p_sz p\<rparr>)) (
      thenK (modifyK (\<lambda>s. s\<lparr>mem := write_mem (mem s) (p_trapframe n) (read_mem (mem s) (p_trapframe p) TRAPFRAME_SIZE)\<rparr>)) (
      thenK (write64 (p_trapframe n + tf_a 0) 0) (
      thenK (forK [0..<NOFILE] (\<lambda>i. (case p_ofile p ! i of
        None \<Rightarrow> returnK ()
        | Some f \<Rightarrow> (bindK (filedup f) (\<lambda>f'.
          set_proc np (\<lambda>n. n\<lparr>p_ofile := (p_ofile n)[i := Some f']\<rparr>)))))) (
      thenK ((case p_cwd p of None \<Rightarrow> panicK ''kerneltrap'' | Some d \<Rightarrow> (bindK (idup d) (\<lambda>d'.
        set_proc np (\<lambda>n. n\<lparr>p_cwd := Some d'\<rparr>))))) (
      thenK ((case safestrcpy (p_name n) (p_name p) 16 of
        None \<Rightarrow> undefK ''safestrcpy''
        | Some nm \<Rightarrow> set_proc np (\<lambda>n. n\<lparr>p_name := nm\<rparr>))) (
      thenK (set_proc np (\<lambda>n. n\<lparr>p_parent := Some pi\<rparr>)) (
      thenK (set_proc np (\<lambda>n. n\<lparr>p_state := RUNNABLE\<rparr>)) (
      returnK (p_pid n)))))))))))))))))"

text \<open>\<open>exit\<close> up to the switch to the scheduler, from which it does not return.\<close>

definition exit :: "int \<Rightarrow> ('x kfile_scheme, bool) km" where
  "exit status = (bindK curproc (\<lambda>p.
    bindK (getK initproc) (\<lambda>ini.
    if ini = Some p then panicK ''init exiting'' else
    thenK (forK [0..<NOFILE] (\<lambda>fd. (bindK (get_proc p) (\<lambda>q.
      (case p_ofile q ! fd of
        None \<Rightarrow> returnK ()
        | Some f \<Rightarrow> (thenK (fileclose f) (
          set_proc p (\<lambda>q. q\<lparr>p_ofile := (p_ofile q)[fd := None]\<rparr>)))))))) (
    thenK begin_op (
    bindK (get_proc p) (\<lambda>q.
    thenK ((case p_cwd q of None \<Rightarrow> panicK ''kerneltrap'' | Some d \<Rightarrow> iput d)) (
    thenK end_op (
    thenK (set_proc p (\<lambda>q. q\<lparr>p_cwd := None\<rparr>)) (
    thenK (reparent p) (
    bindK (get_proc p) (\<lambda>q.
    thenK ((case p_parent q of None \<Rightarrow> returnK () | Some pp \<Rightarrow> wakeup (ChanProc pp))) (
    exit_out status))))))))))))"

end
