(* ===== verification/Trap.thy ===== *)
theory Trap
  imports Exec
begin

text \<open>
  Control registers (\<open>kernel/riscv.h\<close>), the interrupt controller (\<open>kernel/plic.c\<close>), traps
  (\<open>kernel/trap.c\<close>), the system call dispatch (\<open>kernel/syscall.c\<close>, \<open>kernel/sysproc.c\<close>) and the boot
  (\<open>kernel/start.c\<close>, \<open>kernel/main.c\<close>). Every hart has its own control registers; the interrupt enable
  bit of \<open>sstatus\<close> is the field \<open>c_sie\<close> of its CPU structure. What the interrupt controller and the
  timer answer when they are read is part of the state, what is written to the controller is
  recorded. Addresses of code are linker symbols.
\<close>

section \<open>Control registers\<close>

datatype csr = Mhartid | Mstatus | Mepc | Sip | Sie | Mie | Sepc | Medeleg | Mideleg | Stvec | Stimecmp | Menvcfg | Pmpcfg0 | Pmpaddr0 | Satp | Scause | Stval | Mcounteren | Time | Sstatus

record ktrap = kfile +
  csrs :: "nat \<Rightarrow> csr \<Rightarrow> u64"
  plic_in :: "u64 \<Rightarrow> u32"
  plic_out :: "(u64 \<times> u32) list"
  first :: bool
  started :: bool
  kernel_pagetable :: u64
  etext :: u64
  kernelvec :: u64
  uservec :: u64
  userret :: u64
  usertrap_addr :: u64
  main_addr :: u64

definition read_csr :: "csr \<Rightarrow> ('x ktrap_scheme, u64) km" where
  "read_csr c = getK (\<lambda>s. csrs s (hartid s) c)"

definition write_csr :: "csr \<Rightarrow> u64 \<Rightarrow> ('x ktrap_scheme, unit) km" where
  "write_csr c v = modifyK (\<lambda>s. s\<lparr>csrs := (csrs s)(hartid s := (csrs s (hartid s))(c := v))\<rparr>)"

definition r_mhartid :: "('x ktrap_scheme, u64) km" where "r_mhartid = read_csr Mhartid"
definition r_mstatus :: "('x ktrap_scheme, u64) km" where "r_mstatus = read_csr Mstatus"
definition w_mstatus :: "u64 \<Rightarrow> ('x ktrap_scheme, unit) km" where "w_mstatus x = write_csr Mstatus x"
definition w_mepc :: "u64 \<Rightarrow> ('x ktrap_scheme, unit) km" where "w_mepc x = write_csr Mepc x"
definition r_sip :: "('x ktrap_scheme, u64) km" where "r_sip = read_csr Sip"
definition w_sip :: "u64 \<Rightarrow> ('x ktrap_scheme, unit) km" where "w_sip x = write_csr Sip x"
definition r_sie :: "('x ktrap_scheme, u64) km" where "r_sie = read_csr Sie"
definition w_sie :: "u64 \<Rightarrow> ('x ktrap_scheme, unit) km" where "w_sie x = write_csr Sie x"
definition r_mie :: "('x ktrap_scheme, u64) km" where "r_mie = read_csr Mie"
definition w_mie :: "u64 \<Rightarrow> ('x ktrap_scheme, unit) km" where "w_mie x = write_csr Mie x"
definition r_sepc :: "('x ktrap_scheme, u64) km" where "r_sepc = read_csr Sepc"
definition w_sepc :: "u64 \<Rightarrow> ('x ktrap_scheme, unit) km" where "w_sepc x = write_csr Sepc x"
definition r_medeleg :: "('x ktrap_scheme, u64) km" where "r_medeleg = read_csr Medeleg"
definition w_medeleg :: "u64 \<Rightarrow> ('x ktrap_scheme, unit) km" where "w_medeleg x = write_csr Medeleg x"
definition r_mideleg :: "('x ktrap_scheme, u64) km" where "r_mideleg = read_csr Mideleg"
definition w_mideleg :: "u64 \<Rightarrow> ('x ktrap_scheme, unit) km" where "w_mideleg x = write_csr Mideleg x"
definition r_stvec :: "('x ktrap_scheme, u64) km" where "r_stvec = read_csr Stvec"
definition w_stvec :: "u64 \<Rightarrow> ('x ktrap_scheme, unit) km" where "w_stvec x = write_csr Stvec x"
definition r_stimecmp :: "('x ktrap_scheme, u64) km" where "r_stimecmp = read_csr Stimecmp"
definition w_stimecmp :: "u64 \<Rightarrow> ('x ktrap_scheme, unit) km" where "w_stimecmp x = write_csr Stimecmp x"
definition r_menvcfg :: "('x ktrap_scheme, u64) km" where "r_menvcfg = read_csr Menvcfg"
definition w_menvcfg :: "u64 \<Rightarrow> ('x ktrap_scheme, unit) km" where "w_menvcfg x = write_csr Menvcfg x"
definition w_pmpcfg0 :: "u64 \<Rightarrow> ('x ktrap_scheme, unit) km" where "w_pmpcfg0 x = write_csr Pmpcfg0 x"
definition w_pmpaddr0 :: "u64 \<Rightarrow> ('x ktrap_scheme, unit) km" where "w_pmpaddr0 x = write_csr Pmpaddr0 x"
definition r_satp :: "('x ktrap_scheme, u64) km" where "r_satp = read_csr Satp"
definition w_satp :: "u64 \<Rightarrow> ('x ktrap_scheme, unit) km" where "w_satp x = write_csr Satp x"
definition r_scause :: "('x ktrap_scheme, u64) km" where "r_scause = read_csr Scause"
definition r_stval :: "('x ktrap_scheme, u64) km" where "r_stval = read_csr Stval"
definition r_mcounteren :: "('x ktrap_scheme, u64) km" where "r_mcounteren = read_csr Mcounteren"
definition w_mcounteren :: "u64 \<Rightarrow> ('x ktrap_scheme, unit) km" where "w_mcounteren x = write_csr Mcounteren x"
definition r_time :: "('x ktrap_scheme, u64) km" where "r_time = read_csr Time"

definition SSTATUS_SPP :: u64 where "SSTATUS_SPP = push_bit 8 1"
definition SSTATUS_SPIE :: u64 where "SSTATUS_SPIE = push_bit 5 1"
definition SSTATUS_SIE :: u64 where "SSTATUS_SIE = push_bit 1 1"
definition MSTATUS_MPP_MASK :: u64 where "MSTATUS_MPP_MASK = push_bit 11 3"
definition MSTATUS_MPP_S :: u64 where "MSTATUS_MPP_S = push_bit 11 1"
definition SIE_SEIE :: u64 where "SIE_SEIE = push_bit 9 1"
definition SIE_STIE :: u64 where "SIE_STIE = push_bit 5 1"
definition SIE_SSIE :: u64 where "SIE_SSIE = push_bit 1 1"
definition MIE_STIE :: u64 where "MIE_STIE = push_bit 5 1"

definition r_sstatus :: "('x ktrap_scheme, u64) km" where
  "r_sstatus = (bindK (read_csr Sstatus) (\<lambda>v.
    bindK intr_get (\<lambda>on.
    returnK (if on then v OR SSTATUS_SIE else v AND NOT SSTATUS_SIE))))"

definition w_sstatus :: "u64 \<Rightarrow> ('x ktrap_scheme, unit) km" where
  "w_sstatus x = (thenK (write_csr Sstatus x) (
    (if x AND SSTATUS_SIE \<noteq> 0 then intr_on else intr_off)))"

definition r_tp :: "('x kcpu_scheme, u64) km" where
  "r_tp = getK (\<lambda>s. of_nat (hartid s))"

definition w_tp :: "u64 \<Rightarrow> ('x kcpu_scheme, unit) km" where
  "w_tp x = modifyK (\<lambda>s. s\<lparr>hartid := unat x\<rparr>)"

definition cpuid :: "('x kcpu_scheme, int) km" where
  "cpuid = (bindK r_tp (\<lambda>id.
    returnK (sint (ucast id :: u32))))"

section \<open>The interrupt controller\<close>

definition UART0_IRQ :: nat where "UART0_IRQ = 10"
definition VIRTIO0_IRQ :: nat where "VIRTIO0_IRQ = 1"
definition PLIC_SENABLE :: "int \<Rightarrow> u64" where "PLIC_SENABLE hart = PLIC + 0x2080 + word_of_int hart * 0x100"
definition PLIC_SPRIORITY :: "int \<Rightarrow> u64" where "PLIC_SPRIORITY hart = PLIC + 0x201000 + word_of_int hart * 0x2000"
definition PLIC_SCLAIM :: "int \<Rightarrow> u64" where "PLIC_SCLAIM hart = PLIC + 0x201004 + word_of_int hart * 0x2000"

definition plic_write :: "u64 \<Rightarrow> u32 \<Rightarrow> ('x ktrap_scheme, unit) km" where
  "plic_write a v = modifyK (\<lambda>s. s\<lparr>plic_out := plic_out s @ [(a, v)]\<rparr>)"

definition plicinit :: "('x ktrap_scheme, unit) km" where
  "plicinit = (thenK (plic_write (PLIC + of_nat (UART0_IRQ * 4)) 1) (
    plic_write (PLIC + of_nat (VIRTIO0_IRQ * 4)) 1))"

definition plicinithart :: "('x ktrap_scheme, unit) km" where
  "plicinithart = (bindK cpuid (\<lambda>hart.
    thenK (plic_write (PLIC_SENABLE hart) (push_bit UART0_IRQ 1 OR push_bit VIRTIO0_IRQ 1)) (
    plic_write (PLIC_SPRIORITY hart) 0)))"

definition plic_claim :: "('x ktrap_scheme, int) km" where
  "plic_claim = (bindK cpuid (\<lambda>hart.
    getK (\<lambda>s. sint (plic_in s (PLIC_SCLAIM hart)))))"

definition plic_complete :: "int \<Rightarrow> ('x ktrap_scheme, unit) km" where
  "plic_complete irq = (bindK cpuid (\<lambda>hart.
    plic_write (PLIC_SCLAIM hart) (word_of_int irq)))"

section \<open>System calls\<close>

text \<open>How a system call ends: it returns a value, goes to sleep, or the process has exited.\<close>

datatype sysres = SysRet u64 | SysSleep | SysExit

definition sys_ret :: "('x kfile_scheme, int) km \<Rightarrow> ('x kfile_scheme, sysres) km" where
  "sys_ret m = (bindK m (\<lambda>r.
    returnK (SysRet (word_of_int r))))"

definition sys_run :: "('x kfile_scheme, 'l run) km \<Rightarrow> ('x kfile_scheme, sysres) km" where
  "sys_run m = (bindK m (\<lambda>r.
    returnK (case r of Ret v \<Rightarrow> SysRet (word_of_int v) | Sleep l \<Rightarrow> SysSleep)))"

definition sys_exit :: "('x kfile_scheme, sysres) km" where
  "sys_exit = (bindK (argint 0) (\<lambda>n.
    thenK (exit n) (
    returnK SysExit)))"

definition sys_getpid :: "('x kfile_scheme, int) km" where
  "sys_getpid = (bindK curproc (\<lambda>i.
    bindK (get_proc i) (\<lambda>p.
    returnK (p_pid p))))"

definition sys_fork :: "('x kfile_scheme, int) km" where
  "sys_fork = fork"

definition sys_wait :: "('x kfile_scheme, int) km" where
  "sys_wait = (bindK (argaddr 0) (\<lambda>p.
    wait p))"

definition sys_sbrk :: "('x kfile_scheme, sysres) km" where
  "sys_sbrk = (bindK (argint 0) (\<lambda>n.
    bindK curproc (\<lambda>i.
    bindK (get_proc i) (\<lambda>p.
    bindK (growproc n) (\<lambda>r.
    returnK (SysRet (if r < 0 then - 1 else p_sz p)))))))"

text \<open>One test of the loop of \<open>sys_sleep\<close>; \<open>ticks - ticks0\<close> is unsigned.\<close>

definition sys_sleep_check :: "u32 \<Rightarrow> int \<Rightarrow> ('x kfile_scheme, u32 run) km" where
  "sys_sleep_check ticks0 n = (bindK (getK ticks) (\<lambda>t.
    if \<not> uint (t - ticks0) < n then returnK (Ret 0) else
    bindK curproc (\<lambda>i.
    bindK (killed i) (\<lambda>k.
    returnK (if k \<noteq> 0 then Ret (- 1) else Sleep ticks0)))))"

definition sys_sleep :: "('x kfile_scheme, u32 run) km" where
  "sys_sleep = (bindK (argint 0) (\<lambda>n.
    bindK (getK ticks) (\<lambda>ticks0.
    sys_sleep_check ticks0 (if n < 0 then 0 else n))))"

definition sys_kill :: "('x kfile_scheme, int) km" where
  "sys_kill = (bindK (argint 0) (\<lambda>pid.
    kill pid))"

definition sys_uptime :: "('x kfile_scheme, int) km" where
  "sys_uptime = getK (\<lambda>s. uint (ticks s))"

text \<open>The table \<open>syscalls\<close>; \<open>pad\<close> is the padding of \<open>struct stat\<close>.\<close>

definition syscalls :: "bytes \<Rightarrow> int \<Rightarrow> ('x kfile_scheme, sysres) km option" where
  "syscalls pad num = (
     if num = 1 then Some (sys_ret sys_fork)
     else if num = 2 then Some sys_exit
     else if num = 3 then Some (sys_ret sys_wait)
     else if num = 4 then Some (sys_ret sys_pipe)
     else if num = 5 then Some (sys_run sys_read)
     else if num = 6 then Some (sys_ret sys_kill)
     else if num = 7 then Some (sys_ret sys_exec)
     else if num = 8 then Some (sys_ret (sys_fstat pad))
     else if num = 9 then Some (sys_ret sys_chdir)
     else if num = 10 then Some (sys_ret sys_dup)
     else if num = 11 then Some (sys_ret sys_getpid)
     else if num = 12 then Some sys_sbrk
     else if num = 13 then Some (sys_run sys_sleep)
     else if num = 14 then Some (sys_ret sys_uptime)
     else if num = 15 then Some (sys_ret sys_open)
     else if num = 16 then Some (sys_run sys_write)
     else if num = 17 then Some (sys_ret sys_mknod)
     else if num = 18 then Some (sys_ret sys_unlink)
     else if num = 19 then Some (sys_ret sys_link)
     else if num = 20 then Some (sys_ret sys_mkdir)
     else if num = 21 then Some (sys_ret sys_close)
     else if num = 22 then Some (sys_ret sys_ttyraw)
     else None)"

definition tf_a7 :: u64 where "tf_a7 = 168"

definition syscall :: "bytes \<Rightarrow> ('x kfile_scheme, sysres) km" where
  "syscall pad = (bindK curproc (\<lambda>i.
    bindK (get_tf tf_a7) (\<lambda>v.
    let num = sint (ucast v :: u32) in
    (case syscalls pad num of
      Some f \<Rightarrow> (bindK f (\<lambda>r.
        thenK ((case r of SysRet x \<Rightarrow> set_tf (tf_a 0) x | _ \<Rightarrow> returnK ())) (
        returnK r)))
      | None \<Rightarrow> (bindK (get_proc i) (\<lambda>p.
        thenK (printf (''%d %s: unknown sys call %d'' @ [CHR 0x0A]) [AInt (word_of_int (p_pid p)), AStr (Some (p_name p)), AInt (word_of_int num)]) (
        thenK (set_tf (tf_a 0) (- 1)) (
        returnK (SysRet (- 1))))))))))"

section \<open>Traps\<close>

definition trapinithart :: "('x ktrap_scheme, unit) km" where
  "trapinithart = (bindK (getK kernelvec) (\<lambda>v.
    w_stvec v))"

definition clockintr :: "('x ktrap_scheme, unit) km" where
  "clockintr = (bindK cpuid (\<lambda>id.
    thenK ((if id = 0 then (thenK (modifyK (\<lambda>s. s\<lparr>ticks := ticks s + 1\<rparr>)) (
      wakeup ChanTicks))
      else returnK ())) (
    bindK r_time (\<lambda>t.
    w_stimecmp (t + 1000000)))))"

definition devintr :: "('x ktrap_scheme, int) km" where
  "devintr = (bindK r_scause (\<lambda>scause.
    if scause = 0x8000000000000009 then (bindK plic_claim (\<lambda>irq.
      thenK ((if irq = int UART0_IRQ then uartintr
        else if irq = int VIRTIO0_IRQ then virtio_disk_intr
        else if irq \<noteq> 0 then (thenK (printf (''unexpected interrupt irq=%d'' @ [CHR 0x0A]) [AInt (word_of_int irq)]) (
          returnK ()))
        else returnK ())) (
      thenK ((if irq \<noteq> 0 then plic_complete irq else returnK ())) (
      returnK 1)))) else
    if scause = 0x8000000000000005 then (thenK clockintr (
      returnK 2)) else
    returnK 0))"

text \<open>Up to the jump to \<open>userret\<close>; the value is the \<open>satp\<close> it is given.\<close>

definition usertrapret :: "('x ktrap_scheme, u64) km" where
  "usertrapret = (bindK curproc (\<lambda>i.
    bindK (get_proc i) (\<lambda>p.
    thenK intr_off (
    bindK (getK uservec) (\<lambda>uv.
    bindK (getK trampoline) (\<lambda>tr.
    thenK (w_stvec (TRAMPOLINE + (uv - tr))) (
    bindK r_satp (\<lambda>ks.
    thenK (set_tf tf_kernel_satp ks) (
    thenK (set_tf tf_kernel_sp (p_kstack p + PGSIZE)) (
    bindK (getK usertrap_addr) (\<lambda>ut.
    thenK (set_tf tf_kernel_trap ut) (
    bindK r_tp (\<lambda>tp.
    thenK (set_tf tf_kernel_hartid tp) (
    bindK r_sstatus (\<lambda>x.
    thenK (w_sstatus ((x AND NOT SSTATUS_SPP) OR SSTATUS_SPIE)) (
    bindK (get_tf tf_epc) (\<lambda>epc.
    thenK (w_sepc epc) (
    returnK (MAKE_SATP (p_pagetable p))))))))))))))))))))"

text \<open>How \<open>usertrap\<close> ends: in user space, in the scheduler after \<open>yield\<close>, asleep in a system call, or
  in \<open>exit\<close>.\<close>

datatype trapres = ToUser u64 | Yielded bool | Asleep | Exited

text \<open>The last part, from the second test of \<open>killed\<close> on.\<close>

definition usertrap_end :: "int \<Rightarrow> ('x ktrap_scheme, trapres) km" where
  "usertrap_end which_dev = (bindK curproc (\<lambda>i.
    bindK (killed i) (\<lambda>k.
    if k \<noteq> 0 then (thenK (exit (- 1)) (
      returnK Exited)) else
    if which_dev = 2 then (bindK yield_out (\<lambda>intena.
      returnK (Yielded intena))) else
    bindK usertrapret (\<lambda>satp.
    returnK (ToUser satp)))))"

definition usertrap :: "bytes \<Rightarrow> ('x ktrap_scheme, trapres) km" where
  "usertrap pad = (bindK r_sstatus (\<lambda>ss.
    if ss AND SSTATUS_SPP \<noteq> 0 then panicK ''usertrap: not from user mode'' else
    bindK (getK kernelvec) (\<lambda>kv.
    thenK (w_stvec kv) (
    bindK curproc (\<lambda>i.
    bindK r_sepc (\<lambda>sepc.
    thenK (set_tf tf_epc sepc) (
    bindK r_scause (\<lambda>scause.
    if scause = 8 then (bindK (killed i) (\<lambda>k.
      if k \<noteq> 0 then (thenK (exit (- 1)) (
        returnK Exited)) else
      bindK (get_tf tf_epc) (\<lambda>epc.
      thenK (set_tf tf_epc (epc + 4)) (
      thenK intr_on (
      bindK (syscall pad) (\<lambda>r.
      (case r of
        SysRet x \<Rightarrow> usertrap_end 0
        | SysSleep \<Rightarrow> returnK Asleep
        | SysExit \<Rightarrow> returnK Exited))))))) else
    bindK devintr (\<lambda>which_dev.
    thenK ((if which_dev \<noteq> 0 then returnK () else (bindK (get_proc i) (\<lambda>p.
      thenK (printf (''usertrap(): unexpected scause 0x%lx pid=%d'' @ [CHR 0x0A]) [AU64 scause, AInt (word_of_int (p_pid p))]) (
      bindK r_sepc (\<lambda>sepc.
      bindK r_stval (\<lambda>stval.
      thenK (printf (''            sepc=0x%lx stval=0x%lx'' @ [CHR 0x0A]) [AU64 sepc, AU64 stval]) (
      setkilled i)))))))) (
    usertrap_end which_dev))))))))))"

text \<open>After \<open>yield\<close> has returned.\<close>

definition usertrap_resume :: "bool \<Rightarrow> ('x ktrap_scheme, trapres) km" where
  "usertrap_resume intena = (thenK (yield_in intena) (
    bindK usertrapret (\<lambda>satp.
    returnK (ToUser satp))))"

text \<open>\<open>kerneltrap\<close>: the saved \<open>intena\<close>, \<open>sepc\<close> and \<open>sstatus\<close> when it yields.\<close>

definition kerneltrap_end :: "u64 \<Rightarrow> u64 \<Rightarrow> ('x ktrap_scheme, unit) km" where
  "kerneltrap_end sepc sstatus = (thenK (w_sepc sepc) (
    w_sstatus sstatus))"

definition kerneltrap :: "('x ktrap_scheme, (bool \<times> u64 \<times> u64) option) km" where
  "kerneltrap = (bindK r_sepc (\<lambda>sepc.
    bindK r_sstatus (\<lambda>sstatus.
    bindK r_scause (\<lambda>scause.
    if sstatus AND SSTATUS_SPP = 0 then panicK ''kerneltrap: not from supervisor mode'' else
    bindK intr_get (\<lambda>on.
    if on then panicK ''kerneltrap: interrupts enabled'' else
    bindK devintr (\<lambda>which_dev.
    if which_dev = 0 then (bindK r_stval (\<lambda>stval.
      thenK (printf (''scause=0x%lx sepc=0x%lx stval=0x%lx'' @ [CHR 0x0A]) [AU64 scause, AU64 sepc, AU64 stval]) (
      panicK ''kerneltrap''))) else
    bindK myproc (\<lambda>me.
    if which_dev = 2 \<and> me \<noteq> None then (bindK yield_out (\<lambda>intena.
      returnK (Some (intena, sepc, sstatus)))) else
    thenK (kerneltrap_end sepc sstatus) (
    returnK None))))))))"

definition forkret :: "('x ktrap_scheme, u64) km" where
  "forkret = (bindK curproc (\<lambda>i.
    thenK (plock_release i) (
    bindK (getK first) (\<lambda>f.
    thenK ((if f then (thenK (fsinit ROOTDEV) (
      modifyK (\<lambda>s. s\<lparr>first := False\<rparr>)))
      else returnK ())) (
    usertrapret)))))"

section \<open>Boot\<close>

definition timerinit :: "('x ktrap_scheme, unit) km" where
  "timerinit = (bindK r_mie (\<lambda>m.
    thenK (w_mie (m OR MIE_STIE)) (
    bindK r_menvcfg (\<lambda>e.
    thenK (w_menvcfg (e OR push_bit 63 1)) (
    bindK r_mcounteren (\<lambda>c.
    thenK (w_mcounteren (c OR 2)) (
    bindK r_time (\<lambda>t.
    w_stimecmp (t + 1000000)))))))))"

text \<open>Up to \<open>mret\<close>.\<close>

definition start :: "('x ktrap_scheme, unit) km" where
  "start = (bindK r_mstatus (\<lambda>x.
    thenK (w_mstatus ((x AND NOT MSTATUS_MPP_MASK) OR MSTATUS_MPP_S)) (
    bindK (getK main_addr) (\<lambda>m.
    thenK (w_mepc m) (
    thenK (w_satp 0) (
    thenK (w_medeleg 0xffff) (
    thenK (w_mideleg 0xffff) (
    bindK r_sie (\<lambda>e.
    thenK (w_sie (e OR SIE_SEIE OR SIE_STIE OR SIE_SSIE)) (
    thenK (w_pmpaddr0 0x3fffffffffffff) (
    thenK (w_pmpcfg0 0xf) (
    thenK timerinit (
    bindK r_mhartid (\<lambda>id.
    w_tp (scast (ucast id :: u32))))))))))))))))"

definition kvminit :: "('x ktrap_scheme, unit) km" where
  "kvminit = (bindK (getK etext) (\<lambda>e.
    bindK (getK trampoline) (\<lambda>tr.
    bindK (kvmmake e tr) (\<lambda>pt.
    modifyK (\<lambda>s. s\<lparr>kernel_pagetable := pt\<rparr>)))))"

definition kvminithart :: "('x ktrap_scheme, unit) km" where
  "kvminithart = (bindK (getK kernel_pagetable) (\<lambda>pt.
    w_satp (MAKE_SATP pt)))"

text \<open>\<open>main\<close> up to \<open>scheduler\<close>; the other harts wait for \<open>started\<close>.\<close>

definition main_init :: "('x ktrap_scheme, unit) km" where
  "main_init = (bindK cpuid (\<lambda>id.
    if id \<noteq> 0 then (bindK (getK started) (\<lambda>st.
      if \<not> st then blockK ''started'' else
      thenK (printf (''hart %d starting'' @ [CHR 0x0A]) [AInt (word_of_int id)]) (
      thenK kvminithart (
      thenK trapinithart (
      plicinithart))))) else
    thenK consoleinit (
    thenK printfinit (
    thenK (printf [CHR 0x0A] []) (
    thenK (printf (''xv6 kernel is booting'' @ [CHR 0x0A]) []) (
    thenK (printf [CHR 0x0A] []) (
    thenK kinit (
    thenK kvminit (
    thenK kvminithart (
    thenK procinit (
    thenK trapinithart (
    thenK plicinit (
    thenK plicinithart (
    thenK binit (
    thenK iinit (
    thenK virtio_disk_init (
    thenK userinit (
    modifyK (\<lambda>s. s\<lparr>started := True\<rparr>)))))))))))))))))))"

end
