(* ===== verification/Grep.thy ===== *)
theory Grep
  imports Prelude "HOL-Library.Sublist"
begin

text \<open>
  Pattern matching in user programs: the regular expressions of \<open>user/grep.c\<close>, which
  \<open>user/find.c\<close> has a copy of, the line loop of \<open>grep\<close>, the wildcard matcher and the file name test
  of \<open>find\<close>. A C string is the list of its characters before the null.
\<close>

section \<open>The matcher\<close>

function (sequential) matchhere :: "string \<Rightarrow> string \<Rightarrow> bool" and matchstar :: "char \<Rightarrow> string \<Rightarrow> string \<Rightarrow> bool" where
  "matchhere [] tx = True"
| "matchhere (c # re) tx = (
     if re \<noteq> [] \<and> hd re = CHR ''*'' then matchstar c (tl re) tx
     else if c = CHR ''$'' \<and> re = [] then tx = []
     else if tx \<noteq> [] \<and> (c = CHR ''.'' \<or> c = hd tx) then matchhere re (tl tx)
     else False)"
| "matchstar c re tx = (if matchhere re tx then True
     else if tx \<noteq> [] \<and> (hd tx = c \<or> c = CHR ''.'') then matchstar c re (tl tx)
     else False)"
  by pat_completeness auto
termination
  by (relation "inv_image (less_than <*lex*> less_than <*lex*> less_than)
      (case_sum (\<lambda>(re, tx). (length re, length tx, 0 :: nat)) (\<lambda>(c, re, tx). (length re, length tx, 1)))") auto

declare matchstar.simps [simp del]

text \<open>The loop of \<open>match\<close>: at every tail of the text, the empty one included.\<close>

fun match_loop :: "string \<Rightarrow> string \<Rightarrow> bool" where
  "match_loop re [] = matchhere re []"
| "match_loop re (t # tx) = (matchhere re (t # tx) \<or> match_loop re tx)"

definition match :: "string \<Rightarrow> string \<Rightarrow> bool" where
  "match re tx = (if re \<noteq> [] \<and> hd re = CHR ''^'' then matchhere (tl re) tx else match_loop re tx)"

section \<open>What a pattern means\<close>

text \<open>A pattern is a sequence of single characters and repetitions, with anchors at the ends.\<close>

datatype pat = One char | Many char

definition fits :: "char \<Rightarrow> char \<Rightarrow> bool" where
  "fits c t \<longleftrightarrow> c = CHR ''.'' \<or> c = t"

fun plang :: "pat list \<Rightarrow> string set" where
  "plang [] = {[]}"
| "plang (One c # ps) = {t # u | t u. fits c t \<and> u \<in> plang ps}"
| "plang (Many c # ps) = {v @ u | v u. (\<forall>t \<in> set v. fits c t) \<and> u \<in> plang ps}"

fun parse_re :: "string \<Rightarrow> pat list \<times> bool" where
  "parse_re [] = ([], False)"
| "parse_re [c] = (if c = CHR ''$'' then ([], True) else ([One c], False))"
| "parse_re (c # d # re) =
     (if d = CHR ''*'' then (let (ps, e) = parse_re re in (Many c # ps, e))
      else (let (ps, e) = parse_re (d # re) in (One c # ps, e)))"

definition front :: "string \<Rightarrow> bool" where
  "front re \<longleftrightarrow> re \<noteq> [] \<and> hd re = CHR ''^''"

definition re_occurs :: "string \<Rightarrow> string \<Rightarrow> bool" where
  "re_occurs re tx \<longleftrightarrow> (let (ps, back) = parse_re (if front re then tl re else re) in
     \<exists>a u b. tx = a @ u @ b \<and> u \<in> plang ps \<and> (front re \<longrightarrow> a = []) \<and> (back \<longrightarrow> b = []))"

lemma ex_split_Cons:
  "(\<exists>u b. x # xs = u @ b \<and> P u b) \<longleftrightarrow> P [] (x # xs) \<or> (\<exists>u b. xs = u @ b \<and> P (x # u) b)"
proof
  assume "\<exists>u b. x # xs = u @ b \<and> P u b"
  then obtain u b where "x # xs = u @ b" "P u b" by blast
  then show "P [] (x # xs) \<or> (\<exists>u b. xs = u @ b \<and> P (x # u) b)" by (cases u) auto
next
  assume "P [] (x # xs) \<or> (\<exists>u b. xs = u @ b \<and> P (x # u) b)"
  then show "\<exists>u b. x # xs = u @ b \<and> P u b" by (metis append_Cons append_Nil)
qed

lemma ex_split_append:
  "(\<exists>v w. xs = v @ w \<and> F v \<and> (\<exists>u b. w = u @ b \<and> P u \<and> Q b)) \<longleftrightarrow> (\<exists>x b. xs = x @ b \<and> (\<exists>v u. x = v @ u \<and> F v \<and> P u) \<and> Q b)"
  (is "?l \<longleftrightarrow> ?r")
proof
  assume ?l
  then obtain v u b where "xs = (v @ u) @ b" "F v" "P u" "Q b" by auto
  then show ?r by blast
next
  assume ?r
  then obtain v u b where "xs = v @ (u @ b)" "F v" "P u" "Q b" by auto
  then show ?l by blast
qed

lemma matchstar_eq:
  "matchstar c re tx \<longleftrightarrow> (\<exists>v w. tx = v @ w \<and> (\<forall>t \<in> set v. fits c t) \<and> matchhere re w)"
proof (induction tx)
  case Nil
  then show ?case by (subst matchstar.simps) simp
next
  case (Cons t tx)
  have "matchstar c re (t # tx) \<longleftrightarrow> matchhere re (t # tx) \<or> fits c t \<and> matchstar c re tx"
    by (subst matchstar.simps) (auto simp: fits_def)
  also have "\<dots> \<longleftrightarrow> (\<exists>v w. t # tx = v @ w \<and> (\<forall>t \<in> set v. fits c t) \<and> matchhere re w)"
    unfolding Cons.IH ex_split_Cons by auto
  finally show ?case .
qed

lemma matchhere_eq:
  "matchhere re tx \<longleftrightarrow> (\<exists>u b. tx = u @ b \<and> u \<in> plang (fst (parse_re re)) \<and> (snd (parse_re re) \<longrightarrow> b = []))"
proof (induction re arbitrary: tx rule: parse_re.induct)
  case 1
  then show ?case by simp
next
  case (2 c)
  then show ?case by (cases tx) (simp_all add: fits_def ex_split_Cons)
next
  case (3 c d re)
  show ?case
  proof (cases "d = CHR ''*''")
    case True
    have "matchhere (c # d # re) tx \<longleftrightarrow> matchstar c re tx" using True by simp
    also have "\<dots> \<longleftrightarrow> (\<exists>v w. tx = v @ w \<and> (\<forall>t \<in> set v. fits c t) \<and>
        (\<exists>u b. w = u @ b \<and> u \<in> plang (fst (parse_re re)) \<and> (snd (parse_re re) \<longrightarrow> b = [])))"
      unfolding matchstar_eq 3(1) [OF True] ..
    also have "\<dots> \<longleftrightarrow> (\<exists>u b. tx = u @ b \<and> u \<in> plang (fst (parse_re (c # d # re))) \<and> (snd (parse_re (c # d # re)) \<longrightarrow> b = []))"
      unfolding ex_split_append using True by (simp add: split_def Let_def)
    finally show ?thesis .
  next
    case False
    have "matchhere (c # d # re) tx \<longleftrightarrow> tx \<noteq> [] \<and> fits c (hd tx) \<and> matchhere (d # re) (tl tx)"
      using False by (cases tx) (simp_all add: fits_def del: matchhere.simps(2) add: matchhere.simps(2) [of c])
    also have "\<dots> \<longleftrightarrow> (\<exists>u b. tx = u @ b \<and> u \<in> plang (fst (parse_re (c # d # re))) \<and> (snd (parse_re (c # d # re)) \<longrightarrow> b = []))"
      unfolding 3(2) [OF False] using False by (cases tx) (auto simp: split_def Let_def ex_split_Cons)
    finally show ?thesis .
  qed
qed

lemma match_loop_eq: "match_loop re tx \<longleftrightarrow> (\<exists>a w. tx = a @ w \<and> matchhere re w)"
proof (induction tx)
  case (Cons t tx)
  have "match_loop re (t # tx) \<longleftrightarrow> matchhere re (t # tx) \<or> (\<exists>a w. tx = a @ w \<and> matchhere re w)"
    using Cons.IH by simp
  also have "\<dots> \<longleftrightarrow> (\<exists>a w. t # tx = a @ w \<and> matchhere re w)" unfolding ex_split_Cons by simp
  finally show ?case .
qed simp

lemma match_eq:
  "match re tx \<longleftrightarrow> (let (ps, back) = parse_re (if front re then tl re else re) in
     \<exists>a u b. tx = a @ u @ b \<and> u \<in> plang ps \<and> (front re \<longrightarrow> a = []) \<and> (back \<longrightarrow> b = []))"
proof (cases "front re")
  case True
  then show ?thesis by (simp add: match_def front_def matchhere_eq split_def Let_def)
next
  case False
  then have "match re tx \<longleftrightarrow> (\<exists>a w. tx = a @ w \<and> matchhere re w)"
    by (auto simp: match_def front_def match_loop_eq)
  then show ?thesis using False unfolding matchhere_eq by (simp add: split_def Let_def) blast
qed

text \<open>C27: \<open>match\<close> decides the meaning of the pattern: some part of the text belongs to the language of
  the pattern, the part being a prefix of the text after \<open>^\<close> and a suffix before \<open>$\<close>.\<close>

theorem match_correct: "match re tx \<longleftrightarrow> re_occurs re tx"
  unfolding re_occurs_def by (rule match_eq)

section \<open>The line loop of \<open>grep\<close>\<close>

text \<open>The inner loop: the output for the complete lines of the buffer, and what is left of it. \<open>strchr\<close>
  stops at a null byte.\<close>

definition has_newline :: "string \<Rightarrow> bool" where
  "has_newline p = (CHR 0x0A \<in> set (takeWhile (\<lambda>c. c \<noteq> CHR 0x00) p))"

lemma has_newlineD: "has_newline p \<Longrightarrow> CHR 0x0A \<in> set p"
  unfolding has_newline_def by (blast dest: set_takeWhileD)

lemma has_newline_text: "CHR 0x00 \<notin> set p \<Longrightarrow> has_newline p \<longleftrightarrow> CHR 0x0A \<in> set p"
  unfolding has_newline_def by (subst takeWhile_eq_all_conv [THEN iffD2]) auto

lemma tl_dropWhile_shorter: "c \<in> set p \<Longrightarrow> length (tl (dropWhile P p)) < length p"
  using length_dropWhile_le [of P p] by (cases p) auto

function grep_lines :: "string \<Rightarrow> string \<Rightarrow> string \<times> string" where
  "grep_lines pattern p = (if has_newline p then
     let line = takeWhile (\<lambda>c. c \<noteq> CHR 0x0A) p; (out, rest) = grep_lines pattern (tl (dropWhile (\<lambda>c. c \<noteq> CHR 0x0A) p)) in
     (if match pattern line then line @ CHR 0x0A # out else out, rest)
     else ([], p))"
  by pat_completeness auto
termination
  by (relation "measure (\<lambda>(pattern, p). length p)") (simp_all only: in_measure split wf_measure tl_dropWhile_shorter [OF has_newlineD])

declare grep_lines.simps [simp del]

definition GREPBUF :: nat where "GREPBUF = 1024"

text \<open>\<open>grep\<close> on an input: \<open>ks\<close> are the sizes of the successive reads, each limited by the room
  \<open>sizeof(buf) - m - 1\<close>. The loop ends at a read of no bytes, which is also what a buffer full of one
  unfinished line asks for.\<close>

fun grep_loop :: "string \<Rightarrow> string \<Rightarrow> string \<Rightarrow> nat list \<Rightarrow> string" where
  "grep_loop pattern buf inp [] = []"
| "grep_loop pattern buf inp (k # ks) =
     (let n = min k (min (GREPBUF - length buf - 1) (length inp)) in
      if n = 0 then []
      else let (out, rest) = grep_lines pattern (buf @ take n inp) in out @ grep_loop pattern rest (drop n inp) ks)"

definition grep :: "string \<Rightarrow> string \<Rightarrow> nat list \<Rightarrow> string" where
  "grep pattern inp ks = grep_loop pattern [] inp ks"

text \<open>The lines of a text, without what follows the last newline.\<close>

fun lines :: "string \<Rightarrow> string \<Rightarrow> string list" where
  "lines acc [] = []"
| "lines acc (c # cs) = (if c = CHR 0x0A then acc # lines [] cs else lines (acc @ [c]) cs)"

definition emit :: "string \<Rightarrow> string list \<Rightarrow> string" where
  "emit pattern ls = concat (map (\<lambda>l. l @ [CHR 0x0A]) (filter (match pattern) ls))"

fun unfinished :: "string \<Rightarrow> string \<Rightarrow> string" where
  "unfinished acc [] = acc"
| "unfinished acc (c # cs) = (if c = CHR 0x0A then unfinished [] cs else unfinished (acc @ [c]) cs)"

lemma lines_append: "lines acc (xs @ ys) = lines acc xs @ lines (unfinished acc xs) ys"
  by (induction xs arbitrary: acc) auto

lemma unfinished_append: "unfinished acc (xs @ ys) = unfinished (unfinished acc xs) ys"
  by (induction xs arbitrary: acc) auto

lemma lines_no_newline: "CHR 0x0A \<notin> set xs \<Longrightarrow> lines acc xs = [] \<and> unfinished acc xs = acc @ xs"
  by (induction xs arbitrary: acc) auto

lemma unfinished_no_newline: "CHR 0x0A \<notin> set acc \<Longrightarrow> CHR 0x0A \<notin> set (unfinished acc xs)"
  by (induction xs arbitrary: acc) auto

lemma set_unfinished: "set (unfinished acc xs) \<subseteq> set acc \<union> set xs"
proof (induction xs arbitrary: acc)
  case (Cons c xs)
  show ?case using Cons [of "[]"] Cons [of "acc @ [c]"] by auto
qed simp

lemma grep_lines_eq: "CHR 0x00 \<notin> set p \<Longrightarrow> grep_lines pattern p = (emit pattern (lines [] p), unfinished [] p)"
proof (induction pattern p rule: grep_lines.induct)
  case (1 pattern p)
  show ?case
  proof (cases "CHR 0x0A \<in> set p")
    case True
    let ?l = "takeWhile (\<lambda>c. c \<noteq> CHR 0x0A) p" and ?r = "tl (dropWhile (\<lambda>c. c \<noteq> CHR 0x0A) p)"
    have "dropWhile (\<lambda>c. c \<noteq> CHR 0x0A) p \<noteq> []" using True by (auto simp: dropWhile_eq_Nil_conv)
    then have "dropWhile (\<lambda>c. c \<noteq> CHR 0x0A) p = CHR 0x0A # ?r" using hd_dropWhile [of "\<lambda>c. c \<noteq> CHR 0x0A" p] by (metis list.collapse)
    then have p: "p = ?l @ CHR 0x0A # ?r" using takeWhile_dropWhile_id [of "\<lambda>c. c \<noteq> CHR 0x0A" p] by metis
    have n: "CHR 0x0A \<notin> set ?l" by (auto dest: set_takeWhileD)
    have "lines [] p = ?l # lines [] ?r" "unfinished [] p = unfinished [] ?r"
      by (subst p, simp add: lines_append unfinished_append lines_no_newline [OF n])+
    moreover have "CHR 0x00 \<notin> set ?r" using 1(2) p by (metis Un_iff list.set_intros(2) set_append)
    ultimately show ?thesis using 1(1) [OF _ refl] True has_newline_text [OF 1(2)]
      by (simp add: grep_lines.simps [of pattern p] emit_def)
  next
    case False
    then show ?thesis using lines_no_newline [OF False, of "[]"] has_newline_text [OF 1(2)]
      by (simp add: grep_lines.simps [of pattern p] emit_def)
  qed
qed

text \<open>Every line, and the unfinished rest, leaves room in the buffer.\<close>

definition short_lines :: "string \<Rightarrow> bool" where
  "short_lines inp \<longleftrightarrow> (\<forall>xs ys. inp = xs @ ys \<longrightarrow> length (unfinished [] xs) < GREPBUF - 1)"

lemma grep_loop_eq:
  assumes "short_lines (done @ inp)" "CHR 0x00 \<notin> set (done @ inp)" "length inp < length ks" "\<forall>k \<in> set ks. 0 < k"
  shows "grep_loop pattern (unfinished [] done) inp ks = emit pattern (lines (unfinished [] done) inp)"
  using assms
proof (induction ks arbitrary: inp "done")
  case (Cons k ks)
  let ?buf = "unfinished [] done"
  define n where "n = min k (min (GREPBUF - length ?buf - 1) (length inp))"
  have "length ?buf < GREPBUF - 1" using Cons.prems(1) unfolding short_lines_def by blast
  then have room: "0 < GREPBUF - length ?buf - 1" by linarith
  show ?case
  proof (cases "inp = []")
    case True
    then show ?thesis by (simp add: emit_def)
  next
    case False
    then have n: "0 < n" "n \<le> length inp" unfolding n_def using room Cons.prems(4) by auto
    let ?done = "done @ take n inp"
    have buf: "CHR 0x0A \<notin> set ?buf" by (rule unfinished_no_newline) simp
    have l: "grep_lines pattern (?buf @ take n inp) = (emit pattern (lines ?buf (take n inp)), unfinished [] ?done)"
      using lines_no_newline [OF buf, of "[]"] grep_lines_eq [of "?buf @ take n inp"] Cons.prems(2) set_unfinished [of "[]" "done"]
      by (auto simp: lines_append unfinished_append dest!: in_set_takeD)
    have "length (drop n inp) < length ks" using Cons.prems(3) n by simp
    then have IH: "grep_loop pattern (unfinished [] ?done) (drop n inp) ks = emit pattern (lines (unfinished [] ?done) (drop n inp))"
      using Cons.prems(1,2,4) by (intro Cons.IH) (auto dest: in_set_takeD in_set_dropD)
    have "lines ?buf inp = lines ?buf (take n inp) @ lines (unfinished [] ?done) (drop n inp)"
      using lines_append [of ?buf "take n inp" "drop n inp"] by (simp add: unfinished_append)
    moreover have "grep_loop pattern ?buf inp (k # ks) =
        emit pattern (lines ?buf (take n inp)) @ emit pattern (lines (unfinished [] ?done) (drop n inp))"
      unfolding grep_loop.simps n_def [symmetric] Let_def l prod.case IH using n(1) by simp
    ultimately show ?thesis by (simp add: emit_def)
  qed
qed simp

text \<open>C28: \<open>grep\<close> prints exactly the lines of the input that match the pattern, in their order, however
  the reads cut the input, when it has no null byte and every line is shorter than the buffer; what follows the last
  newline is not a line.\<close>

theorem grep_correct:
  assumes "short_lines inp" "CHR 0x00 \<notin> set inp" "length inp < length ks" "\<forall>k \<in> set ks. 0 < k"
  shows "grep pattern inp ks = emit pattern (lines [] inp)"
  using grep_loop_eq [of "[]" inp ks pattern] assms by (simp add: grep_def)

lemma length_unfinished: "length (unfinished acc xs) \<le> length acc + length xs"
proof (induction xs arbitrary: acc)
  case (Cons c xs)
  then show ?case using Cons.IH [of "[]"] Cons.IH [of "acc @ [c]"] by auto
qed simp

lemma short_linesI: "length inp < GREPBUF - 1 \<Longrightarrow> short_lines inp"
  unfolding short_lines_def
proof (intro allI impI)
  fix xs ys
  assume "length inp < GREPBUF - 1" "inp = xs @ ys"
  then show "length (unfinished [] xs) < GREPBUF - 1" using length_unfinished [of "[]" xs] by simp
qed

theorem grep_correct_witness:
  "grep ''b'' (''ab'' @ [CHR 0x0A] @ ''cd'' @ [CHR 0x0A] @ ''b'') (replicate 8 3) = ''ab'' @ [CHR 0x0A]"
proof -
  have "short_lines (''ab'' @ [CHR 0x0A] @ ''cd'' @ [CHR 0x0A] @ ''b'')" by (rule short_linesI) (simp add: GREPBUF_def)
  from grep_correct [OF this, of "replicate 8 3" "''b''"] show ?thesis by (simp add: emit_def match_def)
qed

section \<open>Wildcards\<close>

fun tails :: "'a list \<Rightarrow> 'a list list" where
  "tails [] = []"
| "tails (x # xs) = (x # xs) # tails xs"

function globmatch :: "string \<Rightarrow> string \<Rightarrow> bool" where
  "globmatch [] tx = (tx = [])"
| "globmatch (p # ps) tx = (
     if p = CHR ''*'' then
       (let ps = dropWhile (\<lambda>c. c = CHR ''*'') ps in
        if ps = [] then True else list_ex (\<lambda>t. globmatch ps t) (tails tx))
     else if p = CHR ''?'' then (if tx = [] then False else globmatch ps (tl tx))
     else (if tx = [] \<or> hd tx \<noteq> p then False else globmatch ps (tl tx)))"
  by pat_completeness auto
termination
  by (relation "measure (\<lambda>(ps, tx). length ps)") (auto simp: length_dropWhile_le less_Suc_eq_le)

declare globmatch.simps(2) [simp del]

fun glang :: "string \<Rightarrow> string set" where
  "glang [] = {[]}"
| "glang (p # ps) = (if p = CHR ''*'' then {v @ u | v u. u \<in> glang ps}
     else if p = CHR ''?'' then {t # u | t u. u \<in> glang ps} else {p # u | u. u \<in> glang ps})"

lemma star_star: "{v @ u | v u. \<exists>v' u'. u = v' @ u' \<and> u' \<in> A} = {v @ u | v u. u \<in> A}" (is "?l = ?r")
proof
  show "?l \<subseteq> ?r"
  proof
    fix x assume "x \<in> ?l"
    then obtain v v' u where "x = (v @ v') @ u" "u \<in> A" by auto
    then show "x \<in> ?r" by blast
  qed
  show "?r \<subseteq> ?l" by blast
qed

lemma glang_stars: "glang (CHR ''*'' # dropWhile (\<lambda>c. c = CHR ''*'') ps) = glang (CHR ''*'' # ps)"
proof (induction ps)
  case (Cons p ps)
  show ?case
  proof (cases "p = CHR ''*''")
    case True
    have "glang (CHR ''*'' # CHR ''*'' # ps) = glang (CHR ''*'' # ps)" by (simp add: star_star)
    then show ?thesis using True Cons.IH by (simp only: dropWhile.simps if_True simp_thms)
  qed simp
qed simp

lemma tails_iff: "t \<in> set (tails xs) \<longleftrightarrow> t \<noteq> [] \<and> (\<exists>v. xs = v @ t)"
  by (induction xs) (auto simp: Cons_eq_append_conv)

lemma tails_glang:
  assumes "[] \<notin> glang q"
  shows "(\<exists>t \<in> set (tails tx). t \<in> glang q) \<longleftrightarrow> tx \<in> glang (CHR ''*'' # q)" (is "?l = ?r")
proof
  assume ?l
  then obtain t v where "t \<in> glang q" "tx = v @ t" unfolding Bex_def tails_iff by blast
  then show ?r by auto
next
  assume ?r
  then obtain t v where t: "t \<in> glang q" "tx = v @ t" by auto
  then have "t \<in> set (tails tx)" unfolding tails_iff using assms by auto
  then show ?l using t by blast
qed

lemma glang_not_empty: "p \<noteq> CHR ''*'' \<Longrightarrow> [] \<notin> glang (p # ps)"
  by auto

text \<open>C35: The wildcard matcher of \<open>find.c\<close> accepts exactly the texts a pattern describes: \<open>*\<close> stands for
  any text, \<open>?\<close> for any character and every other character for itself.\<close>

theorem globmatch_correct: "globmatch ps tx \<longleftrightarrow> tx \<in> glang ps"
proof (induction ps tx rule: globmatch.induct)
  case (2 p ps tx)
  let ?q = "dropWhile (\<lambda>c. c = CHR ''*'') ps"
  consider (all) "p = CHR ''*''" "?q = []" | (star) "p = CHR ''*''" "?q \<noteq> []" | (one) "p \<noteq> CHR ''*''" by blast
  then show ?case
  proof cases
    case all
    have "tx \<in> glang (CHR ''*'' # ?q)" unfolding all(2) by simp
    then show ?thesis using all unfolding glang_stars by (simp only: globmatch.simps(2) Let_def if_True simp_thms)
  next
    case star
    from star(2) have "hd ?q \<noteq> CHR ''*''" using hd_dropWhile by blast
    then have ne: "[] \<notin> glang ?q" using glang_not_empty [of "hd ?q" "tl ?q"] unfolding list.collapse [OF star(2)] by blast
    have "globmatch (p # ps) tx \<longleftrightarrow> (\<exists>t \<in> set (tails tx). globmatch ?q t)"
      unfolding globmatch.simps(2) using star by (simp add: list_ex_iff del: dropWhile_eq_Nil_conv)
    also have "\<dots> \<longleftrightarrow> (\<exists>t \<in> set (tails tx). t \<in> glang ?q)" using "2.IH"(1) [OF star(1) refl star(2)] by simp
    also have "\<dots> \<longleftrightarrow> tx \<in> glang (CHR ''*'' # ?q)"
      using ne by (rule tails_glang)
    finally show ?thesis unfolding glang_stars star(1) .
  next
    case one
    then show ?thesis using "2.IH"(2,3) by (cases tx) (auto simp: globmatch.simps(2))
  qed
qed simp

section \<open>The file name test of \<open>find\<close>\<close>

definition basename :: "string \<Rightarrow> string" where
  "basename path = rev (takeWhile (\<lambda>c. c \<noteq> CHR ''/'') (rev path))"

text \<open>\<open>main\<close> wraps the pattern in a buffer of 256 bytes, which \<open>strcpy\<close> overruns on a longer one
  (\<open>None\<close>); \<open>find\<close> prints a file when \<open>find_prints\<close> holds.\<close>

definition find_wrap :: "string \<Rightarrow> string option" where
  "find_wrap pat = (if length pat + 7 \<le> 256 then Some (''^.*'' @ pat @ ''.*$'') else None)"

definition find_prints :: "string \<Rightarrow> string \<Rightarrow> bool" where
  "find_prints path wrapped = match (basename path) wrapped"

definition ordinary :: "string \<Rightarrow> bool" where
  "ordinary w \<longleftrightarrow> (\<forall>c \<in> set w. c \<notin> {CHR ''^'', CHR ''*'', CHR ''.'', CHR ''$'', CHR ''/''})"

lemma parse_ordinary: "ordinary w \<Longrightarrow> parse_re w = (map One w, False)"
  by (induction w rule: parse_re.induct) (auto simp: ordinary_def)

lemma plang_ordinary: "ordinary w \<Longrightarrow> plang (map One w) = {w}"
  by (induction w) (auto simp: ordinary_def fits_def)

lemma match_ordinary: "ordinary w \<Longrightarrow> match w tx \<longleftrightarrow> (\<exists>a b. tx = a @ w @ b)"
  using match_eq [of w tx] parse_ordinary [of w] plang_ordinary [of w]
  by (cases w) (auto simp: front_def ordinary_def)

text \<open>C38: The file name test of \<open>find\<close> passes the file's name as the pattern and the wrapped pattern as
  the text: a file whose name has no pattern characters is printed exactly when its name occurs in
  \<open>^.*pat.*$\<close>, not when the pattern occurs in the name.\<close>

theorem find_swapped:
  assumes "ordinary (basename path)" "find_wrap pat = Some w"
  shows "find_prints path w \<longleftrightarrow> (\<exists>a b. ''^.*'' @ pat @ ''.*$'' = a @ basename path @ b)"
  using match_ordinary [OF assms(1)] assms(2) by (simp add: find_prints_def find_wrap_def split: if_splits)

theorem find_swapped_witness:
  "find_wrap ''b'' = Some ''^.*b.*$'' \<and> \<not> find_prints ''./ab'' ''^.*b.*$'' \<and> match ''^.*b.*$'' (basename ''./ab'')"
proof -
  have "ordinary (basename ''./ab'')" by (simp add: ordinary_def basename_def)
  moreover have w: "find_wrap ''b'' = Some ''^.*b.*$''" by (simp add: find_wrap_def)
  ultimately have "\<not> find_prints ''./ab'' ''^.*b.*$''"
    using find_swapped [of "''./ab''" "''b''" "''^.*b.*$''"]
    by (simp add: basename_def append_Cons append_eq_Cons_conv Cons_eq_append_conv)
  moreover have "match ''^.*b.*$'' (basename ''./ab'')" by code_simp
  ultimately show ?thesis using w by blast
qed

end
