(* ===== verification/Sh_Parse.thy ===== *)
theory Sh_Parse
  imports Abi
begin

text \<open>
  The parser of the shell (\<open>user/sh.c\<close>). The line is the list \<open>b\<close> of its characters before the
  null; pointers into it are offsets, and \<open>*ps\<close> is the state of the parser functions. A pair of
  pointers \<open>(q, eq)\<close> that \<open>gettoken\<close> sets is a \<open>word\<close>. The recursive functions take fuel and end in
  \<open>Undef\<close> without it; \<open>parsecmd\<close> passes an amount that is shown to suffice for every line.
\<close>

section \<open>Commands\<close>

definition MAXARGS :: nat where "MAXARGS = 10"

text \<open>The tagged structures behind \<open>struct cmd\<close>, over the representation of a word: a pair of pointers
  while parsing, the C string at the pointer once \<open>nulterminate\<close> has run.\<close>

datatype 'w cmd = EXEC "'w list"
  | REDIR "'w cmd" 'w u32 nat
  | PIPE "'w cmd" "'w cmd"
  | LIST "'w cmd" "'w cmd"
  | BACK "'w cmd"

type_synonym word_at = "nat \<times> nat"

text \<open>\<open>parseexec\<close> fills the arguments of a node that \<open>parseredirs\<close> may have wrapped already.\<close>

primrec add_arg :: "'w \<Rightarrow> 'w cmd \<Rightarrow> 'w cmd" where
  "add_arg w (EXEC ws) = EXEC (ws @ [w])"
| "add_arg w (REDIR c f m fd) = REDIR (add_arg w c) f m fd"
| "add_arg w (PIPE l r) = PIPE l r"
| "add_arg w (LIST l r) = LIST l r"
| "add_arg w (BACK c) = BACK c"

section \<open>Tokens\<close>

definition whitespace :: string where
  "whitespace = [CHR '' '', CHR 0x09, CHR 0x0D, CHR 0x0A, CHR 0x0B]"

definition symbols :: string where "symbols = ''<|>&;()''"

text \<open>\<open>strchr\<close> finds the terminating null of its string too.\<close>

definition strchr :: "string \<Rightarrow> char \<Rightarrow> bool" where
  "strchr s c = (c \<in> set s \<or> c = CHR 0x00)"

definition at :: "string \<Rightarrow> nat \<Rightarrow> char" where
  "at b s = (if s < length b then b ! s else CHR 0x00)"

definition skip :: "(char \<Rightarrow> bool) \<Rightarrow> string \<Rightarrow> nat \<Rightarrow> nat" where
  "skip P b s = s + length (takeWhile P (drop s b))"

definition wordchar :: "char \<Rightarrow> bool" where
  "wordchar c = (\<not> strchr whitespace c \<and> \<not> strchr symbols c)"

definition gettoken :: "string \<Rightarrow> (nat, char \<times> word_at) km" where
  "gettoken b s = (let s = skip (strchr whitespace) b s; c = at b s;
     (ret, e) =
       (if c = CHR 0x00 then (c, s)
        else if c \<in> set ''|();&<'' then (c, Suc s)
        else if c = CHR ''>'' then (if at b (Suc s) = CHR ''>'' then (CHR ''+'', s + 2) else (c, Suc s))
        else (CHR ''a'', skip wordchar b s)) in
     Inr ((ret, s, e), skip (strchr whitespace) b e))"

definition peek :: "string \<Rightarrow> string \<Rightarrow> (nat, bool) km" where
  "peek b toks s = (let s = skip (strchr whitespace) b s in
     Inr (at b s \<noteq> CHR 0x00 \<and> strchr toks (at b s), s))"

section \<open>The parser\<close>

definition redir :: "char \<Rightarrow> 'w cmd \<Rightarrow> 'w \<Rightarrow> 'w cmd" where
  "redir tok c w = (if tok = CHR ''<'' then REDIR c w O_RDONLY 0
     else if tok = CHR ''>'' then REDIR c w (O_WRONLY OR O_CREATE OR O_TRUNC) 1
     else if tok = CHR ''+'' then REDIR c w (O_WRONLY OR O_CREATE) 1
     else c)"

fun parseredirs :: "nat \<Rightarrow> string \<Rightarrow> word_at cmd \<Rightarrow> (nat, word_at cmd) km" where
  "parseredirs 0 b c = undefK ''fuel''"
| "parseredirs (Suc n) b c = (bindK (peek b ''<>'') (\<lambda>more.
  if \<not> more then returnK c else
  bindK (gettoken b) (\<lambda>t.
  bindK (gettoken b) (\<lambda>f.
  if fst f \<noteq> CHR ''a'' then panicK ''missing file for redirection'' else
  parseredirs n b (redir (fst t) c (snd f))))))"

fun parseargs :: "nat \<Rightarrow> string \<Rightarrow> nat \<Rightarrow> word_at cmd \<Rightarrow> (nat, word_at cmd) km" where
  "parseargs 0 b argc ret = undefK ''fuel''"
| "parseargs (Suc n) b argc ret = (bindK (peek b ''|)&;'') (\<lambda>stop.
  if stop then returnK ret else
  bindK (gettoken b) (\<lambda>t.
  if fst t = CHR 0x00 then returnK ret else
  if fst t \<noteq> CHR ''a'' then panicK ''syntax'' else
  if argc + 1 \<ge> MAXARGS then panicK ''too many args'' else
  bindK (parseredirs n b (add_arg (snd t) ret)) (\<lambda>ret.
  parseargs n b (argc + 1) ret))))"

fun parseback :: "nat \<Rightarrow> string \<Rightarrow> word_at cmd \<Rightarrow> (nat, word_at cmd) km" where
  "parseback 0 b c = undefK ''fuel''"
| "parseback (Suc n) b c = (bindK (peek b ''&'') (\<lambda>more.
  if \<not> more then returnK c else
  thenK (gettoken b) (
  parseback n b (BACK c))))"

fun parseline :: "nat \<Rightarrow> string \<Rightarrow> (nat, word_at cmd) km"
  and parsepipe :: "nat \<Rightarrow> string \<Rightarrow> (nat, word_at cmd) km"
  and parseexec :: "nat \<Rightarrow> string \<Rightarrow> (nat, word_at cmd) km"
  and parseblock :: "nat \<Rightarrow> string \<Rightarrow> (nat, word_at cmd) km" where
  "parseline 0 b = undefK ''fuel''"
| "parseline (Suc n) b = (bindK (parsepipe n b) (\<lambda>c.
  bindK (parseback n b c) (\<lambda>c.
  bindK (peek b '';'') (\<lambda>semi.
  if \<not> semi then returnK c else
  thenK (gettoken b) (
  bindK (parseline n b) (\<lambda>r.
  returnK (LIST c r)))))))"
| "parsepipe 0 b = undefK ''fuel''"
| "parsepipe (Suc n) b = (bindK (parseexec n b) (\<lambda>c.
  bindK (peek b ''|'') (\<lambda>bar.
  if \<not> bar then returnK c else
  thenK (gettoken b) (
  bindK (parsepipe n b) (\<lambda>r.
  returnK (PIPE c r))))))"
| "parseexec 0 b = undefK ''fuel''"
| "parseexec (Suc n) b = (bindK (peek b ''('') (\<lambda>block.
  if block then parseblock n b else
  bindK (parseredirs n b (EXEC [])) (\<lambda>ret.
  parseargs n b 0 ret)))"
| "parseblock 0 b = undefK ''fuel''"
| "parseblock (Suc n) b = (bindK (peek b ''('') (\<lambda>open.
  if \<not> open then panicK ''parseblock'' else
  thenK (gettoken b) (
  bindK (parseline n b) (\<lambda>c.
  bindK (peek b '')'') (\<lambda>close.
  if \<not> close then panicK ''syntax - missing )'' else
  thenK (gettoken b) (
  parseredirs n b c))))))"

section \<open>Terminating the words\<close>

text \<open>\<open>mem\<close> is the array that holds the line and its null.\<close>

primrec nulterminate :: "word_at cmd \<Rightarrow> string \<Rightarrow> string" where
  "nulterminate (EXEC ws) mem = foldl (\<lambda>mem w. mem[snd w := CHR 0x00]) mem ws"
| "nulterminate (REDIR c f m fd) mem = (nulterminate c mem)[snd f := CHR 0x00]"
| "nulterminate (PIPE l r) mem = nulterminate r (nulterminate l mem)"
| "nulterminate (LIST l r) mem = nulterminate r (nulterminate l mem)"
| "nulterminate (BACK c) mem = nulterminate c mem"

text \<open>The command with the memory its pointers point to.\<close>

definition parsecmd :: "string \<Rightarrow> kerr + word_at cmd \<times> string" where
  "parsecmd b = (case (bindK (parseline (4 * length b + 4) b) (\<lambda>c.
    thenK (peek b []) (
    bindK (getK (\<lambda>s. s)) (\<lambda>s.
    if s \<noteq> length b then panicK ''syntax'' else
    returnK c)))) 0 of
     Inl e \<Rightarrow> Inl e
   | Inr (c, _) \<Rightarrow> Inr (c, nulterminate c (b @ [CHR 0x00])))"

text \<open>The C string a pointer refers to, and the command \<open>runcmd\<close> sees.\<close>

definition cstr :: "string \<Rightarrow> nat \<Rightarrow> string" where
  "cstr mem q = takeWhile (\<lambda>c. c \<noteq> CHR 0x00) (drop q mem)"

definition resolve :: "string \<Rightarrow> word_at cmd \<Rightarrow> string cmd" where
  "resolve mem = map_cmd (\<lambda>w. cstr mem (fst w))"

section \<open>Returning or panicking\<close>

text \<open>The parser returns a result that satisfies \<open>Q\<close>, or it panics with one of the messages for bad
  lines: it does not run out of fuel and does not reach the panic of \<open>parseblock\<close>.\<close>

definition messages :: "string set" where
  "messages = {''missing file for redirection'', ''syntax'', ''too many args'', ''syntax - missing )''}"

definition pwp :: "('s, 'a) km \<Rightarrow> ('a \<Rightarrow> 's \<Rightarrow> bool) \<Rightarrow> 's \<Rightarrow> bool" where
  "pwp m Q s = (case m s of Inl e \<Rightarrow> e \<in> Panic ` messages | Inr (x, t) \<Rightarrow> Q x t)"

named_theorems pw \<open>preconditions for returning or panicking\<close>

lemma pwp_returnK [pw]: "pwp (returnK x) Q = Q x"
  by (simp add: fun_eq_iff pwp_def returnK_def)

lemma pwp_bindK [pw]: "pwp (bindK m f) Q = pwp m (\<lambda>x. pwp (f x) Q)"
  by (auto simp: fun_eq_iff pwp_def bindK_def split: sum.splits)

lemma pwp_thenK [pw]: "pwp (thenK m k) Q = pwp m (\<lambda>_. pwp k Q)"
  by (simp add: thenK_def pwp_bindK)

lemma pwp_getK [pw]: "pwp (getK f) Q = (\<lambda>s. Q (f s) s)"
  by (simp add: fun_eq_iff pwp_def getK_def)

lemma pwp_panicK [pw]: "pwp (panicK e) Q = (\<lambda>_. e \<in> messages)"
  by (auto simp: fun_eq_iff pwp_def panicK_def)

lemma pwp_if [pw]: "pwp (if b then m else n) Q = (\<lambda>s. if b then pwp m Q s else pwp n Q s)"
  by (simp add: fun_eq_iff)

lemma pwp_mono: "pwp m P s \<Longrightarrow> (\<And>x t. P x t \<Longrightarrow> Q x t) \<Longrightarrow> pwp m Q s"
  by (auto simp: pwp_def split: sum.splits)

section \<open>What the tokens of a line are\<close>

abbreviation ws :: "string \<Rightarrow> nat \<Rightarrow> nat" where
  "ws \<equiv> skip (strchr whitespace)"

definition tret :: "string \<Rightarrow> nat \<Rightarrow> char" where
  "tret b s = (case gettoken b s of Inr ((r, w), t) \<Rightarrow> r | Inl _ \<Rightarrow> CHR 0x00)"

definition tword :: "string \<Rightarrow> nat \<Rightarrow> word_at" where
  "tword b s = (case gettoken b s of Inr ((r, w), t) \<Rightarrow> w | Inl _ \<Rightarrow> (0, 0))"

definition tnext :: "string \<Rightarrow> nat \<Rightarrow> nat" where
  "tnext b s = (case gettoken b s of Inr ((r, w), t) \<Rightarrow> t | Inl _ \<Rightarrow> s)"

lemma gettoken_run: "gettoken b s = Inr ((tret b s, tword b s), tnext b s)"
  by (simp add: tret_def tword_def tnext_def gettoken_def Let_def split: prod.splits)

lemma pwp_gettoken [pw]: "pwp (gettoken b) Q = (\<lambda>s. Q (tret b s, tword b s) (tnext b s))"
  by (simp add: fun_eq_iff pwp_def gettoken_run)

definition ahead :: "string \<Rightarrow> string \<Rightarrow> nat \<Rightarrow> bool" where
  "ahead b toks s = (at b (ws b s) \<noteq> CHR 0x00 \<and> at b (ws b s) \<in> set toks)"

lemma pwp_peek [pw]: "pwp (peek b toks) Q = (\<lambda>s. Q (ahead b toks s) (ws b s))"
  by (simp add: fun_eq_iff pwp_def peek_def Let_def ahead_def strchr_def cong: conj_cong)

lemma skip_le: "s \<le> length b \<Longrightarrow> skip P b s \<le> length b"
  using length_takeWhile_le [of P "drop s b"] by (simp add: skip_def)

lemma skip_ge: "s \<le> skip P b s"
  by (simp add: skip_def)

lemma drop_skip: "drop (skip P b s) b = dropWhile P (drop s b)"
  by (simp add: skip_def dropWhile_eq_drop add.commute)

lemma takeWhile_dropWhile_Nil: "takeWhile P (dropWhile P xs) = []"
  by (induction xs) auto

lemma skip_skip [simp]: "skip P b (skip P b s) = skip P b s"
  by (simp only: skip_def [of P b "skip P b s"] drop_skip takeWhile_dropWhile_Nil) simp

lemma at_skip: "skip P b s < length b \<Longrightarrow> \<not> P (at b (skip P b s))"
proof -
  assume k: "skip P b s < length b"
  then have "drop (skip P b s) b \<noteq> []" by simp
  then have "dropWhile P (drop s b) \<noteq> []" unfolding drop_skip .
  then have "\<not> P (hd (dropWhile P (drop s b)))" by (rule hd_dropWhile)
  then have "\<not> P (hd (drop (skip P b s) b))" unfolding drop_skip .
  then show ?thesis using k by (simp add: at_def hd_drop_conv_nth)
qed

lemma skip_between: "s \<le> i \<Longrightarrow> i < skip P b s \<Longrightarrow> i < length b \<and> P (b ! i)"
proof -
  assume i: "s \<le> i" "i < skip P b s"
  then have k: "i - s < length (takeWhile P (drop s b))" by (simp add: skip_def)
  then have "takeWhile P (drop s b) ! (i - s) \<in> set (takeWhile P (drop s b))" by (rule nth_mem)
  then have p: "P (takeWhile P (drop s b) ! (i - s))" by (blast dest: set_takeWhileD)
  have e: "takeWhile P (drop s b) ! (i - s) = drop s b ! (i - s)" using k by (rule takeWhile_nth)
  have "i - s < length (drop s b)" using k length_takeWhile_le [of P "drop s b"] by (rule less_le_trans)
  then have l: "i < length b" using i(1) by simp
  then have "drop s b ! (i - s) = b ! i" using i(1) by (subst nth_drop) simp_all
  with p l show ?thesis unfolding e by simp
qed

lemma gettoken_ws [simp]: "gettoken b (ws b s) = gettoken b s"
  unfolding gettoken_def skip_skip ..

lemma tok_ws [simp]: "tret b (ws b s) = tret b s" "tword b (ws b s) = tword b s"
  by (simp_all add: tret_def tword_def)

lemma tnext_ws [simp]: "tnext b (ws b s) = tnext b s"
  using gettoken_run [of b s] gettoken_run [of b "ws b s"] by simp

lemma at_nonnull: "at b s \<noteq> CHR 0x00 \<Longrightarrow> s < length b"
  by (simp add: at_def split: if_splits)

text \<open>A word: a longest run of word characters of the line.\<close>

definition wf_word :: "string \<Rightarrow> word_at \<Rightarrow> bool" where
  "wf_word b w = (case w of (q, e) \<Rightarrow> q < e \<and> e \<le> length b \<and> (\<forall>i \<in> {q..<e}. wordchar (b ! i)) \<and> \<not> wordchar (at b e))"

definition nonul :: "string \<Rightarrow> bool" where
  "nonul b = (CHR 0x00 \<notin> set b)"

lemma at_nonul: "nonul b \<Longrightarrow> s < length b \<Longrightarrow> at b s \<noteq> CHR 0x00"
  unfolding nonul_def at_def by (metis nth_mem)

lemma not_wordchar_null [simp]: "\<not> wordchar CHR 0x00"
  by (simp add: wordchar_def strchr_def)

lemma tok_cases:
  assumes "nonul b" "s \<le> length b"
  obtains (eol) "ws b s = length b" "tret b s = CHR 0x00" "tnext b s = length b"
  | (sym) c where "ws b s < length b" "at b (ws b s) = c" "c \<in> set ''|();&<''" "tret b s = c"
      "tnext b s = ws b (Suc (ws b s))"
  | (out) "ws b s < length b" "at b (ws b s) = CHR ''>''" "tret b s = CHR ''>''" "tnext b s = ws b (Suc (ws b s))"
  | (append) "Suc (ws b s) < length b" "at b (ws b s) = CHR ''>''" "tret b s = CHR ''+''" "tnext b s = ws b (ws b s + 2)"
  | (word_) "ws b s < length b" "wordchar (at b (ws b s))" "tret b s = CHR ''a''" "tword b s = (ws b s, skip wordchar b (ws b s))"
      "tnext b s = ws b (skip wordchar b (ws b s))"
proof -
  let ?q = "ws b s"
  have le: "?q \<le> length b" using assms(2) by (rule skip_le)
  consider "?q = length b" | "?q < length b" "at b ?q \<in> set ''|();&<''" | "?q < length b" "at b ?q = CHR ''>''" "at b (Suc ?q) = CHR ''>''"
    | "?q < length b" "at b ?q = CHR ''>''" "at b (Suc ?q) \<noteq> CHR ''>''"
    | "?q < length b" "at b ?q \<notin> set ''|();&<''" "at b ?q \<noteq> CHR ''>''"
    using le by linarith
  then show thesis
  proof cases
    case 1
    then show thesis using skip_le [of "length b" b "strchr whitespace"] skip_ge [of "length b" "strchr whitespace" b]
      by (intro eol) (simp_all add: tret_def tnext_def gettoken_def at_def Let_def)
  next
    case 2
    then show thesis using at_nonul [OF assms(1) 2(1)]
      by (intro sym [of "at b ?q"]) (simp_all add: tret_def tnext_def gettoken_def Let_def)
  next
    case 3
    then show thesis using at_nonnull [of b "Suc ?q"]
      by (intro append) (simp_all add: tret_def tnext_def gettoken_def Let_def)
  next
    case 4
    then show thesis by (intro out) (simp_all add: tret_def tnext_def gettoken_def Let_def)
  next
    case 5
    have n: "at b ?q \<noteq> CHR 0x00" using at_nonul [OF assms(1) 5(1)] .
    have "wordchar (at b ?q)" using at_skip [OF 5(1)] 5(2,3) n by (auto simp: wordchar_def strchr_def symbols_def)
    then show thesis using 5 n
      by (intro word_) (simp_all add: tret_def tword_def tnext_def gettoken_def Let_def)
  qed
qed

lemma tnext_le:
  assumes "nonul b" "s \<le> length b"
  shows "tnext b s \<le> length b"
  using assms
proof (cases rule: tok_cases)
  case word_
  have "skip wordchar b (ws b s) \<le> length b" using less_imp_le [OF word_(1)] by (rule skip_le)
  then show ?thesis unfolding word_(5) by (rule skip_le)
qed (simp_all add: skip_le)

lemma wf_tword:
  assumes "nonul b" "s \<le> length b" "tret b s = CHR ''a''"
  shows "wf_word b (tword b s)"
  using assms(1,2)
proof (cases rule: tok_cases)
  case word_
  let ?q = "ws b s" and ?e = "skip wordchar b (ws b s)"
  have "?e \<noteq> ?q" using at_skip [of wordchar b ?q] word_(1,2) by auto
  then have "?q < ?e" using skip_ge [of ?q wordchar b] by simp
  moreover have "?e \<le> length b" using less_imp_le [OF word_(1)] by (rule skip_le)
  moreover have "\<forall>i \<in> {?q..<?e}. wordchar (b ! i)" using skip_between [of ?q _ wordchar b] by simp
  moreover have "\<not> wordchar (at b ?e)"
    using at_skip [of wordchar b ?q] by (cases "?e < length b") (simp_all add: at_def)
  ultimately show ?thesis by (simp add: wf_word_def word_(4))
qed (use assms(3) in auto)

lemma tnext_gt:
  assumes "nonul b" "s \<le> length b" "tret b s \<noteq> CHR 0x00"
  shows "s < tnext b s"
proof -
  note ge = skip_ge [of _ "strchr whitespace" b]
  from assms(1,2) show ?thesis
  proof (cases rule: tok_cases)
    case word_
    have "ws b s < skip wordchar b (ws b s)" using wf_tword [OF assms(1,2) word_(3)] by (simp add: word_(4) wf_word_def)
    then show ?thesis using ge [of s] ge [of "skip wordchar b (ws b s)"] unfolding word_(5) by linarith
  next
    case append
    then show ?thesis using ge [of s] ge [of "ws b s + 2"] by linarith
  qed (use assms(3) ge [of s] ge [of "Suc (ws b s)"] in linarith)+
qed

lemma ahead_tret:
  assumes "nonul b" "s \<le> length b" "set toks \<subseteq> set ''|();&<''"
  shows "ahead b toks s \<longleftrightarrow> tret b s \<in> set toks"
  using assms(1,2) by (rule tok_cases) (use assms(3) in \<open>auto simp: ahead_def at_def wordchar_def strchr_def symbols_def\<close>)

lemma ahead_redir:
  assumes "nonul b" "s \<le> length b"
  shows "ahead b ''<>'' s \<longleftrightarrow> tret b s \<in> set ''<>+''"
  using assms by (rule tok_cases) (auto simp: ahead_def at_def wordchar_def strchr_def symbols_def)

section \<open>The grammar\<close>

datatype token = Sym char | Word word_at

definition tok :: "string \<Rightarrow> nat \<Rightarrow> token" where
  "tok b s = (if tret b s = CHR ''a'' then Word (tword b s) else Sym (tret b s))"

function lex :: "string \<Rightarrow> nat \<Rightarrow> token list" where
  "lex b s = (if nonul b \<and> s \<le> length b \<and> tret b s \<noteq> CHR 0x00 then tok b s # lex b (tnext b s) else [])"
  by pat_completeness auto
termination
proof (relation "measure (\<lambda>(b, s). length b - s)")
  fix b s
  assume "nonul b \<and> s \<le> length b \<and> tret b s \<noteq> CHR 0x00"
  then show "((b, tnext b s), (b, s)) \<in> measure (\<lambda>(b, s). length b - s)"
    using tnext_gt [of b s] tnext_le [of b s] by simp
qed simp

declare lex.simps [simp del]

text \<open>The grammar of command lines: \<open>;\<close> binds weaker than \<open>&\<close>, which binds weaker than \<open>|\<close>; a command is
  a sequence of words and redirections, or a line in parentheses with redirections.\<close>

inductive gredirs :: "word_at cmd \<Rightarrow> token list \<Rightarrow> word_at cmd \<Rightarrow> bool" where
  redirs_end: "gredirs c [] c"
| redirs_more: "t \<in> set ''<>+'' \<Longrightarrow> gredirs (redir t c w) ks d \<Longrightarrow> gredirs c (Sym t # Word w # ks) d"

inductive gargs :: "word_at cmd \<Rightarrow> token list \<Rightarrow> word_at cmd \<Rightarrow> bool" where
  args_end: "gargs c [] c"
| args_more: "gredirs (add_arg w c) k1 d \<Longrightarrow> gargs d k2 e \<Longrightarrow> gargs c (Word w # k1 @ k2) e"

inductive gline :: "token list \<Rightarrow> word_at cmd \<Rightarrow> bool"
  and gpipe :: "token list \<Rightarrow> word_at cmd \<Rightarrow> bool"
  and gexec :: "token list \<Rightarrow> word_at cmd \<Rightarrow> bool" where
  line_end: "gpipe ks c \<Longrightarrow> gline (ks @ replicate n (Sym CHR ''&'')) ((BACK ^^ n) c)"
| line_list: "gpipe k1 c \<Longrightarrow> gline k2 d \<Longrightarrow>
    gline (k1 @ replicate n (Sym CHR ''&'') @ Sym CHR '';'' # k2) (LIST ((BACK ^^ n) c) d)"
| pipe_end: "gexec ks c \<Longrightarrow> gpipe ks c"
| pipe_more: "gexec k1 c \<Longrightarrow> gpipe k2 d \<Longrightarrow> gpipe (k1 @ Sym CHR ''|'' # k2) (PIPE c d)"
| exec_words: "gredirs (EXEC []) k1 c \<Longrightarrow> gargs c k2 d \<Longrightarrow> gexec (k1 @ k2) d"
| exec_block: "gline k1 c \<Longrightarrow> gredirs c k2 d \<Longrightarrow> gexec (Sym CHR ''('' # k1 @ Sym CHR '')'' # k2) d"

text \<open>Well-formed commands: fewer than \<open>MAXARGS\<close> arguments, words of the line, and the modes that
  \<open>parseredirs\<close> gives.\<close>

primrec wf_cmd :: "string \<Rightarrow> word_at cmd \<Rightarrow> bool" where
  "wf_cmd b (EXEC args) = (length args < MAXARGS \<and> (\<forall>w \<in> set args. wf_word b w))"
| "wf_cmd b (REDIR c f m fd) = (wf_cmd b c \<and> wf_word b f \<and>
     (m, fd) \<in> {(O_RDONLY, 0), (O_WRONLY OR O_CREATE OR O_TRUNC, 1), (O_WRONLY OR O_CREATE, 1)})"
| "wf_cmd b (PIPE l r) = (wf_cmd b l \<and> wf_cmd b r)"
| "wf_cmd b (LIST l r) = (wf_cmd b l \<and> wf_cmd b r)"
| "wf_cmd b (BACK c) = wf_cmd b c"

primrec nargs :: "'w cmd \<Rightarrow> nat" where
  "nargs (EXEC args) = length args"
| "nargs (REDIR c f m fd) = nargs c"
| "nargs (PIPE l r) = 0"
| "nargs (LIST l r) = 0"
| "nargs (BACK c) = 0"

lemma wf_redir: "wf_cmd b c \<Longrightarrow> wf_word b w \<Longrightarrow> wf_cmd b (redir t c w)"
  by (simp add: redir_def)

lemma nargs_redir [simp]: "nargs (redir t c w) = nargs c"
  by (simp add: redir_def)

lemma wf_add_arg: "wf_cmd b c \<Longrightarrow> wf_word b w \<Longrightarrow> nargs c + 1 < MAXARGS \<Longrightarrow> wf_cmd b (add_arg w c)"
  by (induction c) auto

lemma nargs_add_arg: "nargs (add_arg w c) \<le> nargs c + 1"
  by (induction c) auto

section \<open>The parser against the grammar\<close>

text \<open>The parser moved from \<open>s\<close> to \<open>t\<close> over the tokens \<open>ks\<close>.\<close>

definition consumed :: "string \<Rightarrow> nat \<Rightarrow> nat \<Rightarrow> token list \<Rightarrow> bool" where
  "consumed b s t ks \<longleftrightarrow> s \<le> t \<and> t \<le> length b \<and> lex b s = ks @ lex b t"

lemma consumed_ws: "s \<le> length b \<Longrightarrow> consumed b s (ws b s) []"
  using skip_le [of s b "strchr whitespace"] skip_ge [of s "strchr whitespace" b]
  by (simp add: consumed_def lex.simps [of b s] lex.simps [of b "ws b s"] tok_def)

lemma consumed_tok:
  assumes "nonul b" "s \<le> length b" "tret b s \<noteq> CHR 0x00"
  shows "consumed b s (tnext b s) [tok b s]"
  using assms tnext_gt [OF assms] tnext_le [OF assms(1,2)] by (simp add: consumed_def lex.simps [of b s])

lemma consumed_trans: "consumed b s t k1 \<Longrightarrow> consumed b t u k2 \<Longrightarrow> consumed b s u (k1 @ k2)"
  by (auto simp: consumed_def)

lemma consumed_le: "consumed b s t ks \<Longrightarrow> s \<le> t \<and> t \<le> length b"
  by (simp add: consumed_def)

lemma pwp_bind: "pwp m P s \<Longrightarrow> (\<And>x t. P x t \<Longrightarrow> pwp (f x) Q t) \<Longrightarrow> pwp (bindK m f) Q s"
  unfolding pwp_bindK by (rule pwp_mono)

lemma parseredirs_ok:
  assumes "nonul b" "s \<le> length b" "length b - s < n" "wf_cmd b c"
  shows "pwp (parseredirs n b c) (\<lambda>d t. wf_cmd b d \<and> nargs d = nargs c \<and> (\<exists>ks. consumed b s t ks \<and> gredirs c ks d)) s"
  using assms(2-)
proof (induction n arbitrary: s c)
  case (Suc n)
  show ?case
  proof (cases "tret b s \<in> set ''<>+'' \<and> tret b (tnext b s) = CHR ''a''")
    case True
    let ?t = "tnext b s" and ?c = "redir (tret b s) c (tword b (tnext b s))"
    have t: "tret b s \<noteq> CHR 0x00" "tok b s = Sym (tret b s)" using True by (auto simp: tok_def)
    have 1: "consumed b s ?t [Sym (tret b s)]" using consumed_tok [OF assms(1) Suc.prems(1) t(1)] t(2) by simp
    have u: "tret b ?t \<noteq> CHR 0x00" "tok b ?t = Word (tword b ?t)" using True by (auto simp: tok_def)
    have 2: "consumed b ?t (tnext b ?t) [Word (tword b ?t)]"
      using consumed_tok [OF assms(1) _ u(1)] consumed_le [OF 1] u(2) by simp
    have c: "wf_cmd b ?c" using Suc.prems(3) wf_tword [OF assms(1), of ?t] consumed_le [OF 1] True by (simp add: wf_redir)
    have "length b - tnext b ?t < n" using tnext_gt [OF assms(1) Suc.prems(1) t(1)] consumed_le [OF 2] Suc.prems(2) by linarith
    from Suc.IH [OF _ this c] have "pwp (parseredirs n b ?c)
        (\<lambda>d t. wf_cmd b d \<and> nargs d = nargs c \<and> (\<exists>ks. consumed b (tnext b ?t) t ks \<and> gredirs ?c ks d)) (tnext b ?t)"
      using consumed_le [OF 2] by simp
    then show ?thesis using True ahead_redir [OF assms(1) Suc.prems(1)]
      by (auto simp: pw elim!: pwp_mono intro!: exI redirs_more dest: consumed_trans [OF consumed_trans [OF 1 2]])
  next
    case False
    then show ?thesis
      using ahead_redir [OF assms(1) Suc.prems(1)] consumed_ws [OF Suc.prems(1)] Suc.prems(3)
      by (auto simp: pw messages_def intro: redirs_end)
  qed
qed simp

lemma parseback_ok:
  assumes "nonul b" "s \<le> length b" "length b - s < n" "wf_cmd b c"
  shows "pwp (parseback n b c) (\<lambda>d t. wf_cmd b d \<and>
    (\<exists>k. consumed b s t (replicate k (Sym CHR ''&'')) \<and> d = (BACK ^^ k) c)) s"
  using assms(2-)
proof (induction n arbitrary: s c)
  case (Suc n)
  have a: "ahead b ''&'' s \<longleftrightarrow> tret b s = CHR ''&''" using ahead_tret [OF assms(1) Suc.prems(1), of "''&''"] by simp
  show ?case
  proof (cases "tret b s = CHR ''&''")
    case True
    then have t: "tret b s \<noteq> CHR 0x00" "tok b s = Sym CHR ''&''" by (auto simp: tok_def)
    have 1: "consumed b s (tnext b s) [Sym CHR ''&'']" using consumed_tok [OF assms(1) Suc.prems(1) t(1)] t(2) by simp
    have "length b - tnext b s < n" using tnext_gt [OF assms(1) Suc.prems(1) t(1)] consumed_le [OF 1] Suc.prems(2) by linarith
    from Suc.IH [OF _ this, of "BACK c"] have "pwp (parseback n b (BACK c))
        (\<lambda>d t. wf_cmd b d \<and> (\<exists>k. consumed b (tnext b s) t (replicate k (Sym CHR ''&'')) \<and> d = (BACK ^^ k) (BACK c))) (tnext b s)"
      using consumed_le [OF 1] Suc.prems(3) by simp
    then have "pwp (parseback n b (BACK c)) (\<lambda>d t. wf_cmd b d \<and>
        (\<exists>k. consumed b s t (replicate k (Sym CHR ''&'')) \<and> d = (BACK ^^ k) c)) (tnext b s)"
    proof (rule pwp_mono)
      fix d t
      assume "wf_cmd b d \<and> (\<exists>k. consumed b (tnext b s) t (replicate k (Sym CHR ''&'')) \<and> d = (BACK ^^ k) (BACK c))"
      then obtain k where k: "wf_cmd b d" "consumed b (tnext b s) t (replicate k (Sym CHR ''&''))" "d = (BACK ^^ k) (BACK c)" by blast
      have "consumed b s t (replicate (Suc k) (Sym CHR ''&''))" using consumed_trans [OF 1 k(2)] by simp
      moreover have "d = (BACK ^^ Suc k) c" using k(3) by (simp add: funpow_swap1)
      ultimately show "wf_cmd b d \<and> (\<exists>k. consumed b s t (replicate k (Sym CHR ''&'')) \<and> d = (BACK ^^ k) c)" using k(1) by blast
    qed
    then show ?thesis using True a by (simp add: pw)
  next
    case False
    then show ?thesis using a consumed_ws [OF Suc.prems(1)] Suc.prems(3)
      by (auto simp: pw intro!: exI [of _ 0])
  qed
qed simp

lemma consumed_end:
  assumes "nonul b" "s \<le> length b" "tret b s = CHR 0x00"
  shows "consumed b s (tnext b s) []"
  using assms(1,2)
proof (cases rule: tok_cases)
  case eol
  then have "tret b (length b) = CHR 0x00" using tok_ws(1) [of b s] by simp
  then show ?thesis using eol assms by (simp add: consumed_def lex.simps [of b s] lex.simps [of b "length b"])
qed (use assms(3) in auto)

lemma parseargs_ok:
  assumes "nonul b" "s \<le> length b" "length b - s < n" "wf_cmd b c" "nargs c \<le> argc"
  shows "pwp (parseargs n b argc c) (\<lambda>d t. wf_cmd b d \<and> (\<exists>ks. consumed b s t ks \<and> gargs c ks d)) s"
  using assms(2-)
proof (induction n arbitrary: s c argc)
  case (Suc n)
  note [simp] = pw messages_def
  have stop: "consumed b s (ws b s) [] \<and> gargs c [] c" using consumed_ws [OF Suc.prems(1)] args_end by simp
  consider "ahead b ''|)&;'' s" | "tret b s = CHR 0x00" | "tret b s \<noteq> CHR 0x00" "tret b s \<noteq> CHR ''a''"
    | "tret b s = CHR ''a''" "MAXARGS \<le> argc + 1" | "\<not> ahead b ''|)&;'' s" "tret b s = CHR ''a''" "argc + 1 < MAXARGS"
    by fastforce
  then show ?case
  proof cases
    case 1
    then show ?thesis using stop Suc.prems(3) by auto
  next
    case 2
    then have "consumed b s (tnext b s) []" by (rule consumed_end [OF assms(1) Suc.prems(1)])
    then show ?thesis using 2 stop Suc.prems(3) args_end by auto
  next
    case 5
    let ?t = "tnext b s" and ?c = "add_arg (tword b s) c"
    have t: "tret b s \<noteq> CHR 0x00" "tok b s = Word (tword b s)" using 5 by (auto simp: tok_def)
    have 1: "consumed b s ?t [Word (tword b s)]" using consumed_tok [OF assms(1) Suc.prems(1) t(1)] t(2) by simp
    have c: "wf_cmd b ?c" using Suc.prems(3,4) wf_tword [OF assms(1) Suc.prems(1) 5(2)] 5(3) by (intro wf_add_arg) auto
    have n: "length b - ?t < n" using tnext_gt [OF assms(1) Suc.prems(1) t(1)] consumed_le [OF 1] Suc.prems(2) by linarith
    have "pwp (bindK (parseredirs n b ?c) (parseargs n b (argc + 1)))
        (\<lambda>d t. wf_cmd b d \<and> (\<exists>ks. consumed b s t ks \<and> gargs c ks d)) ?t"
    proof (rule pwp_bind [OF parseredirs_ok [OF assms(1) _ n c]])
      show "?t \<le> length b" using consumed_le [OF 1] by simp
      fix d u
      assume "wf_cmd b d \<and> nargs d = nargs ?c \<and> (\<exists>ks. consumed b ?t u ks \<and> gredirs ?c ks d)"
      then obtain k1 where d: "wf_cmd b d" "nargs d = nargs ?c" "consumed b ?t u k1" "gredirs ?c k1 d" by blast
      have "nargs d \<le> argc + 1" using d(2) nargs_add_arg [of "tword b s" c] Suc.prems(4) by simp
      moreover have "length b - u < n" using n consumed_le [OF d(3)] by linarith
      ultimately have "pwp (parseargs n b (argc + 1) d) (\<lambda>e t. wf_cmd b e \<and> (\<exists>ks. consumed b u t ks \<and> gargs d ks e)) u"
        using d(1) consumed_le [OF d(3)] by (intro Suc.IH) auto
      then show "pwp (parseargs n b (argc + 1) d) (\<lambda>d t. wf_cmd b d \<and> (\<exists>ks. consumed b s t ks \<and> gargs c ks d)) u"
      proof (rule pwp_mono)
        fix e t
        assume "wf_cmd b e \<and> (\<exists>ks. consumed b u t ks \<and> gargs d ks e)"
        then obtain k2 where e: "wf_cmd b e" "consumed b u t k2" "gargs d k2 e" by blast
        have "consumed b s t (Word (tword b s) # k1 @ k2)" using consumed_trans [OF 1 consumed_trans [OF d(3) e(2)]] by simp
        then show "wf_cmd b e \<and> (\<exists>ks. consumed b s t ks \<and> gargs c ks e)" using e(1) args_more [OF d(4) e(3)] by blast
      qed
    qed
    then show ?thesis using 5 by (simp del: pw add: pwp_bindK pwp_thenK pwp_if pwp_peek pwp_gettoken pwp_returnK)
  qed (use stop Suc.prems(3) in auto)
qed simp

text \<open>What a parser function for the nonterminal \<open>g\<close> does from \<open>s\<close>.\<close>

definition parses :: "string \<Rightarrow> (token list \<Rightarrow> word_at cmd \<Rightarrow> bool) \<Rightarrow> nat \<Rightarrow> word_at cmd \<Rightarrow> nat \<Rightarrow> bool" where
  "parses b g s c t \<longleftrightarrow> wf_cmd b c \<and> (\<exists>ks. consumed b s t ks \<and> g ks c)"

lemma sym_step:
  assumes "nonul b" "s \<le> length b" "c \<in> set ''|();&<''"
  shows "ahead b [c] s \<longleftrightarrow> tret b s = c"
    and "tret b s = c \<Longrightarrow> consumed b s (tnext b s) [Sym c] \<and> s < tnext b s"
proof -
  show "ahead b [c] s \<longleftrightarrow> tret b s = c" using ahead_tret [OF assms(1,2), of "[c]"] assms(3) by simp
  assume c: "tret b s = c"
  then have "tret b s \<noteq> CHR 0x00" "tok b s = Sym c" using assms(3) by (auto simp: tok_def)
  then show "consumed b s (tnext b s) [Sym c] \<and> s < tnext b s"
    using consumed_tok [OF assms(1,2)] tnext_gt [OF assms(1,2)] by simp
qed

lemma parseline_step:
  assumes b: "nonul b" "s \<le> length b" and n: "length b - s < n"
    and pipe: "pwp (parsepipe n b) (parses b gpipe s) s"
    and line: "\<And>t. s < t \<Longrightarrow> t \<le> length b \<Longrightarrow> pwp (parseline n b) (parses b gline t) t"
  shows "pwp (parseline (Suc n) b) (parses b gline s) s"
  unfolding parseline.simps
proof (rule pwp_bind [OF pipe])
  fix c t
  assume "parses b gpipe s c t"
  then obtain k1 where c: "wf_cmd b c" "consumed b s t k1" "gpipe k1 c" by (auto simp: parses_def)
  then have t: "s \<le> t" "t \<le> length b" "length b - t < n" using consumed_le [OF c(2)] n by auto
  show "pwp (bindK (parseback n b c) (\<lambda>c. bindK (peek b '';'') (\<lambda>semi. if \<not> semi then returnK c else
      thenK (gettoken b) (bindK (parseline n b) (\<lambda>r. returnK (LIST c r)))))) (parses b gline s) t"
  proof (rule pwp_bind [OF parseback_ok [OF b(1) t(2,3) c(1)]])
    fix d u
    assume "wf_cmd b d \<and> (\<exists>k. consumed b t u (replicate k (Sym CHR ''&'')) \<and> d = (BACK ^^ k) c)"
    then obtain k where d: "wf_cmd b d" "consumed b t u (replicate k (Sym CHR ''&''))" "d = (BACK ^^ k) c" by blast
    note su = consumed_trans [OF c(2) d(2)]
    have u: "s \<le> u" "u \<le> length b" using consumed_le [OF su] by auto
    note semi = sym_step [OF b(1) u(2), of "CHR '';''"]
    have "parses b gline s d (ws b u)"
      using consumed_trans [OF su consumed_ws [OF u(2)]] line_end [OF c(3), of k] d(1,3) unfolding parses_def by auto
    moreover have "pwp (parseline n b) (\<lambda>r. parses b gline s (LIST d r)) (tnext b u)" if "tret b u = CHR '';''"
    proof (rule pwp_mono [OF line])
      have v: "consumed b u (tnext b u) [Sym CHR '';'']" "u < tnext b u" using semi(2) that by auto
      show "s < tnext b u" "tnext b u \<le> length b" using v u consumed_le [OF v(1)] by auto
      fix r w
      assume "parses b gline (tnext b u) r w"
      then obtain k2 where r: "wf_cmd b r" "consumed b (tnext b u) w k2" "gline k2 r" by (auto simp: parses_def)
      show "parses b gline s (LIST d r) w"
        using consumed_trans [OF su consumed_trans [OF v(1) r(2)]] line_list [OF c(3) r(3), of k] d(1,3) r(1)
        unfolding parses_def by auto
    qed
    ultimately show "pwp (bindK (peek b '';'') (\<lambda>semi. if \<not> semi then returnK d else
        thenK (gettoken b) (bindK (parseline n b) (\<lambda>r. returnK (LIST d r))))) (parses b gline s) u"
      using semi(1) by (simp add: pw)
  qed
qed

lemma parsepipe_step:
  assumes b: "nonul b" "s \<le> length b"
    and exec: "pwp (parseexec n b) (parses b gexec s) s"
    and pipe: "\<And>t. s < t \<Longrightarrow> t \<le> length b \<Longrightarrow> pwp (parsepipe n b) (parses b gpipe t) t"
  shows "pwp (parsepipe (Suc n) b) (parses b gpipe s) s"
  unfolding parsepipe.simps
proof (rule pwp_bind [OF exec])
  fix c u
  assume "parses b gexec s c u"
  then obtain k1 where c: "wf_cmd b c" "consumed b s u k1" "gexec k1 c" by (auto simp: parses_def)
  then have u: "s \<le> u" "u \<le> length b" using consumed_le [OF c(2)] by auto
  note bar = sym_step [OF b(1) u(2), of "CHR ''|''"]
  have "parses b gpipe s c (ws b u)"
    using consumed_trans [OF c(2) consumed_ws [OF u(2)]] pipe_end [OF c(3)] c(1) unfolding parses_def by auto
  moreover have "pwp (parsepipe n b) (\<lambda>r. parses b gpipe s (PIPE c r)) (tnext b u)" if "tret b u = CHR ''|''"
  proof (rule pwp_mono [OF pipe])
    have v: "consumed b u (tnext b u) [Sym CHR ''|'']" "u < tnext b u" using bar(2) that by auto
    show "s < tnext b u" "tnext b u \<le> length b" using v u consumed_le [OF v(1)] by auto
    fix r w
    assume "parses b gpipe (tnext b u) r w"
    then obtain k2 where r: "wf_cmd b r" "consumed b (tnext b u) w k2" "gpipe k2 r" by (auto simp: parses_def)
    show "parses b gpipe s (PIPE c r) w"
      using consumed_trans [OF c(2) consumed_trans [OF v(1) r(2)]] pipe_more [OF c(3) r(3)] c(1) r(1)
      unfolding parses_def by auto
  qed
  ultimately show "pwp (bindK (peek b ''|'') (\<lambda>bar. if \<not> bar then returnK c else
      thenK (gettoken b) (bindK (parsepipe n b) (\<lambda>r. returnK (PIPE c r))))) (parses b gpipe s) u"
    using bar(1) by (simp add: pw)
qed

lemma parseblock_step:
  assumes b: "nonul b" "s \<le> length b" and n: "length b - s < n" and paren: "tret b s = CHR ''(''"
    and line: "\<And>t. s < t \<Longrightarrow> t \<le> length b \<Longrightarrow> pwp (parseline n b) (parses b gline t) t"
  shows "pwp (parseblock (Suc n) b) (parses b gexec s) s"
proof -
  let ?t = "tnext b s"
  have 1: "ahead b ''('' s" "consumed b s ?t [Sym CHR ''('']" "s < ?t" using sym_step [OF b, of "CHR ''(''"] paren by auto
  have "pwp (bindK (parseline n b) (\<lambda>c. bindK (peek b '')'') (\<lambda>close.
      if \<not> close then panicK ''syntax - missing )'' else thenK (gettoken b) (parseredirs n b c)))) (parses b gexec s) ?t"
  proof (rule pwp_bind [OF line])
    show "s < ?t" "?t \<le> length b" using 1(3) consumed_le [OF 1(2)] by auto
    fix c u
    assume "parses b gline ?t c u"
    then obtain k1 where c: "wf_cmd b c" "consumed b ?t u k1" "gline k1 c" by (auto simp: parses_def)
    have u: "u \<le> length b" using consumed_le [OF c(2)] by simp
    note close = sym_step [OF b(1) u, of "CHR '')''"]
    have "pwp (parseredirs n b c) (parses b gexec s) (tnext b u)" if "tret b u = CHR '')''"
    proof (rule pwp_mono [OF parseredirs_ok [OF b(1) _ _ c(1)]])
      have v: "consumed b u (tnext b u) [Sym CHR '')'']" using close(2) that by auto
      show "tnext b u \<le> length b" "length b - tnext b u < n"
        using consumed_le [OF v] consumed_le [OF c(2)] consumed_le [OF 1(2)] n by auto
      fix d w
      assume "wf_cmd b d \<and> nargs d = nargs c \<and> (\<exists>ks. consumed b (tnext b u) w ks \<and> gredirs c ks d)"
      then obtain k2 where d: "wf_cmd b d" "consumed b (tnext b u) w k2" "gredirs c k2 d" by blast
      show "parses b gexec s d w"
        using consumed_trans [OF 1(2) consumed_trans [OF c(2) consumed_trans [OF v d(2)]]] exec_block [OF c(3) d(3)] d(1)
        unfolding parses_def by auto
    qed
    then show "pwp (bindK (peek b '')'') (\<lambda>close. if \<not> close then panicK ''syntax - missing )'' else
        thenK (gettoken b) (parseredirs n b c))) (parses b gexec s) u"
      using close(1) by (simp add: pw messages_def)
  qed
  then show ?thesis using 1(1) by (simp add: pw)
qed

lemma parseexec_step:
  assumes b: "nonul b" "s \<le> length b" and n: "length b - s < n"
    and block: "\<And>t. s \<le> t \<Longrightarrow> t \<le> length b \<Longrightarrow> tret b t = CHR ''('' \<Longrightarrow> pwp (parseblock n b) (parses b gexec t) t"
  shows "pwp (parseexec (Suc n) b) (parses b gexec s) s"
proof -
  let ?t = "ws b s"
  have 1: "consumed b s ?t []" using b(2) by (rule consumed_ws)
  have t: "s \<le> ?t" "?t \<le> length b" "length b - ?t < n" using consumed_le [OF 1] n by auto
  have a: "ahead b ''('' s \<longleftrightarrow> tret b s = CHR ''(''" using sym_step(1) [OF b, of "CHR ''(''"] by simp
  have "pwp (parseblock n b) (parses b gexec s) ?t" if "tret b s = CHR ''(''"
    using that t(1,2) consumed_trans [OF 1]
    by (intro pwp_mono [OF block]) (auto simp: parses_def dest: consumed_trans [OF 1])
  moreover have "pwp (bindK (parseredirs n b (EXEC [])) (parseargs n b 0)) (parses b gexec s) ?t"
  proof (rule pwp_bind [OF parseredirs_ok [OF b(1) t(2,3)]])
    show "wf_cmd b (EXEC [])" by (simp add: MAXARGS_def)
    fix c u
    assume "wf_cmd b c \<and> nargs c = nargs (EXEC [] :: word_at cmd) \<and> (\<exists>ks. consumed b ?t u ks \<and> gredirs (EXEC []) ks c)"
    then obtain k1 where c: "wf_cmd b c" "nargs c \<le> 0" "consumed b ?t u k1" "gredirs (EXEC []) k1 c" by auto
    have u: "u \<le> length b" "length b - u < n" using consumed_le [OF c(3)] t by auto
    show "pwp (parseargs n b 0 c) (parses b gexec s) u"
    proof (rule pwp_mono [OF parseargs_ok [OF b(1) u c(1,2)]])
      fix d w
      assume "wf_cmd b d \<and> (\<exists>ks. consumed b u w ks \<and> gargs c ks d)"
      then show "parses b gexec s d w"
        using consumed_trans [OF 1 consumed_trans [OF c(3)]] exec_words [OF c(4)] unfolding parses_def by fastforce
    qed
  qed
  ultimately show ?thesis using a by (simp add: pw)
qed

text \<open>Four units of fuel for every character left: each way round the four functions consumes one.\<close>

lemma parser_ok:
  assumes "nonul b"
  shows "s \<le> length b \<Longrightarrow> 4 * (length b - s) + 4 \<le> n \<Longrightarrow> pwp (parseline n b) (parses b gline s) s"
    and "s \<le> length b \<Longrightarrow> 4 * (length b - s) + 3 \<le> n \<Longrightarrow> pwp (parsepipe n b) (parses b gpipe s) s"
    and "s \<le> length b \<Longrightarrow> 4 * (length b - s) + 2 \<le> n \<Longrightarrow> pwp (parseexec n b) (parses b gexec s) s"
    and "s \<le> length b \<Longrightarrow> 4 * (length b - s) + 1 \<le> n \<Longrightarrow> tret b s = CHR ''('' \<Longrightarrow> pwp (parseblock n b) (parses b gexec s) s"
proof (induction n arbitrary: s)
  case (Suc n)
  {
    case 1
    then show ?case by (intro parseline_step [OF assms] Suc.IH(1,2)) linarith+
  next
    case 2
    then show ?case by (intro parsepipe_step [OF assms] Suc.IH(2,3)) linarith+
  next
    case 3
    then show ?case by (intro parseexec_step [OF assms] Suc.IH(4)) linarith+
  next
    case 4
    have "tret b s \<noteq> CHR 0x00" using 4(3) by simp
    then have "s < length b" using tnext_gt [OF assms 4(1)] tnext_le [OF assms 4(1)] by linarith
    then show ?case using 4 by (intro parseblock_step [OF assms] Suc.IH(1)) linarith+
  }
qed simp_all

lemma lex_end: "nonul b \<Longrightarrow> lex b (length b) = []"
proof -
  assume "nonul b"
  then have "tret b (length b) = CHR 0x00"
    using le_refl [of "length b"] by (rule tok_cases) (use skip_ge [of "length b" "strchr whitespace" b] in auto)
  then show ?thesis by (simp add: lex.simps)
qed

lemma parsecmd_line:
  assumes "nonul b"
  shows "case parsecmd b of Inl e \<Rightarrow> e \<in> Panic ` messages
    | Inr (c, mem) \<Rightarrow> wf_cmd b c \<and> gline (lex b 0) c \<and> mem = nulterminate c (b @ [CHR 0x00])"
proof -
  let ?rest = "\<lambda>c. thenK (peek b []) (bindK (getK (\<lambda>s. s)) (\<lambda>s. if s \<noteq> length b then panicK ''syntax'' else returnK c))"
  have "pwp (bindK (parseline (4 * length b + 4) b) ?rest) (\<lambda>c s. wf_cmd b c \<and> gline (lex b 0) c) 0"
  proof (rule pwp_bind [OF parser_ok(1) [OF assms]])
    fix c t
    assume "parses b gline 0 c t"
    then obtain ks where c: "wf_cmd b c" "consumed b 0 t ks" "gline ks c" by (auto simp: parses_def)
    have "lex b 0 = ks" if "ws b t = length b"
      using consumed_trans [OF c(2) consumed_ws] consumed_le [OF c(2)] that lex_end [OF assms] by (simp add: consumed_def)
    then show "pwp (?rest c) (\<lambda>c s. wf_cmd b c \<and> gline (lex b 0) c) t"
      using c(1,3) by (simp add: pw messages_def)
  qed simp_all
  then show ?thesis unfolding parsecmd_def pwp_def by (auto split: sum.splits)
qed

text \<open>C16: The parser of the shell ends on every line: it returns a command, or it panics with one of the
  four messages for a line that is not a command. The fuel does not run out, and the panic of
  \<open>parseblock\<close> for a call without a parenthesis is never reached.\<close>

theorem parsecmd_total:
  assumes "nonul b"
  shows "(\<exists>c mem. parsecmd b = Inr (c, mem)) \<or> (\<exists>m. m \<in> messages \<and> parsecmd b = Inl (Panic m))"
  using parsecmd_line [OF assms] by (auto split: sum.splits)

theorem parsecmd_total_witness:
  "(\<exists>c mem. parsecmd ''(a;b|c'' = Inr (c, mem)) \<or> (\<exists>m. m \<in> messages \<and> parsecmd ''(a;b|c'' = Inl (Panic m))"
  by (rule parsecmd_total) (simp add: nonul_def)

text \<open>C17: A command the parser returns is well formed: no node has \<open>MAXARGS\<close> or more arguments, every word
  is a longest run of word characters of the line, and every redirection has one of the three modes
  of \<open><\<close>, \<open>>\<close> and \<open>>>\<close> with its file descriptor.\<close>

theorem parsecmd_type:
  assumes "nonul b" "parsecmd b = Inr (c, mem)"
  shows "wf_cmd b c"
  using parsecmd_line [OF assms(1)] assms(2) by simp

theorem parsecmd_type_witness:
  "parsecmd ''ls >f'' = Inr (REDIR (EXEC [(0, 2)]) (4, 5) (O_WRONLY OR O_CREATE OR O_TRUNC) 1,
      ''ls'' @ [CHR 0x00] @ ''>f'' @ [CHR 0x00]) \<and>
    wf_cmd ''ls >f'' (REDIR (EXEC [(0, 2)]) (4, 5) (O_WRONLY OR O_CREATE OR O_TRUNC) 1)"
proof -
  have "parsecmd ''ls >f'' = Inr (REDIR (EXEC [(0, 2)]) (4, 5) (O_WRONLY OR O_CREATE OR O_TRUNC) 1,
      ''ls'' @ [CHR 0x00] @ ''>f'' @ [CHR 0x00])" by code_simp
  moreover from parsecmd_type [OF _ this] have "wf_cmd ''ls >f'' (REDIR (EXEC [(0, 2)]) (4, 5) (O_WRONLY OR O_CREATE OR O_TRUNC) 1)"
    by (simp add: nonul_def)
  ultimately show ?thesis by blast
qed

text \<open>C4: The parser builds the tree that the grammar gives: the tokens of the whole line derive the
  returned command, with \<open>;\<close> weaker than \<open>&\<close> and \<open>&\<close> weaker than \<open>|\<close>, and redirections applied in
  their order.\<close>

theorem parsecmd_grammar:
  assumes "nonul b" "parsecmd b = Inr (c, mem)"
  shows "gline (lex b 0) c"
  using parsecmd_line [OF assms(1)] assms(2) by simp

theorem parsecmd_grammar_witness:
  "parsecmd ''a|b&;c'' = Inr (LIST (BACK (PIPE (EXEC [(0, 1)]) (EXEC [(2, 3)]))) (EXEC [(5, 6)]),
      ''a'' @ [CHR 0x00] @ ''b'' @ [CHR 0x00] @ '';c'' @ [CHR 0x00]) \<and>
    gline (lex ''a|b&;c'' 0) (LIST (BACK (PIPE (EXEC [(0, 1)]) (EXEC [(2, 3)]))) (EXEC [(5, 6)]))"
proof -
  have "parsecmd ''a|b&;c'' = Inr (LIST (BACK (PIPE (EXEC [(0, 1)]) (EXEC [(2, 3)]))) (EXEC [(5, 6)]),
      ''a'' @ [CHR 0x00] @ ''b'' @ [CHR 0x00] @ '';c'' @ [CHR 0x00])" by code_simp
  moreover from parsecmd_grammar [OF _ this]
  have "gline (lex ''a|b&;c'' 0) (LIST (BACK (PIPE (EXEC [(0, 1)]) (EXEC [(2, 3)]))) (EXEC [(5, 6)]))" by (simp add: nonul_def)
  ultimately show ?thesis by blast
qed

section \<open>The words after \<open>nulterminate\<close>\<close>

lemma wf_cmd_words: "wf_cmd b c \<Longrightarrow> w \<in> set_cmd c \<Longrightarrow> wf_word b w"
  by (induction c) auto

lemma foldl_clear:
  "length (foldl (\<lambda>m w. m[snd w := z]) mem args) = length mem"
  "i < length mem \<Longrightarrow> foldl (\<lambda>m w. m[snd w := z]) mem args ! i = (if i \<in> snd ` set args then z else mem ! i)"
  by (induction args arbitrary: mem) (auto simp: nth_list_update)

lemma length_nulterminate [simp]: "length (nulterminate c mem) = length mem"
  by (induction c arbitrary: mem) (auto simp: foldl_clear(1))

lemma nth_nulterminate:
  "i < length mem \<Longrightarrow> nulterminate c mem ! i = (if i \<in> snd ` set_cmd c then CHR 0x00 else mem ! i)"
proof (induction c arbitrary: mem)
  case (REDIR c f m fd)
  have "nulterminate c mem ! i = (if i \<in> snd ` set_cmd c then CHR 0x00 else mem ! i)" using REDIR by blast
  then show ?case using REDIR.prems by (cases "i = snd f") auto
qed (simp_all add: foldl_clear(2) image_Un)

lemma cstr_word:
  assumes "\<And>w. w \<in> W \<Longrightarrow> wf_word b w" "(q, e) \<in> W" "length mem = Suc (length b)"
    and mem: "\<And>i. i < length mem \<Longrightarrow> mem ! i = (if i \<in> snd ` W then CHR 0x00 else (b @ [CHR 0x00]) ! i)"
  shows "cstr mem q = take (e - q) (drop q b)"
proof -
  have w: "q < e" "e \<le> length b" "\<And>i. q \<le> i \<Longrightarrow> i < e \<Longrightarrow> wordchar (b ! i)" using assms(1) [OF assms(2)] by (auto simp: wf_word_def)
  have keep: "mem ! i = b ! i" if i: "q \<le> i" "i < e" for i
  proof -
    have "i \<notin> snd ` W" using assms(1) w(3) [OF i] w(2) i(2) by (fastforce simp: wf_word_def at_def)
    then show ?thesis using mem [of i] i w(2) assms(3) by (simp add: nth_append)
  qed
  have "cstr mem q = take (e - q) (drop q mem)" unfolding cstr_def
  proof (rule takeWhile_eq_take_P_nth)
    fix i
    assume "i < e - q"
    then have "mem ! (q + i) = b ! (q + i)" "wordchar (b ! (q + i))" using keep [of "q + i"] w(3) [of "q + i"] by auto
    moreover have "drop q mem ! i = mem ! (q + i)" using w(1,2) assms(3) by (intro nth_drop) simp
    ultimately show "drop q mem ! i \<noteq> CHR 0x00" using not_wordchar_null by metis
  next
    have "e \<in> snd ` W" using assms(2) by force
    then have "mem ! e = CHR 0x00" using mem [of e] assms(3) w(2) by simp
    then show "\<not> drop q mem ! (e - q) \<noteq> CHR 0x00" using w(1,2) assms(3) by simp
  qed
  also have "\<dots> = take (e - q) (drop q b)" using keep w(2) assms(3) by (intro nth_equalityI) auto
  finally show ?thesis .
qed

text \<open>C18: The strings that \<open>runcmd\<close> sees are the words of the line: although \<open>nulterminate\<close> writes its nulls
  into the line that all words share, each argument and file name reads back as exactly its word.\<close>

theorem nulterminate_words:
  assumes "nonul b" "parsecmd b = Inr (c, mem)"
  shows "resolve mem c = map_cmd (\<lambda>(q, e). take (e - q) (drop q b)) c"
proof -
  have c: "wf_cmd b c" "mem = nulterminate c (b @ [CHR 0x00])" using parsecmd_line [OF assms(1)] assms(2) by auto
  have "cstr mem q = take (e - q) (drop q b)" if "(q, e) \<in> set_cmd c" for q e
    using wf_cmd_words [OF c(1)] that by (rule cstr_word) (simp_all add: c(2) nth_nulterminate)
  then show ?thesis unfolding resolve_def by (intro cmd.map_cong0) auto
qed

theorem nulterminate_words_witness:
  "parsecmd ''cat<in|wc'' = Inr (PIPE (REDIR (EXEC [(0, 3)]) (4, 6) O_RDONLY 0) (EXEC [(7, 9)]),
      ''cat'' @ [CHR 0x00] @ ''in'' @ [CHR 0x00] @ ''wc'' @ [CHR 0x00]) \<and>
    resolve (''cat'' @ [CHR 0x00] @ ''in'' @ [CHR 0x00] @ ''wc'' @ [CHR 0x00])
      (PIPE (REDIR (EXEC [(0, 3)]) (4, 6) O_RDONLY 0) (EXEC [(7, 9)])) =
    PIPE (REDIR (EXEC [''cat'']) ''in'' O_RDONLY 0) (EXEC [''wc''])"
proof -
  have p: "parsecmd ''cat<in|wc'' = Inr (PIPE (REDIR (EXEC [(0, 3)]) (4, 6) O_RDONLY 0) (EXEC [(7, 9)]),
      ''cat'' @ [CHR 0x00] @ ''in'' @ [CHR 0x00] @ ''wc'' @ [CHR 0x00])" by code_simp
  show ?thesis using p nulterminate_words [OF _ p] by (simp add: nonul_def)
qed

end
