(* ===== verification/Sh_Run.thy ===== *)
theory Sh_Run
  imports Sh_Parse
begin

text \<open>
  Running a command (\<open>runcmd\<close> of \<open>user/sh.c\<close>). A process is the tree of system calls that it may
  make, with a branch for every outcome the code tests. What the calls do to the table of open files
  is the relation \<open>starts\<close>, after \<open>fdalloc\<close>, \<open>sys_dup\<close>, \<open>sys_pipe\<close>, \<open>sys_close\<close>, \<open>sys_open\<close> and \<open>fork\<close> of
  the kernel: a new descriptor is the lowest free one, and a child starts with a copy of the table.
  The lemmas show which programs a command starts and what their descriptors are.
\<close>

section \<open>System calls of a process\<close>

datatype act = Exit nat
  | ExecS "string list" act
  | Close nat act
  | OpenS string u32 act act
  | Dup nat act
  | PipeS act "nat \<Rightarrow> nat \<Rightarrow> act"
  | Fork act act act
  | Wait act
  | Say string act

definition panic_act :: "string \<Rightarrow> act" where
  "panic_act s = Say (s @ [CHR 0x0A]) (Exit 1)"

text \<open>The child, then the parent.\<close>

definition fork1 :: "act \<Rightarrow> act \<Rightarrow> act" where
  "fork1 child parent = Fork child parent (panic_act ''fork'')"

primrec runcmd :: "string cmd \<Rightarrow> act" where
  "runcmd (EXEC argv) = (if argv = [] then Exit 1
     else ExecS argv (Say (''exec '' @ hd argv @ '' failed'' @ [CHR 0x0A]) (Exit 0)))"
| "runcmd (REDIR c file mode fd) =
     Close fd (OpenS file mode (Say (''open '' @ file @ '' failed'' @ [CHR 0x0A]) (Exit 1)) (runcmd c))"
| "runcmd (LIST l r) = fork1 (runcmd l) (Wait (runcmd r))"
| "runcmd (PIPE l r) = PipeS (panic_act ''pipe'') (\<lambda>p0 p1.
     fork1 (Close 1 (Dup p1 (Close p0 (Close p1 (runcmd l)))))
       (fork1 (Close 0 (Dup p0 (Close p0 (Close p1 (runcmd r)))))
         (Close p0 (Close p1 (Wait (Wait (Exit 0)))))))"
| "runcmd (BACK c) = fork1 (runcmd c) (Exit 0)"

section \<open>Descriptors\<close>

datatype fobj = Console | File string u32 | PipeR nat | PipeW nat

type_synonym fdt = "fobj option list"

definition lowest :: "fdt \<Rightarrow> nat option" where
  "lowest f = find (\<lambda>i. f ! i = None) [0..<length f]"

text \<open>Some process of the tree calls \<open>exec\<close> with these arguments and descriptors, whatever calls succeed.\<close>

inductive starts :: "fdt \<Rightarrow> act \<Rightarrow> string list \<times> fdt \<Rightarrow> bool" where
  exec_now: "starts f (ExecS argv k) (argv, f)"
| exec_failed: "starts f k j \<Longrightarrow> starts f (ExecS argv k) j"
| close: "starts (f[n := None]) k j \<Longrightarrow> starts f (Close n k) j"
| open_ok: "lowest f = Some n \<Longrightarrow> starts (f[n := Some (File file m)]) k j \<Longrightarrow> starts f (OpenS file m e k) j"
| open_failed: "starts f e j \<Longrightarrow> starts f (OpenS file m e k) j"
| dup_ok: "lowest f = Some n \<Longrightarrow> i < length f \<Longrightarrow> f ! i = Some x \<Longrightarrow> starts (f[n := Some x]) k j \<Longrightarrow> starts f (Dup i k) j"
| dup_failed: "lowest f = None \<or> length f \<le> i \<or> f ! i = None \<Longrightarrow> starts f k j \<Longrightarrow> starts f (Dup i k) j"
| pipe_ok: "lowest f = Some r \<Longrightarrow> lowest (f[r := Some (PipeR p)]) = Some w \<Longrightarrow>
    starts (f[r := Some (PipeR p), w := Some (PipeW p)]) (k r w) j \<Longrightarrow> starts f (PipeS e k) j"
| pipe_failed: "starts f e j \<Longrightarrow> starts f (PipeS e k) j"
| fork_child: "starts f c j \<Longrightarrow> starts f (Fork c k e) j"
| fork_parent: "starts f k j \<Longrightarrow> starts f (Fork c k e) j"
| fork_failed: "starts f e j \<Longrightarrow> starts f (Fork c k e) j"
| wait: "starts f k j \<Longrightarrow> starts f (Wait k) j"
| say: "starts f k j \<Longrightarrow> starts f (Say s k) j"

inductive_simps starts_Exit [simp]: "starts f (Exit n) j"
inductive_simps starts_ExecS [simp]: "starts f (ExecS argv k) j"
inductive_simps starts_Close [simp]: "starts f (Close n k) j"
inductive_simps starts_OpenS [simp]: "starts f (OpenS file m e k) j"
inductive_simps starts_Dup [simp]: "starts f (Dup i k) j"
inductive_simps starts_PipeS [simp]: "starts f (PipeS e k) j"
inductive_simps starts_Fork [simp]: "starts f (Fork c k e) j"
inductive_simps starts_Wait [simp]: "starts f (Wait k) j"
inductive_simps starts_Say [simp]: "starts f (Say s k) j"

section \<open>What a command starts\<close>

text \<open>The programs of a command with their descriptors: a redirection replaces one descriptor, a pipe the
  output of its left and the input of its right side, and nothing else changes.\<close>

primrec jobs :: "string cmd \<Rightarrow> fdt \<Rightarrow> (string list \<times> fdt) set" where
  "jobs (EXEC argv) f = (if argv = [] then {} else {(argv, f)})"
| "jobs (REDIR c file m fd) f = jobs c (f[fd := Some (File file m)])"
| "jobs (LIST l r) f = jobs l f \<union> jobs r f"
| "jobs (PIPE l r) f = (\<Union>p. jobs l (f[1 := Some (PipeW p)]) \<union> jobs r (f[0 := Some (PipeR p)]))"
| "jobs (BACK c) f = jobs c f"

text \<open>Descriptors 0, 1 and 2 are open, the others free, and there are two for a pipe.\<close>

definition std :: "fdt \<Rightarrow> bool" where
  "std f \<longleftrightarrow> 5 \<le> length f \<and> (\<forall>i < length f. f ! i = None \<longleftrightarrow> 3 \<le> i)"

primrec std_redirs :: "'w cmd \<Rightarrow> bool" where
  "std_redirs (EXEC argv) = True"
| "std_redirs (REDIR c file m fd) = (std_redirs c \<and> fd < 2)"
| "std_redirs (LIST l r) = (std_redirs l \<and> std_redirs r)"
| "std_redirs (PIPE l r) = (std_redirs l \<and> std_redirs r)"
| "std_redirs (BACK c) = std_redirs c"

lemma lowest_eq: "n < length f \<Longrightarrow> f ! n = None \<Longrightarrow> (\<And>i. i < n \<Longrightarrow> f ! i \<noteq> None) \<Longrightarrow> lowest f = Some n"
  unfolding lowest_def find_Some_iff by (intro exI [of _ n]) auto

lemma std_nth: "std f \<Longrightarrow> i < length f \<Longrightarrow> f ! i = None \<longleftrightarrow> 3 \<le> i"
  by (auto simp: std_def not_less)

lemma std_set: "std f \<Longrightarrow> n < 3 \<Longrightarrow> std (f[n := Some x])"
  by (auto simp: std_def nth_list_update)

lemma std_close: "std f \<Longrightarrow> n < 3 \<Longrightarrow> lowest (f[n := None]) = Some n"
  by (rule lowest_eq) (auto simp: std_def nth_list_update)

lemma std_pipe:
  assumes "std f"
  shows "lowest f = Some 3" "lowest (f[3 := Some x]) = Some 4"
proof -
  have f: "5 \<le> length f" "f ! 3 = None" "f ! 4 = None" "\<And>i. i < 3 \<Longrightarrow> f ! i \<noteq> None"
    using assms std_nth [OF assms] by (simp_all add: std_def del: not_None_eq)
  show "lowest f = Some 3" using f by (intro lowest_eq) (simp_all del: not_None_eq)
  show "lowest (f[3 := Some x]) = Some 4"
  proof (rule lowest_eq)
    fix i :: nat
    assume "i < 4"
    then have "i = 3 \<or> i < 3" by linarith
    then show "f[3 := Some x] ! i \<noteq> None" using f(1) f(4) [of i] by (elim disjE) simp_all
  qed (use f in simp_all)
qed

text \<open>Closing 0 or 1, duplicating an end of the pipe onto it, and closing both ends.\<close>

lemma std_dup:
  fixes x y :: fobj
  assumes "std f" "n < 2" "e = 3 \<or> e = 4"
  defines "g \<equiv> f[3 := Some x, 4 := Some y]"
  shows "lowest (g[n := None]) = Some n" "e < length (g[n := None])" "g[n := None] ! e = Some (if e = 3 then x else y)"
    and "g[n := z, 3 := None, 4 := None] = f[n := z]"
proof -
  show "lowest (g[n := None]) = Some n" using assms(1,2) unfolding g_def
    by (intro lowest_eq) (auto simp: std_def nth_list_update)
  show "e < length (g[n := None])" "g[n := None] ! e = Some (if e = 3 then x else y)"
    using assms(1-3) by (auto simp: g_def std_def nth_list_update)
  show "g[n := z, 3 := None, 4 := None] = f[n := z]"
    using assms(1,2) by (intro nth_equalityI) (auto simp: g_def std_def nth_list_update)
qed

lemma starts_side:
  assumes "std f" "n < 2" "e = 3 \<or> e = 4"
  shows "starts (f[3 := Some x, 4 := Some y]) (Close n (Dup e (Close 3 (Close 4 k)))) j \<longleftrightarrow>
    starts (f[n := Some (if e = 3 then x else y)]) k j"
  using std_dup(1-3) [OF assms, of x y] std_dup(4) [OF assms(1,2), of 3 x y] by simp

lemma starts_runcmd: "std f \<Longrightarrow> std_redirs c \<Longrightarrow> starts f (runcmd c) j \<longleftrightarrow> j \<in> jobs c f"
proof (induction c arbitrary: f)
  case (REDIR c path m fd)
  have "std (f[fd := Some (File path m)])" using REDIR.prems by (intro std_set) auto
  then show ?case using REDIR std_close [of f fd] by simp
next
  case (PIPE l r)
  note s = starts_side [OF PIPE.prems(1)]
  have "starts (f[1 := Some (PipeW p)]) (runcmd l) j \<longleftrightarrow> j \<in> jobs l (f[1 := Some (PipeW p)])"
    "starts (f[0 := Some (PipeR p)]) (runcmd r) j \<longleftrightarrow> j \<in> jobs r (f[0 := Some (PipeR p)])" for p
    using PIPE by (auto intro!: PIPE.IH std_set)
  then show ?case using std_pipe [OF PIPE.prems(1)] s [of 1 4] s [of 0 3]
    by (simp add: fork1_def panic_act_def del: starts_Close starts_Dup) simp
qed (auto simp: fork1_def panic_act_def)

lemma std_redirs_map [simp]: "std_redirs (map_cmd h c) = std_redirs c"
  by (induction c) auto

lemma wf_std_redirs: "wf_cmd b c \<Longrightarrow> std_redirs c"
  by (induction c) auto


definition some_fds :: fdt where
  "some_fds = [Some Console, Some Console, Some Console, None, None, None]"


end
