(* ===== verification/Sh_Line.thy ===== *)
theory Sh_Line
  imports Sh_Run
begin

text \<open>
  Reading lines with editing and history, completion of file names, and the command loop of the
  shell (\<open>user/sh.c\<close>). The input is the list of the bytes that \<open>read(0, &c, 1)\<close> delivers, one after
  the other; \<open>buf\<close> is an array whose length is its size. \<open>history_count\<close> and \<open>history_index\<close> are
  natural numbers. A \<open>strcpy\<close> past the end of an array is \<open>Undef\<close>.
\<close>

section \<open>State\<close>

definition MAX_HISTORY :: nat where "MAX_HISTORY = 16"

definition MAX_LINE :: nat where "MAX_LINE = 128"

record hist =
  history :: "string list"
  history_count :: nat
  history_index :: nat

record rl = hist +
  buf :: string
  cmd_len :: nat
  out :: string

definition erase :: "nat \<Rightarrow> string" where
  "erase n = concat (replicate n [CHR 0x08, CHR '' '', CHR 0x08])"

text \<open>\<open>strcpy\<close> of a string to an offset of an array.\<close>

definition strcpy_at :: "string \<Rightarrow> nat \<Rightarrow> string \<Rightarrow> string option" where
  "strcpy_at a i s = (if i + length s < length a then Some (overwrite a i (s @ [CHR 0x00])) else None)"

section \<open>Completion\<close>

text \<open>\<open>strncmp(p, q, n) == 0\<close>; both arrays have at least \<open>n\<close> bytes.\<close>

fun strncmp_eq :: "nat \<Rightarrow> string \<Rightarrow> string \<Rightarrow> bool" where
  "strncmp_eq 0 p q = True"
| "strncmp_eq (Suc n) p q = (if at p 0 \<noteq> CHR 0x00 \<and> at p 0 = at q 0 then strncmp_eq n (tl p) (tl q) else at p 0 = at q 0)"

text \<open>\<open>dir\<close> holds the entries of the current directory: inode number and name of at most \<open>DIRSIZ\<close> characters.\<close>

definition handle_tab_completion :: "(nat \<times> string) list \<Rightarrow> (rl, unit) km" where
  "handle_tab_completion dir s = (let b = buf s; i = cmd_len s;
     j = i - length (takeWhile (\<lambda>c. c \<noteq> CHR '' '' \<and> c \<noteq> CHR ''/'') (rev (take i b)));
     len = min DIRSIZ (i - j);
     prefix = takeWhile (\<lambda>c. c \<noteq> CHR 0x00) (take len (drop j b));
     found = filter (\<lambda>(inum, name). inum \<noteq> 0 \<and> strncmp_eq len name prefix) dir in
     case found of
       [] \<Rightarrow> Inr ((), s)
     | [(inum, name)] \<Rightarrow> (case strcpy_at b j name of
         None \<Rightarrow> Inl (Undef ''strcpy'')
       | Some b \<Rightarrow> Inr ((), s\<lparr>buf := b, cmd_len := j + length name, out := out s @ erase (i - j) @ name\<rparr>))
     | _ \<Rightarrow> Inr ((), s\<lparr>out := out s @ [CHR 0x0A] @ ''[ambiguous]'' @ [CHR 0x0A] @ take i b\<rparr>))"

section \<open>\<open>readline\<close>\<close>

definition save_line :: "(rl, unit) km" where
  "save_line s = (let b = (buf s)[cmd_len s := CHR 0x00]; line = cstr b 0; n = history_count s;
     s = s\<lparr>buf := b, out := out s @ [CHR 0x0A]\<rparr> in
     if 0 < cmd_len s \<and> (n = 0 \<or> line \<noteq> history s ! ((n - 1) mod MAX_HISTORY)) then
       (if length line < MAX_LINE then
          Inr ((), s\<lparr>history := (history s)[n mod MAX_HISTORY := line], history_count := n + 1, history_index := n + 1\<rparr>)
        else Inl (Undef ''strcpy''))
     else Inr ((), s\<lparr>history_index := n\<rparr>))"

text \<open>Replacing the line by the history entry at \<open>history_index\<close>.\<close>

definition load_entry :: "nat \<Rightarrow> (rl, unit) km" where
  "load_entry k s = (let h = history s ! (k mod MAX_HISTORY) in
     case strcpy_at (buf s) 0 h of
       None \<Rightarrow> Inl (Undef ''strcpy'')
     | Some b \<Rightarrow> Inr ((), s\<lparr>history_index := k, buf := b, cmd_len := length h, out := out s @ erase (cmd_len s) @ h\<rparr>))"

definition arrow :: "char \<Rightarrow> (rl, unit) km" where
  "arrow c s = (let k = history_index s in
     if c = CHR ''A'' then (if 0 < k then load_entry (k - 1) s else Inr ((), s))
     else if c = CHR ''B'' then
       (if k < history_count s then
          (if k + 1 < history_count s then load_entry (k + 1) s
           else Inr ((), s\<lparr>history_index := k + 1, buf := (buf s)[0 := CHR 0x00], cmd_len := 0, out := out s @ erase (cmd_len s)\<rparr>))
        else Inr ((), s))
     else Inr ((), s))"

definition edit_key :: "(nat \<times> string) list \<Rightarrow> char \<Rightarrow> (rl, unit) km" where
  "edit_key dir c s =
     (if c = CHR 0x7F \<or> c = CHR 0x08 then
        Inr ((), if 0 < cmd_len s then s\<lparr>cmd_len := cmd_len s - 1, out := out s @ erase 1\<rparr> else s)
      else if c = CHR 0x09 then handle_tab_completion dir s
      else if cmd_len s < length (buf s) - 1 then
        Inr ((), s\<lparr>buf := (buf s)[cmd_len s := c], cmd_len := cmd_len s + 1, out := out s @ [c]\<rparr>)
      else Inr ((), s))"

text \<open>The result is the rest of the input. Two bytes follow an escape; when one of them cannot be read,
  the next read of the loop cannot either.\<close>

function readline_loop :: "(nat \<times> string) list \<Rightarrow> string \<Rightarrow> (rl, string) km" where
  "readline_loop dir [] = returnK []"
| "readline_loop dir (c # inp) =
     (if c = CHR 0x0A then thenK save_line (returnK inp)
      else if c = CHR 0x1B then
        (if length inp < 2 then returnK []
         else if inp ! 0 = CHR ''['' then thenK (arrow (inp ! 1)) (readline_loop dir (drop 2 inp))
         else readline_loop dir (drop 2 inp))
      else thenK (edit_key dir c) (readline_loop dir inp))"
  by pat_completeness auto
termination
  by (relation "measure (\<lambda>(dir, inp). length inp)") auto

definition readline :: "(nat \<times> string) list \<Rightarrow> string \<Rightarrow> (rl, string) km" where
  "readline dir inp = (thenK (modifyK (\<lambda>s. s\<lparr>cmd_len := 0, buf := (buf s)[0 := CHR 0x00]\<rparr>)) (
    bindK (readline_loop dir inp) (\<lambda>rest.
    thenK (modifyK (\<lambda>s. s\<lparr>buf := (buf s)[cmd_len s := CHR 0x00]\<rparr>)) (
    returnK rest))))"

section \<open>The command loop\<close>

text \<open>\<open>getcmd\<close> gives the line, and \<open>None\<close> where the code returns -1. The prompt goes to descriptor 2.\<close>

definition getcmd :: "(nat \<times> string) list \<Rightarrow> string \<Rightarrow> (rl, string \<times> string option) km" where
  "getcmd dir inp = (thenK (modifyK (\<lambda>s. s\<lparr>buf := replicate (length (buf s)) (CHR 0x00)\<rparr>)) (
    bindK (readline dir inp) (\<lambda>rest.
    bindK (getK (\<lambda>s. cstr (buf s) 0)) (\<lambda>line.
    returnK (rest, if line = [] then None else Some line)))))"

datatype shell_act = Chdir string | Child act

text \<open>A line: \<open>cd\<close> in the shell itself, everything else in a child.\<close>

definition shell_line :: "string \<Rightarrow> shell_act" where
  "shell_line line = (if take 3 line = ''cd '' then Chdir (drop 3 (butlast line))
     else Child (case parsecmd line of
       Inl (Panic m) \<Rightarrow> panic_act m
     | Inl _ \<Rightarrow> Exit 1
     | Inr (c, mem) \<Rightarrow> runcmd (resolve mem c)))"

text \<open>\<open>dir\<close> gives the entries of the current directory after what the shell has done so far.\<close>

lemma readline_rest: "readline_loop dir inp s = Inr (rest, t) \<Longrightarrow> length rest \<le> length inp - 1"
proof (induction dir inp arbitrary: s rule: readline_loop.induct)
  case (2 dir c inp)
  consider "c = CHR 0x0A" | "c = CHR 0x1B" "length inp < 2" | "c = CHR 0x1B" "\<not> length inp < 2" "inp ! 0 = CHR ''[''"
    | "c = CHR 0x1B" "\<not> length inp < 2" "inp ! 0 \<noteq> CHR ''[''" | "c \<noteq> CHR 0x0A" "c \<noteq> CHR 0x1B" by blast
  then show ?case
  proof cases
    case 3
    then obtain u where "readline_loop dir (drop 2 inp) u = Inr (rest, t)" using 2(4) by (auto simp: kdefs split: sum.splits)
    then show ?thesis using 2(1) [of u] 3 by simp
  next
    case 4
    then show ?thesis using 2(2) [of s] 2(4) by simp
  next
    case 5
    then obtain u where "readline_loop dir inp u = Inr (rest, t)" using 2(4) by (auto simp: kdefs split: sum.splits)
    then show ?thesis using 2(3) [of u] 5 by simp
  qed (use 2(4) in \<open>auto simp: kdefs split: sum.splits\<close>)
qed (simp add: kdefs)

lemma cstr_zeros: "cstr ((replicate n (CHR 0x00))[0 := CHR 0x00]) 0 = []"
  by (cases n) (simp_all add: cstr_def)

lemma getcmd_rest:
  assumes "getcmd dir inp s = Inr ((rest, Some line), t)"
  shows "length rest < length inp"
proof (cases inp)
  case Nil
  then show ?thesis using assms by (simp add: getcmd_def readline_def kdefs cstr_zeros)
next
  case (Cons c cs)
  from assms obtain u v where "readline_loop dir inp u = Inr (rest, v)"
    by (auto simp: getcmd_def readline_def kdefs split: sum.splits)
  then show ?thesis using readline_rest [of dir inp u rest v] Cons by simp
qed

function shell_loop :: "(shell_act list \<Rightarrow> (nat \<times> string) list) \<Rightarrow> shell_act list \<Rightarrow> string \<Rightarrow> rl \<Rightarrow> kerr + shell_act list" where
  "shell_loop dir acts inp s = (case getcmd (dir acts) inp s of
     Inl e \<Rightarrow> Inl e
   | Inr ((rest, None), s) \<Rightarrow> Inr acts
   | Inr ((rest, Some line), s) \<Rightarrow> shell_loop dir (acts @ [shell_line line]) rest s)"
  by pat_completeness auto
termination
  by (relation "measure (\<lambda>(dir, acts, inp, s). length inp)") (auto dest: getcmd_rest)

declare shell_loop.simps [simp del]

definition start_rl :: rl where
  "start_rl = \<lparr>history = replicate MAX_HISTORY [], history_count = 0, history_index = 0, buf = replicate 100 (CHR 0x00), cmd_len = 0, out = []\<rparr>"

definition shell :: "(shell_act list \<Rightarrow> (nat \<times> string) list) \<Rightarrow> string \<Rightarrow> kerr + shell_act list" where
  "shell dir inp = shell_loop dir [] inp start_rl"

section \<open>The line editor\<close>

text \<open>What \<open>readline\<close> promises, over the list of all lines entered so far: the entry that browsing shows
  at a position is the newest one in the same place of the ring of \<open>MAX_HISTORY\<close> entries.\<close>

definition recall :: "string list \<Rightarrow> nat \<Rightarrow> string" where
  "recall hs k = hs ! (k + MAX_HISTORY * ((length hs - 1 - k) div MAX_HISTORY))"

definition remember :: "string list \<Rightarrow> string \<Rightarrow> string list" where
  "remember hs line = (if line \<noteq> [] \<and> (hs = [] \<or> last hs \<noteq> line) then hs @ [line] else hs)"

definition browse :: "string list \<Rightarrow> nat \<Rightarrow> string \<Rightarrow> char \<Rightarrow> nat \<times> string" where
  "browse hs k line c = (if c = CHR ''A'' \<and> 0 < k then (k - 1, recall hs (k - 1))
     else if c = CHR ''B'' \<and> k < length hs then (k + 1, if k + 1 < length hs then recall hs (k + 1) else [])
     else (k, line))"

function edit :: "nat \<Rightarrow> string list \<Rightarrow> nat \<Rightarrow> string \<Rightarrow> string \<Rightarrow> string \<times> string list \<times> nat \<times> string" where
  "edit m hs k line [] = (line, hs, k, [])"
| "edit m hs k line (c # inp) =
     (if c = CHR 0x0A then (line, remember hs line, length (remember hs line), inp)
      else if c = CHR 0x1B then
        (if length inp < 2 then (line, hs, k, [])
         else if inp ! 0 = CHR ''['' then edit m hs (fst (browse hs k line (inp ! 1))) (snd (browse hs k line (inp ! 1))) (drop 2 inp)
         else edit m hs k line (drop 2 inp))
      else if c = CHR 0x7F \<or> c = CHR 0x08 then edit m hs k (butlast line) inp
      else if length line < m - 1 then edit m hs k (line @ [c]) inp
      else edit m hs k line inp)"
  by pat_completeness auto
termination
  by (relation "measure (\<lambda>(m, hs, k, line, inp). length inp)") auto

lemma recall_index: "k < length hs \<Longrightarrow> k + MAX_HISTORY * ((length hs - 1 - k) div MAX_HISTORY) < length hs"
  using times_div_less_eq_dividend [of MAX_HISTORY "length hs - 1 - k"] by linarith

lemma recall_in: "k < length hs \<Longrightarrow> recall hs k \<in> set hs"
  unfolding recall_def by (intro nth_mem recall_index)

lemma recall_recent: "k < length hs \<Longrightarrow> length hs \<le> k + MAX_HISTORY \<Longrightarrow> recall hs k = hs ! k"
  by (simp add: recall_def MAX_HISTORY_def)

lemma recall_append:
  assumes "k < Suc (length hs)"
  shows "recall (hs @ [line]) k = (if k mod MAX_HISTORY = length hs mod MAX_HISTORY then line else recall hs k)"
proof (cases "k mod MAX_HISTORY = length hs mod MAX_HISTORY")
  case True
  then have "MAX_HISTORY dvd length hs - k" using mod_eq_dvd_iff_nat [of k "length hs" MAX_HISTORY] assms by simp
  then have "k + MAX_HISTORY * ((length hs - k) div MAX_HISTORY) = length hs" using assms by simp
  then show ?thesis using True by (simp add: recall_def)
next
  case False
  then have k: "k < length hs" using assms by (cases "k = length hs") auto
  have "\<not> MAX_HISTORY dvd length hs - k" using mod_eq_dvd_iff_nat [of k "length hs" MAX_HISTORY] False k by simp
  then have "(length hs - k) div MAX_HISTORY = (length hs - 1 - k) div MAX_HISTORY"
    using div_Suc [of "length hs - 1 - k" MAX_HISTORY] Suc_diff_Suc [OF k] by (simp add: dvd_eq_mod_eq_0)
  then show ?thesis using False recall_index [OF k] by (simp add: recall_def nth_append)
qed

text \<open>The ring holds the entries that \<open>recall\<close> names, and all of them fit the buffer.\<close>

definition hist_rel :: "nat \<Rightarrow> string list \<Rightarrow> nat \<Rightarrow> rl \<Rightarrow> bool" where
  "hist_rel m hs k s \<longleftrightarrow> length (history s) = MAX_HISTORY \<and> history_count s = length hs \<and> history_index s = k \<and> k \<le> length hs \<and>
     (\<forall>i < length hs. history s ! (i mod MAX_HISTORY) = recall hs i) \<and> (\<forall>h \<in> set hs. length h < m \<and> nonul h)"

definition line_rel :: "nat \<Rightarrow> string \<Rightarrow> rl \<Rightarrow> bool" where
  "line_rel m line s \<longleftrightarrow> length (buf s) = m \<and> m \<le> MAX_LINE \<and> cmd_len s = length line \<and> length line < m \<and>
     take (length line) (buf s) = line \<and> nonul line"

lemma cstr_line: "line_rel m line s \<Longrightarrow> cstr ((buf s)[cmd_len s := CHR 0x00]) 0 = line"
proof -
  assume l: "line_rel m line s"
  then have "(buf s)[cmd_len s := CHR 0x00] = take (length line) (buf s) @ CHR 0x00 # drop (Suc (length line)) (buf s)"
    by (simp add: line_rel_def upd_conv_take_nth_drop)
  also have "\<dots> = line @ CHR 0x00 # drop (Suc (length line)) (buf s)" using l by (simp add: line_rel_def)
  finally show ?thesis using l by (simp add: cstr_def line_rel_def nonul_def takeWhile_append)
qed

lemma recall_last: "hs \<noteq> [] \<Longrightarrow> recall hs (length hs - 1) = last hs"
  by (simp add: recall_recent MAX_HISTORY_def last_conv_nth)

lemma history_update:
  assumes h: "hist_rel m hs k s" and i: "i < Suc (length hs)"
  shows "(history s)[length hs mod MAX_HISTORY := line] ! (i mod MAX_HISTORY) = recall (hs @ [line]) i"
proof (cases "i mod MAX_HISTORY = length hs mod MAX_HISTORY")
  case True
  have "length hs mod MAX_HISTORY < length (history s)" using h by (simp add: hist_rel_def MAX_HISTORY_def)
  then show ?thesis using True recall_append [OF i] by simp
next
  case False
  then have "i < length hs" using i by (cases "i = length hs") auto
  then have "history s ! (i mod MAX_HISTORY) = recall hs i" using h by (simp add: hist_rel_def)
  then show ?thesis using False recall_append [OF i] by simp
qed

lemma save_line_ok:
  assumes h: "hist_rel m hs k s" and l: "line_rel m line s"
  shows "\<exists>t. save_line s = Inr ((), t) \<and> hist_rel m (remember hs line) (length (remember hs line)) t \<and> line_rel m line t"
proof -
  let ?n = "length hs" and ?s = "s\<lparr>buf := (buf s)[cmd_len s := CHR 0x00], out := out s @ [CHR 0x0A]\<rparr>"
  have n: "history_count s = ?n" "cmd_len s = length line" "length line < MAX_LINE" using h l by (auto simp: hist_rel_def line_rel_def)
  have "line \<noteq> history s ! ((?n - 1) mod MAX_HISTORY) \<longleftrightarrow> last hs \<noteq> line" if "hs \<noteq> []"
    using that h recall_last [OF that] by (auto simp: hist_rel_def)
  then have new: "0 < length line \<and> (?n = 0 \<or> line \<noteq> history s ! ((?n - 1) mod MAX_HISTORY)) \<longleftrightarrow> line \<noteq> [] \<and> (hs = [] \<or> last hs \<noteq> line)"
    by blast
  show ?thesis
  proof (cases "line \<noteq> [] \<and> (hs = [] \<or> last hs \<noteq> line)")
    case True
    let ?t = "?s\<lparr>history := (history s)[?n mod MAX_HISTORY := line], history_count := ?n + 1, history_index := ?n + 1\<rparr>"
    have "save_line s = Inr ((), ?t)" unfolding save_line_def Let_def cstr_line [OF l] n(1)
      using True new n by simp
    moreover have "hist_rel m (hs @ [line]) (?n + 1) ?t" using h l history_update [OF h, of _ line]
      by (simp add: hist_rel_def [of _ _ _ ?t]) (simp add: hist_rel_def line_rel_def)
    moreover have "line_rel m line ?t" using l by (simp add: line_rel_def)
    ultimately show ?thesis using True by (simp add: remember_def)
  next
    case False
    have "save_line s = Inr ((), ?s\<lparr>history_index := ?n\<rparr>)" unfolding save_line_def Let_def cstr_line [OF l] n(1)
      using False new n by auto
    moreover have "hist_rel m hs ?n (?s\<lparr>history_index := ?n\<rparr>)" using h by (simp add: hist_rel_def)
    moreover have "line_rel m line (?s\<lparr>history_index := ?n\<rparr>)" using l by (simp add: line_rel_def)
    moreover have "remember hs line = hs" using False by (auto simp: remember_def)
    ultimately show ?thesis by simp
  qed
qed

lemma load_entry_ok:
  assumes h: "hist_rel m hs k s" and l: "line_rel m line s" and i: "i < length hs"
  shows "\<exists>t. load_entry i s = Inr ((), t) \<and> hist_rel m hs i t \<and> line_rel m (recall hs i) t"
proof -
  have r: "history s ! (i mod MAX_HISTORY) = recall hs i" "length (recall hs i) < m" "nonul (recall hs i)"
    using h i recall_in [OF i] by (auto simp: hist_rel_def)
  then show ?thesis using h l i
    by (simp add: load_entry_def Let_def strcpy_at_def hist_rel_def line_rel_def overwrite_def)
qed

lemma arrow_ok:
  assumes h: "hist_rel m hs k s" and l: "line_rel m line s"
  shows "\<exists>t. arrow c s = Inr ((), t) \<and> hist_rel m hs (fst (browse hs k line c)) t \<and> line_rel m (snd (browse hs k line c)) t"
proof -
  have k: "history_index s = k" "history_count s = length hs" "k \<le> length hs" using h by (auto simp: hist_rel_def)
  consider (up) "c = CHR ''A''" "0 < k" | (down) "c = CHR ''B''" "k + 1 < length hs" | (new) "c = CHR ''B''" "k + 1 = length hs"
    | (stay) "c = CHR ''A'' \<longrightarrow> k = 0" "c = CHR ''B'' \<longrightarrow> k = length hs" using k(3) by linarith
  then show ?thesis
  proof cases
    case up
    then show ?thesis using k load_entry_ok [OF h l, of "k - 1"] by (simp add: arrow_def browse_def)
  next
    case down
    then show ?thesis using k load_entry_ok [OF h l, of "k + 1"] by (simp add: arrow_def browse_def)
  next
    case new
    have "browse hs k line c = (k + 1, [])" using new by (simp add: browse_def)
    then show ?thesis using new k h l by (simp add: arrow_def hist_rel_def line_rel_def nonul_def)
  next
    case stay
    have "browse hs k line c = (k, line)" using stay by (auto simp: browse_def)
    moreover have "arrow c s = Inr ((), s)" using stay k by (auto simp: arrow_def Let_def)
    ultimately show ?thesis using h l by simp
  qed
qed

definition plain_input :: "string \<Rightarrow> bool" where
  "plain_input inp \<longleftrightarrow> CHR 0x09 \<notin> set inp \<and> CHR 0x00 \<notin> set inp"

lemma edit_key_ok:
  assumes h: "hist_rel m hs k s" and l: "line_rel m line s" and c: "c \<noteq> CHR 0x09" "c \<noteq> CHR 0x00"
  shows "\<exists>t. edit_key dir c s = Inr ((), t) \<and> hist_rel m hs k t \<and>
    line_rel m (if c = CHR 0x7F \<or> c = CHR 0x08 then butlast line else if length line < m - 1 then line @ [c] else line) t"
proof (cases "c = CHR 0x7F \<or> c = CHR 0x08")
  case True
  have "nonul (butlast line)" using l by (auto simp: line_rel_def nonul_def dest: in_set_butlastD)
  moreover have "take (length line - 1) (buf s) = butlast line"
  proof -
    have "butlast line = take (length line - 1) (take (length line) (buf s))"
      using l by (simp add: line_rel_def butlast_conv_take)
    then show ?thesis by (simp add: take_take)
  qed
  ultimately have "line_rel m (butlast line) (s\<lparr>cmd_len := cmd_len s - 1, out := out s @ erase 1\<rparr>)"
    using l by (auto simp: line_rel_def)
  moreover have "hist_rel m hs k (s\<lparr>cmd_len := cmd_len s - 1, out := out s @ erase 1\<rparr>)" using h by (simp add: hist_rel_def)
  moreover have "line_rel m (butlast line) s" if "cmd_len s = 0" using l that by (auto simp: line_rel_def nonul_def)
  ultimately show ?thesis using True h by (cases "0 < cmd_len s") (simp_all add: edit_key_def)
next
  case False
  have "take (Suc (length line)) ((buf s)[length line := c]) = line @ [c]" using l
    by (simp add: line_rel_def take_Suc_conv_app_nth)
  then have "line_rel m (line @ [c]) (s\<lparr>buf := (buf s)[cmd_len s := c], cmd_len := cmd_len s + 1, out := out s @ [c]\<rparr>)"
    if "length line < m - 1" using l c that by (simp add: line_rel_def nonul_def)
  moreover have "hist_rel m hs k (s\<lparr>buf := (buf s)[cmd_len s := c], cmd_len := cmd_len s + 1, out := out s @ [c]\<rparr>)"
    using h by (simp add: hist_rel_def)
  moreover have "length (buf s) = m" "cmd_len s = length line" using l by (simp_all add: line_rel_def)
  ultimately show ?thesis using False h l c by (simp add: edit_key_def)
qed

lemma readline_loop_ok:
  assumes "hist_rel m hs k s" "line_rel m line s" "plain_input inp" "edit m hs k line inp = (line', hs', k', rest)"
  shows "\<exists>t. readline_loop dir inp s = Inr (rest, t) \<and> hist_rel m hs' k' t \<and> line_rel m line' t"
  using assms
proof (induction m hs k line inp arbitrary: s rule: edit.induct)
  case (1 m hs k line)
  then show ?case by (simp add: kdefs)
next
  case (2 m hs k line c inp)
  note h = 2(6) and l = 2(7) and p = 2(8) and e = 2(9)
  have q: "plain_input inp" "plain_input (drop 2 inp)" "c \<noteq> CHR 0x09" "c \<noteq> CHR 0x00"
    using p by (auto simp: plain_input_def dest: in_set_dropD)
  consider (nl) "c = CHR 0x0A" | (cut) "c = CHR 0x1B" "length inp < 2" | (arr) "c = CHR 0x1B" "\<not> length inp < 2" "inp ! 0 = CHR ''[''"
    | (esc) "c = CHR 0x1B" "\<not> length inp < 2" "inp ! 0 \<noteq> CHR ''[''" | (key) "c \<noteq> CHR 0x0A" "c \<noteq> CHR 0x1B" by blast
  then show ?case
  proof cases
    case nl
    then show ?thesis using e save_line_ok [OF h l] by (auto simp: kdefs)
  next
    case cut
    then show ?thesis using e h l by (simp add: kdefs)
  next
    case arr
    obtain t where t: "arrow (inp ! 1) s = Inr ((), t)" "hist_rel m hs (fst (browse hs k line (inp ! 1))) t"
      "line_rel m (snd (browse hs k line (inp ! 1))) t" using arrow_ok [OF h l, of "inp ! 1"] by blast
    show ?thesis using 2(1) [OF _ _ _ _ t(2,3) q(2)] arr e t(1) by (auto simp: kdefs)
  next
    case esc
    then show ?thesis using 2(2) [OF _ _ _ _ h l q(2)] e by simp
  next
    case key
    obtain t where t: "edit_key dir c s = Inr ((), t)" "hist_rel m hs k t"
      "line_rel m (if c = CHR 0x7F \<or> c = CHR 0x08 then butlast line else if length line < m - 1 then line @ [c] else line) t"
      using edit_key_ok [OF h l q(3,4)] by blast
    show ?thesis
      using 2(3) [OF key _ t(2) _ q(1)] 2(4) [OF key _ _ t(2) _ q(1)] 2(5) [OF key _ _ t(2) _ q(1)] t(1,3) key e
      by (auto simp: kdefs split: if_splits)
  qed
qed

lemma readline_ok:
  assumes "hist_rel m hs k s" "length (buf s) = m" "0 < m" "m \<le> MAX_LINE" "plain_input inp"
    and "edit m hs k [] inp = (line, hs', k', rest)"
  shows "\<exists>t. readline dir inp s = Inr (rest, t) \<and> cstr (buf t) 0 = line \<and> hist_rel m hs' k' t \<and> length (buf t) = m"
proof -
  let ?s = "s\<lparr>cmd_len := 0, buf := (buf s)[0 := CHR 0x00]\<rparr>"
  have "hist_rel m hs k ?s" "line_rel m [] ?s" using assms(1-4) by (simp_all add: hist_rel_def line_rel_def nonul_def)
  from readline_loop_ok [OF this assms(5,6)]
  obtain t where t: "readline_loop dir inp ?s = Inr (rest, t)" "hist_rel m hs' k' t" "line_rel m line t" by blast
  then have "hist_rel m hs' k' (t\<lparr>buf := (buf t)[cmd_len t := CHR 0x00]\<rparr>)" by (simp add: hist_rel_def)
  moreover have "length (buf t) = m" using t(3) by (simp add: line_rel_def)
  ultimately show ?thesis using t(1) cstr_line [OF t(3)] by (simp add: readline_def kdefs)
qed


lemma hist_rel_start: "hist_rel 100 [] 0 start_rl"
  by (simp add: hist_rel_def start_rl_def)


section \<open>Lines of a session\<close>

definition printable :: "string \<Rightarrow> bool" where
  "printable l \<longleftrightarrow> (\<forall>c \<in> set l. c \<notin> {CHR 0x00, CHR 0x08, CHR 0x09, CHR 0x0A, CHR 0x1B, CHR 0x7F})"

lemma edit_printable:
  "printable d \<Longrightarrow> length line + length d < m \<Longrightarrow> edit m hs k line (d @ inp) = edit m hs k (line @ d) inp"
proof (induction d arbitrary: line)
  case (Cons c d)
  have d: "printable d" and c: "c \<noteq> CHR 0x0A" "c \<noteq> CHR 0x1B" "c \<noteq> CHR 0x7F" "c \<noteq> CHR 0x08"
    using Cons.prems(1) by (simp_all add: printable_def)
  have "length line < m - 1" using Cons.prems(2) by simp
  then have "edit m hs k line (c # d @ inp) = edit m hs k (line @ [c]) (d @ inp)" using c by simp
  also have "\<dots> = edit m hs k ((line @ [c]) @ d) inp" using Cons.prems(2) by (intro Cons.IH [OF d]) simp
  finally show ?case by simp
qed simp

lemma getcmd_line:
  assumes "hist_rel 100 hs k s" "length (buf s) = 100" "printable l" "length l < 100" "plain_input (l @ CHR 0x0A # inp)"
  shows "\<exists>t hs' k'. getcmd dir (l @ CHR 0x0A # inp) s = Inr ((inp, if l = [] then None else Some l), t) \<and>
    hist_rel 100 hs' k' t \<and> length (buf t) = 100"
proof -
  let ?s = "s\<lparr>buf := replicate (length (buf s)) (CHR 0x00)\<rparr>"
  have e: "edit 100 hs k [] (l @ CHR 0x0A # inp) = (l, remember hs l, length (remember hs l), inp)"
    using edit_printable [OF assms(3), of "[]" 100 hs k "CHR 0x0A # inp"] assms(4) by simp
  have "hist_rel 100 hs k ?s" using assms(1) by (simp add: hist_rel_def)
  moreover have "length (buf ?s) = 100" "0 < (100 :: nat)" "100 \<le> MAX_LINE" using assms(2) by (simp_all add: MAX_LINE_def)
  ultimately obtain t where "readline dir (l @ CHR 0x0A # inp) ?s = Inr (inp, t)" "cstr (buf t) 0 = l"
    "hist_rel 100 (remember hs l) (length (remember hs l)) t" "length (buf t) = 100"
    using readline_ok [OF _ _ _ _ assms(5) e] by blast
  then show ?thesis by (auto simp: getcmd_def kdefs)
qed

lemma shell_loop_lines:
  assumes "hist_rel 100 hs k s" "length (buf s) = 100" "plain_input rest"
    and "\<And>l. l \<in> set ls \<Longrightarrow> printable l \<and> l \<noteq> [] \<and> length l < 100"
  shows "shell_loop dir acts (concat (map (\<lambda>l. l @ [CHR 0x0A]) ls) @ CHR 0x0A # rest) s = Inr (acts @ map shell_line ls)"
  using assms
proof (induction ls arbitrary: acts s hs k)
  case Nil
  have "plain_input ([] @ CHR 0x0A # rest)" using assms(3) by (simp add: plain_input_def)
  from getcmd_line [OF Nil(1,2) _ _ this, of "dir acts"]
  obtain t where "getcmd (dir acts) (CHR 0x0A # rest) s = Inr ((rest, None), t)" by (auto simp: printable_def)
  then show ?case by (simp add: shell_loop.simps [of dir acts])
next
  case (Cons l ls)
  let ?inp = "concat (map (\<lambda>l. l @ [CHR 0x0A]) ls) @ CHR 0x0A # rest"
  have l: "printable l" "l \<noteq> []" "length l < 100" using Cons.prems(4) by auto
  have "plain_input (x @ [CHR 0x0A])" if "x \<in> set (l # ls)" for x
    using Cons.prems(4) [OF that] by (auto simp: plain_input_def printable_def)
  then have "plain_input (l @ CHR 0x0A # ?inp)" using Cons.prems(3) by (auto simp: plain_input_def)
  then obtain t hs' k' where t: "getcmd (dir acts) (l @ CHR 0x0A # ?inp) s = Inr ((?inp, Some l), t)"
    "hist_rel 100 hs' k' t" "length (buf t) = 100" using getcmd_line [OF Cons.prems(1,2) l(1,3), of ?inp "dir acts"] l(2) by auto
  from Cons.IH [OF t(2,3) assms(3), of "acts @ [shell_line l]"] Cons.prems(4) t(1)
  show ?case by (simp add: shell_loop.simps [of dir acts])
qed



text \<open>C39: \<open>cd\<close> loses the last character of its argument: \<open>main\<close> still cuts off the newline that \<open>readline\<close>
  no longer stores.\<close>

theorem cd_loses_last:
  assumes "printable d" "d \<noteq> []" "length d < 97"
  shows "shell dir (''cd '' @ d @ [CHR 0x0A, CHR 0x0A]) = Inr [Chdir (butlast d)]"
proof -
  have "printable (''cd '' @ d)" using assms(1) by (auto simp: printable_def)
  then have "shell dir (concat (map (\<lambda>l. l @ [CHR 0x0A]) [''cd '' @ d]) @ CHR 0x0A # []) = Inr (map shell_line [''cd '' @ d])"
    unfolding shell_def
    using shell_loop_lines [OF hist_rel_start, of "[]" "[''cd '' @ d]" dir "[]"] assms(3) by (simp add: start_rl_def plain_input_def)
  then show ?thesis using assms(2) by (simp add: shell_line_def)
qed

theorem cd_loses_last_witness: "shell (\<lambda>_. []) (''cd '' @ ''tmp'' @ [CHR 0x0A, CHR 0x0A]) = Inr [Chdir ''tm'']"
  using cd_loses_last [of "''tmp''" "\<lambda>_. []"] by (simp add: printable_def)

end
