(* ===== verification/Spec2Isabelle.thy ===== *)
theory Spec2Isabelle
  imports Proc_Table Trap Grep Sh_Line
begin

text \<open>
  A verification development for the xv6 kernel and user programs of this repository.
\<close>

end
